(* ===== verification/HP_Prelude.thy ===== *)
theory HP_Prelude
  imports "HOL-Library.Word" "HOL-Library.List_Lexorder" "HOL-Library.Char_ord" "HOL-Library.AList"
    "HOL-Library.Multiset"
begin

text \<open>
  Shared vocabulary of the development: the machine integers of the Go source, run-time
  panics as values, Go strings and byte slices, big-endian fields, and Go maps as
  association lists.  The platform is a 64-bit one, where Go's \<open>int\<close> has 64 bits.
\<close>

unbundle bit_operations_syntax

section \<open>Machine integers\<close>

type_synonym u8 = "8 word"
type_synonym u16 = "16 word"
type_synonym u32 = "32 word"
type_synonym u64 = "64 word"

text \<open>\<open>int64\<close> is a 64-bit word read with \<open>sint\<close>; its arithmetic wraps as Go's does.\<close>

type_synonym i64 = "64 word"
type_synonym bytes = "u8 list"

named_theorems go_simps \<open>evaluation of panicking computations\<close>
named_theorems codec \<open>a decoder reads back what its encoder wrote\<close>
named_theorems consumed \<open>bounds on the number of bytes a decoder consumes\<close>

lemma unat_ucast_up:
  assumes "LENGTH('a) \<le> LENGTH('b)"
  shows "unat (ucast (x :: 'a::len word) :: 'b::len word) = unat x"
proof -
  have "unat x < 2 ^ LENGTH('a)" by (rule unsigned_less)
  also have "\<dots> \<le> 2 ^ LENGTH('b)" using assms by simp
  finally show ?thesis by (simp add: unsigned_ucast_eq take_bit_nat_eq_self)
qed

lemma unat_take_bit: "unat (take_bit n w) = unat w mod 2 ^ n"
  by (metis unsigned_take_bit_eq take_bit_eq_mod)

section \<open>Run-time panics\<close>

text \<open>
  A Go run-time panic is not recovered anywhere in the program, so it ends the process.
  A computation that may panic returns \<open>Inl\<close> of the panic or \<open>Inr\<close> of its result.
\<close>

datatype go_panic =
    MakeSliceRange     \<comment> \<open>makeslice: len or cap out of range\<close>
  | SliceBounds        \<comment> \<open>slice bounds out of range\<close>
  | IndexRange         \<comment> \<open>index out of range\<close>
  | Unhashable         \<comment> \<open>hash of unhashable type\<close>
  | Uncomparable       \<comment> \<open>comparing uncomparable type\<close>
  | PopBufferShort     \<comment> \<open>the explicit panic of PopBuffer\<close>
  | BadHex             \<comment> \<open>the explicit panic of mustHex\<close>

type_synonym 'a go = "go_panic + 'a"

definition go_bind :: "'a go \<Rightarrow> ('a \<Rightarrow> 'b go) \<Rightarrow> 'b go" where
  "go_bind m f = (case m of Inl e \<Rightarrow> Inl e | Inr x \<Rightarrow> f x)"

lemma go_bind_simps [simp, go_simps]:
  "go_bind (Inl e) f = Inl e"
  "go_bind (Inr x) f = f x"
  by (simp_all add: go_bind_def)

lemma go_bind_Inr_iff: "go_bind m f = Inr y \<longleftrightarrow> (\<exists>x. m = Inr x \<and> f x = Inr y)"
  by (cases m) auto

lemma go_bind_Inr_E:
  assumes "go_bind m f = Inr y"
  obtains x where "m = Inr x" and "f x = Inr y"
  using assms by (auto simp: go_bind_Inr_iff)

lemma go_bind_cong [fundef_cong]:
  assumes "m = m'" and "\<And>x. m' = Inr x \<Longrightarrow> f x = f' x"
  shows "go_bind m f = go_bind m' f'"
  using assms by (cases m') auto

lemma go_bind_split:
  "P (go_bind m f) \<longleftrightarrow> (\<forall>e. m = Inl e \<longrightarrow> P (Inl e)) \<and> (\<forall>x. m = Inr x \<longrightarrow> P (f x))"
  by (cases m) auto

text \<open>
  \<open>make([]T, n)\<close> and \<open>make([]T, 0, n)\<close> panic for a negative size and for one that needs more
  than the address space the 64-bit runtime manages (\<open>maxAlloc\<close>, 2 to the 48 bytes).
  Running out of memory below that bound is not modelled.
\<close>

definition make_slice_ok :: "nat \<Rightarrow> i64 \<Rightarrow> bool" where
  "make_slice_ok elem n \<longleftrightarrow> 0 \<le> sint n \<and> sint n * int elem \<le> 2 ^ 48"

text \<open>\<open>b[lo:hi]\<close> with the bounds check of the language.\<close>

definition go_slice :: "int \<Rightarrow> int \<Rightarrow> 'a list \<Rightarrow> 'a list go" where
  "go_slice lo hi b =
     (if 0 \<le> lo \<and> lo \<le> hi \<and> hi \<le> int (length b)
      then Inr (take (nat (hi - lo)) (drop (nat lo) b)) else Inl SliceBounds)"

lemma go_slice_ok:
  "0 \<le> lo \<Longrightarrow> lo \<le> hi \<Longrightarrow> hi \<le> int (length b) \<Longrightarrow>
   go_slice lo hi b = Inr (take (nat (hi - lo)) (drop (nat lo) b))"
  by (simp add: go_slice_def)

section \<open>Strings and bytes\<close>

text \<open>
  A Go string is a sequence of bytes.  HOL's \<open>char\<close> is a byte too, so Go strings are HOL
  strings, and the conversions between \<open>string\<close> and \<open>[]byte\<close> are the two below.
\<close>

definition byte_of :: "char \<Rightarrow> u8" where
  "byte_of c = of_nat (of_char c)"

definition char_of_byte :: "u8 \<Rightarrow> char" where
  "char_of_byte b = char_of (unat b)"

definition str_bytes :: "string \<Rightarrow> bytes" where
  "str_bytes s = map byte_of s"

definition bytes_str :: "bytes \<Rightarrow> string" where
  "bytes_str b = map char_of_byte b"

lemma unat_byte_of: "unat (byte_of c) = of_char c"
  by (simp add: byte_of_def unat_of_nat)

lemma char_of_byte_of [simp]: "char_of_byte (byte_of c) = c"
  by (simp add: char_of_byte_def unat_byte_of)

lemma byte_of_char_of_byte [simp]: "byte_of (char_of_byte b) = b"
proof -
  have "unat b < 256" using unsigned_less [of b] by simp
  then have "unat (byte_of (char_of_byte b)) = unat b"
    by (simp only: unat_byte_of char_of_byte_def of_char_of) simp
  then show ?thesis by (simp only: word_unat_eq_iff)
qed

lemma bytes_str_bytes [simp]: "bytes_str (str_bytes s) = s"
  by (simp add: bytes_str_def str_bytes_def comp_def)

lemma str_bytes_str [simp]: "str_bytes (bytes_str b) = b"
  by (simp add: bytes_str_def str_bytes_def comp_def)

lemma length_str_bytes [simp]: "length (str_bytes s) = length s"
  by (simp add: str_bytes_def)

lemma str_bytes_append [simp]: "str_bytes (s @ t) = str_bytes s @ str_bytes t"
  by (simp add: str_bytes_def)

section \<open>Big-endian fields\<close>

definition put_u16 :: "u16 \<Rightarrow> bytes" where
  "put_u16 w = [ucast (drop_bit 8 w), ucast w]"

fun get_u16 :: "bytes \<Rightarrow> u16" where
  "get_u16 (a # b # _) = push_bit 8 (ucast a) OR ucast b"
| "get_u16 _ = 0"

definition put_u32 :: "u32 \<Rightarrow> bytes" where
  "put_u32 w = [ucast (drop_bit 24 w), ucast (drop_bit 16 w), ucast (drop_bit 8 w), ucast w]"

fun get_u32 :: "bytes \<Rightarrow> u32" where
  "get_u32 (a # b # c # d # _) =
     push_bit 24 (ucast a) OR push_bit 16 (ucast b) OR push_bit 8 (ucast c) OR ucast d"
| "get_u32 _ = 0"

lemma length_put [simp]: "length (put_u16 w) = 2" "length (put_u32 v) = 4"
  by (simp_all add: put_u16_def put_u32_def)

lemma get_put_u16 [simp, codec]: "get_u16 (put_u16 w @ r) = w"
  by (auto simp: put_u16_def bit_simps intro!: bit_word_eqI)

lemma get_put_u32 [simp, codec]: "get_u32 (put_u32 w @ r) = w"
proof (rule bit_word_eqI)
  fix n assume "n < LENGTH(32)"
  then consider "n < 8" | "8 \<le> n" "n < 16" | "16 \<le> n" "n < 24" | "24 \<le> n" "n < 32"
    by fastforce
  then show "bit (get_u32 (put_u32 w @ r)) n = bit w n"
    by cases (auto simp: put_u32_def bit_simps)
qed

end
