(* ===== verification/Codec.thy ===== *)
theory Codec
  imports HP_Prelude
begin

text \<open>
  The interface between a byte encoder and its decoder.  Every wire format of the program
  (packed integers, legacy FIRE frames, handshake messages) is used in the same way: the
  writer appends encodings one after the other, the reader peels one value off the front
  and goes on behind the bytes it consumed.  The laws the reader needs are stated once, as a
  locale, and its consequences for streams are proved once.
\<close>

text \<open>Peeling a fixed number of values off the front of a buffer.\<close>

fun dec_many :: "(bytes \<Rightarrow> ('b \<times> nat) option) \<Rightarrow> nat \<Rightarrow> bytes \<Rightarrow> ('b list \<times> nat) option" where
  "dec_many dec 0 b = Some ([], 0)"
| "dec_many dec (Suc n) b =
     (case dec b of
        None \<Rightarrow> None
      | Some (x, k) \<Rightarrow>
          (case dec_many dec n (drop k b) of
             None \<Rightarrow> None
           | Some (xs, m) \<Rightarrow> Some (x # xs, k + m)))"

locale prefix_codec =
  fixes enc :: "'a \<Rightarrow> bytes"
    and dec :: "bytes \<Rightarrow> ('b \<times> nat) option"
    and view :: "'a \<Rightarrow> 'b"
    and ok :: "'a \<Rightarrow> bool"
  assumes dec_enc: "ok x \<Longrightarrow> dec (enc x @ r) = Some (view x, length (enc x))"
begin

lemma dec_enc_whole: "ok x \<Longrightarrow> dec (enc x) = Some (view x, length (enc x))"
  using dec_enc [of x "[]"] by simp

lemma unambiguous:
  assumes "ok x" and "ok y" and "enc x @ r = enc y @ s"
  shows "view x = view y \<and> length (enc x) = length (enc y)"
  using dec_enc [OF assms(1), of r] dec_enc [OF assms(2), of s] assms(3) by simp

lemma prefix_free:
  assumes "ok x" and "ok y" and "enc x @ r = enc y @ s"
  shows "enc x = enc y \<and> r = s"
proof -
  have "length (enc x) = length (enc y)" using unambiguous [OF assms] by simp
  with assms(3) show ?thesis by simp
qed

lemma decode_stream:
  "list_all ok xs \<Longrightarrow>
   dec_many dec (length xs) (concat (map enc xs) @ r) =
     Some (map view xs, length (concat (map enc xs)))"
  by (induction xs) (simp_all add: dec_enc)

lemma stream_injective:
  assumes "list_all ok xs" and "list_all ok ys" and "length xs = length ys"
    and "concat (map enc xs) = concat (map enc ys)"
  shows "map view xs = map view ys"
  using decode_stream [OF assms(1), of "[]"] decode_stream [OF assms(2), of "[]"] assms(3,4)
  by simp

end

text \<open>Big-endian fields are the simplest instance.\<close>

definition read_u16 :: "bytes \<Rightarrow> (u16 \<times> nat) option" where
  "read_u16 b = (if length b < 2 then None else Some (get_u16 b, 2))"

interpretation be16: prefix_codec put_u16 read_u16 "\<lambda>w. w" "\<lambda>_. True"
  by unfold_locales (simp add: read_u16_def)

end
