(* ===== verification/Varint.thy ===== *)
theory Varint
  imports Codec
begin

text \<open>
  The packed integers of the TDF encoding: \<open>EncodeVarsizeInteger\<close> (Fire2Encoder.go) and
  \<open>DecodeVarsizeInteger\<close> (Fire2Decoder.go).  The first byte holds six bits of the
  magnitude, a sign bit (0x40) and a continuation bit (0x80); every further byte holds
  seven bits and a continuation bit.
\<close>

section \<open>The code\<close>

function varint_tail :: "u64 \<Rightarrow> bytes" where
  "varint_tail remaining =
     (if 0 < remaining
      then let nextByte = ucast (remaining AND 0x7f) :: u8;
               rest = drop_bit 7 remaining
           in (if 0 < rest then nextByte OR 0x80 else nextByte) # varint_tail rest
      else [])"
  by pat_completeness auto
termination
proof (relation "measure unat", goal_cases)
  case (2 r x xa)
  then have "0 < unat r" by (simp add: unat_gt_0)
  moreover have "unat (drop_bit 7 r) = unat r div 128"
    by (simp add: unat_drop_bit_eq drop_bit_eq_div [of 7 "unat r"])
  ultimately have "unat (drop_bit 7 r) < unat r" by simp
  with 2 show ?case by simp
qed simp

declare varint_tail.simps [simp del]

definition EncodeVarsizeInteger :: "i64 \<Rightarrow> bytes" where
  "EncodeVarsizeInteger value =
     (let negative = sint value < 0;
          remaining = (if negative then - value else value);
          firstByte = ucast (remaining AND 0x3f) :: u8;
          rest = drop_bit 6 remaining;
          signed = (if negative then firstByte OR 0x40 else firstByte);
          first = (if 0 < rest then signed OR 0x80 else signed)
      in first # varint_tail rest)"

fun varint_loop :: "bytes \<Rightarrow> nat \<Rightarrow> u64 \<Rightarrow> nat \<Rightarrow> u64 \<times> nat" where
  "varint_loop [] shift value read = (value, read)"
| "varint_loop (nextByte # bs) shift value read =
     (let value' = value OR push_bit shift (ucast (nextByte AND 0x7f)) in
      if nextByte AND 0x80 = 0 then (value', Suc read)
      else varint_loop bs (shift + 7) value' (Suc read))"

definition DecodeVarsizeInteger :: "bytes \<Rightarrow> i64 \<times> nat" where
  "DecodeVarsizeInteger buffer =
     (case buffer of
        [] \<Rightarrow> (0, 0)
      | firstByte # bs \<Rightarrow>
          (let negative = (firstByte AND 0x40 \<noteq> 0);
               value = ucast (firstByte AND 0x3f) :: u64;
               (value', read) =
                 (if firstByte AND 0x80 \<noteq> 0 then varint_loop bs 6 value 1 else (value, 1))
           in (if negative then - value' else value', read)))"

section \<open>The decoder stays inside its buffer\<close>

lemma varint_loop_bounds:
  "varint_loop bs sh v n = (w, m) \<Longrightarrow> n \<le> m \<and> m \<le> n + length bs"
  by (induction bs sh v n rule: varint_loop.induct)
     (auto simp: Let_def split: if_splits)

lemma DecodeVarsizeInteger_consumed [consumed]:
  "DecodeVarsizeInteger b = (v, k) \<Longrightarrow> k \<le> length b"
  by (cases b)
     (auto simp: DecodeVarsizeInteger_def Let_def split: if_splits prod.splits
           dest: varint_loop_bounds)

lemma DecodeVarsizeInteger_snd_le [consumed]: "snd (DecodeVarsizeInteger b) \<le> length b"
  by (metis DecodeVarsizeInteger_consumed prod.collapse)

lemma DecodeVarsizeInteger_progress:
  "b \<noteq> [] \<Longrightarrow> DecodeVarsizeInteger b = (v, k) \<Longrightarrow> 1 \<le> k"
  by (cases b)
     (auto simp: DecodeVarsizeInteger_def Let_def split: if_splits prod.splits
           dest: varint_loop_bounds)

section \<open>The round trip\<close>

lemma varint_tail_0 [simp]: "varint_tail 0 = []"
  by (simp add: varint_tail.simps)

lemma varint_tail_pos:
  "0 < r \<Longrightarrow> varint_tail r =
     (if 0 < drop_bit 7 r then ucast (r AND 0x7f) OR 0x80 else ucast (r AND 0x7f))
       # varint_tail (drop_bit 7 r)"
  by (subst varint_tail.simps) (simp add: Let_def)

text \<open>Bit masks split a 64-bit magnitude into the chunk written and the rest.\<close>

lemma chunk_bits:
  "bit (0x7f :: int) n \<longleftrightarrow> n < 7"
  "bit (0x3f :: int) n \<longleftrightarrow> n < 6"
  "bit (0x80 :: int) n \<longleftrightarrow> n = 7"
  "bit (0x40 :: int) n \<longleftrightarrow> n = 6"
proof -
  have "(0x7f :: int) = mask 7" and "(0x3f :: int) = mask 6"
    and "(0x80 :: int) = 2 ^ 7" and "(0x40 :: int) = 2 ^ 6"
    by (simp_all add: mask_eq_exp_minus_1)
  then show "bit (0x7f :: int) n \<longleftrightarrow> n < 7" "bit (0x3f :: int) n \<longleftrightarrow> n < 6"
    "bit (0x80 :: int) n \<longleftrightarrow> n = 7" "bit (0x40 :: int) n \<longleftrightarrow> n = 6"
    by (simp_all only: bit_simps) auto
qed

lemma chunk7:
  "push_bit s (ucast ((ucast (r AND 0x7f) :: u8) AND 0x7f)) OR push_bit (s + 7) (drop_bit 7 r)
    = push_bit s (r :: u64)" (is "?lhs = _")
proof (rule bit_word_eqI)
  fix n assume n: "n < LENGTH(64)"
  show "bit ?lhs n = bit (push_bit s r) n"
  proof (cases "s \<le> n")
    case True
    then obtain m where "n = s + m" using le_Suc_ex by blast
    with n show ?thesis by (cases "m < 7") (auto simp: bit_simps chunk_bits)
  qed (simp add: bit_simps)
qed

lemma cont_mask: "((b :: u8) OR 0x80) AND 0x7f = b AND 0x7f"
  by (rule bit_word_eqI) (auto simp: bit_simps chunk_bits)

lemma flag_bits: "(w :: u8) AND 0x80 = 0 \<longleftrightarrow> \<not> bit w 7" "(w :: u8) AND 0x40 = 0 \<longleftrightarrow> \<not> bit w 6"
proof -
  have "w AND 0x80 = of_bool (bit w 7) * 0x80" "w AND 0x40 = of_bool (bit w 6) * 0x40"
    by (rule bit_word_eqI; auto simp: bit_simps chunk_bits)+
  then show "w AND 0x80 = 0 \<longleftrightarrow> \<not> bit w 7" "w AND 0x40 = 0 \<longleftrightarrow> \<not> bit w 6" by simp_all
qed

lemma cont_bit:
  "\<not> bit (ucast (r AND 0x7f :: u64) :: u8) 7"
  "bit ((ucast (r AND 0x7f :: u64) :: u8) OR 0x80) 7"
  by (simp_all add: bit_simps chunk_bits)

lemma varint_loop_tail:
  "0 < r \<Longrightarrow> varint_loop (varint_tail r @ bs) s v n = (v OR push_bit s r, n + length (varint_tail r))"
proof (induction r arbitrary: s v n rule: varint_tail.induct)
  case (1 r)
  show ?case
  proof (cases "0 < drop_bit 7 r")
    case True
    then have "varint_loop (varint_tail (drop_bit 7 r) @ bs) s' v' n' =
        (v' OR push_bit s' (drop_bit 7 r), n' + length (varint_tail (drop_bit 7 r)))" for s' v' n'
      using "1.IH" "1.prems" by simp
    with True "1.prems" show ?thesis
      by (simp add: varint_tail_pos Let_def flag_bits cont_bit cont_mask chunk7 or.assoc)
  next
    case False
    then have "drop_bit 7 r = 0" by (simp only: word_gt_0 not_not)
    with "1.prems" chunk7 [of s r] show ?thesis
      by (simp add: varint_tail_pos Let_def flag_bits cont_bit)
  qed
qed

lemma first_byte:
  fixes r :: u64 and n c :: bool
  defines "b \<equiv> (ucast (r AND 0x3f) :: u8)"
  defines "f \<equiv> (if n then b OR 0x40 else b)"
  defines "g \<equiv> (if c then f OR 0x80 else f)"
  shows "bit g 7 = c" and "bit g 6 = n" and "g AND 0x3f = b"
proof -
  show "bit g 7 = c" and "bit g 6 = n"
    by (simp_all add: b_def f_def g_def bit_simps chunk_bits)
  show "g AND 0x3f = b"
    by (rule bit_word_eqI) (auto simp: b_def f_def g_def bit_simps chunk_bits)
qed

lemma chunk6: "ucast (ucast (r AND 0x3f) :: u8) OR push_bit 6 (drop_bit 6 r) = (r :: u64)"
proof (rule bit_word_eqI)
  fix n assume "n < LENGTH(64)"
  then show "bit (ucast (ucast (r AND 0x3f) :: u8) OR push_bit 6 (drop_bit 6 r)) n = bit r n"
    by (cases "n < 6") (auto simp: bit_simps chunk_bits)
qed

text \<open>
  Every 64-bit integer, the most negative one included, is read back exactly, whatever
  follows it in the buffer.
\<close>

lemma Decode_Encode [simp, codec]:
  "DecodeVarsizeInteger (EncodeVarsizeInteger v @ r) = (v, length (EncodeVarsizeInteger v))"
proof -
  define neg where "neg = (sint v < 0)"
  define m where "m = (if neg then - v else v)"
  define b where "b = (ucast (m AND 0x3f) :: u8)"
  define f where "f = (if neg then b OR 0x40 else b)"
  define c where "c = (0 < drop_bit 6 m)"
  define g where "g = (if c then f OR 0x80 else f)"
  have enc: "EncodeVarsizeInteger v = g # varint_tail (drop_bit 6 m)"
    by (simp add: EncodeVarsizeInteger_def Let_def neg_def m_def b_def f_def c_def g_def)
  have g: "bit g 7 = c" "bit g 6 = neg" "g AND 0x3f = b"
    by (simp_all only: g_def f_def b_def first_byte)
  have v: "(if neg then - m else m) = v" by (simp add: m_def)
  have m6: "ucast b OR push_bit 6 (drop_bit 6 m) = m" by (simp only: b_def chunk6)
  show ?thesis
  proof (cases c)
    case True
    then show ?thesis
      by (simp add: enc DecodeVarsizeInteger_def Let_def flag_bits g varint_loop_tail c_def m6 v)
  next
    case False
    then have "drop_bit 6 m = 0" by (simp only: c_def word_gt_0 not_not)
    with False m6 show ?thesis
      by (simp add: enc DecodeVarsizeInteger_def Let_def flag_bits g v)
  qed
qed

text \<open>The packed integers are a prefix code, so streams of them are unambiguous.\<close>

interpretation varint: prefix_codec EncodeVarsizeInteger "\<lambda>b. Some (DecodeVarsizeInteger b)"
    "\<lambda>v. v" "\<lambda>_. True"
  by unfold_locales simp

lemma EncodeVarsizeInteger_nonempty [simp]: "EncodeVarsizeInteger v \<noteq> []"
  by (simp add: EncodeVarsizeInteger_def Let_def)

section \<open>Size\<close>

lemma varint_tail_length:
  "unat r < 2 ^ (7 * n) \<Longrightarrow> length (varint_tail r) \<le> n"
proof (induction n arbitrary: r)
  case 0
  then show ?case by (simp add: unat_eq_0)
next
  case (Suc n)
  have "unat (drop_bit 7 r) = unat r div 128"
    by (simp add: unat_drop_bit_eq drop_bit_eq_div [of 7 "unat r"])
  moreover have "unat r < 2 ^ (7 * n) * 128"
    using Suc.prems by (simp add: power_add mult.commute)
  ultimately have "unat (drop_bit 7 r) < 2 ^ (7 * n)"
    by (simp only: div_less_iff_less_mult zero_less_numeral)
  then have "length (varint_tail (drop_bit 7 r)) \<le> n" by (rule Suc.IH)
  then show ?case by (cases "r = 0") (simp_all add: varint_tail_pos word_gt_0)
qed

lemma EncodeVarsizeInteger_length: "length (EncodeVarsizeInteger v) \<le> 10"
proof -
  have "length (varint_tail r) \<le> 9" if "unat r < 2 ^ (7 * 9)" for r
    using that by (rule varint_tail_length)
  moreover have "unat (drop_bit 6 m) < 2 ^ (7 * 9)" for m :: u64
  proof -
    have "unat (drop_bit 6 m) = unat m div 64"
      by (simp add: unat_drop_bit_eq drop_bit_eq_div [of 6 "unat m"])
    moreover have "unat m < 2 ^ 64" using unsigned_less [of m] by simp
    ultimately show ?thesis by simp
  qed
  ultimately show ?thesis
    by (simp add: EncodeVarsizeInteger_def Let_def)
qed

text \<open>
  Claim C37. Packed integers round-trip: every 64-bit integer is written in one to ten bytes, and
  reading them back, whatever follows, yields the integer and consumes exactly those bytes.
\<close>

theorem varint_roundtrip:
  "DecodeVarsizeInteger (EncodeVarsizeInteger v @ r) = (v, length (EncodeVarsizeInteger v)) \<and>
   1 \<le> length (EncodeVarsizeInteger v) \<and> length (EncodeVarsizeInteger v) \<le> 10"
proof -
  have "1 \<le> length (EncodeVarsizeInteger v)"
    using EncodeVarsizeInteger_nonempty [of v] by (cases "EncodeVarsizeInteger v") auto
  then show ?thesis using EncodeVarsizeInteger_length [of v] by simp
qed

end
