(* ===== verification/Go_Fmt.thy ===== *)
theory Go_Fmt
  imports HP_Prelude
begin

text \<open>
  The part of Go's \<open>fmt\<close> and \<open>strconv\<close> the program relies on: \<open>%d\<close> and \<open>%v\<close> on integers,
  and \<open>%v\<close> on \<open>float32\<close> (the shortest decimal that reads back as the same value, printed
  with an exponent below 1e-4 and from 1e+06 on).  \<open>sortedMapKeys\<close> (Fire2Logging.go)
  orders map keys by these texts.
\<close>

section \<open>Integers\<close>

definition digit_char :: "nat \<Rightarrow> char" where
  "digit_char d = char_of (48 + d)"

fun nat_dec :: "nat \<Rightarrow> string" where
  "nat_dec n = (if n < 10 then [digit_char n] else nat_dec (n div 10) @ [digit_char (n mod 10)])"

declare nat_dec.simps [simp del]

definition int_dec :: "int \<Rightarrow> string" where
  "int_dec i = (if i < 0 then CHR ''-'' # nat_dec (nat (- i)) else nat_dec (nat i))"

lemma digit_char_inj: "a < 10 \<Longrightarrow> b < 10 \<Longrightarrow> digit_char a = digit_char b \<Longrightarrow> a = b"
proof -
  assume "a < 10" "b < 10" "digit_char a = digit_char b"
  then have "(48 + a) mod 256 = (48 + b) mod 256"
    unfolding digit_char_def by (metis of_char_of)
  with \<open>a < 10\<close> \<open>b < 10\<close> show "a = b" by simp
qed

lemma digit_not_minus: "d < 10 \<Longrightarrow> digit_char d \<noteq> CHR ''-''"
proof
  assume "d < 10" "digit_char d = CHR ''-''"
  then have "(of_char (char_of (48 + d) :: char) :: nat) = of_char (CHR ''-'')"
    by (simp only: digit_char_def)
  then have "(48 + d) mod 256 = (45 :: nat)" by (simp add: of_char_of)
  with \<open>d < 10\<close> show False by simp
qed

lemma nat_dec_not_Nil [simp]: "nat_dec n \<noteq> []"
  by (subst nat_dec.simps) simp

lemma nat_dec_inj: "nat_dec m = nat_dec n \<Longrightarrow> m = n"
proof (induction m arbitrary: n rule: nat_dec.induct)
  case (1 m)
  show ?case
  proof (cases "m < 10")
    case True
    with "1.prems" have "n < 10"
      by (metis nat_dec.simps append_eq_Cons_conv nat_dec_not_Nil list.distinct(1) append_is_Nil_conv)
    with True "1.prems" show ?thesis
      by (simp add: nat_dec.simps [of m] nat_dec.simps [of n] digit_char_inj)
  next
    case False
    then have m: "nat_dec m = nat_dec (m div 10) @ [digit_char (m mod 10)]"
      by (subst nat_dec.simps) simp
    have "\<not> n < 10"
      using "1.prems" m by (metis nat_dec.simps append_eq_Cons_conv nat_dec_not_Nil list.distinct(1) append_is_Nil_conv)
    then have n: "nat_dec n = nat_dec (n div 10) @ [digit_char (n mod 10)]"
      by (subst nat_dec.simps) simp
    from "1.prems" m n have "nat_dec (m div 10) = nat_dec (n div 10)"
      and "digit_char (m mod 10) = digit_char (n mod 10)" by simp_all
    then have "m div 10 = n div 10" and "m mod 10 = n mod 10"
      using "1.IH" [OF False] digit_char_inj by auto
    then show ?thesis by (metis div_mult_mod_eq)
  qed
qed

lemma nat_dec_first: "hd (nat_dec n) \<noteq> CHR ''-''"
proof (induction n rule: nat_dec.induct)
  case (1 n)
  then show ?case
    by (cases "n < 10") (simp_all add: nat_dec.simps [of n] digit_not_minus)
qed

lemma int_dec_inj: "int_dec a = int_dec b \<Longrightarrow> a = b"
proof -
  assume eq: "int_dec a = int_dec b"
  have neg: "(a < 0) = (b < 0)"
    using eq nat_dec_first [of "nat a"] nat_dec_first [of "nat b"]
    by (auto simp: int_dec_def split: if_splits) (metis list.sel(1))+
  with eq have "nat_dec (nat (if a < 0 then - a else a)) = nat_dec (nat (if b < 0 then - b else b))"
    by (auto simp: int_dec_def split: if_splits)
  then have "nat (if a < 0 then - a else a) = nat (if b < 0 then - b else b)" by (rule nat_dec_inj)
  with neg show "a = b" by (auto split: if_splits)
qed

section \<open>float32\<close>

text \<open>
  A finite nonzero value is \<open>m * 2 ^ (e - 149)\<close>.  The two neighbouring halfway points
  bound the decimals that read back as the value; they, and the value, are integers in
  units of \<open>2 ^ (- 151)\<close>.
\<close>

definition f32_exp :: "u32 \<Rightarrow> nat" where
  "f32_exp w = unat (drop_bit 23 w AND 0xff)"

definition f32_frac :: "u32 \<Rightarrow> nat" where
  "f32_frac w = unat (w AND 0x7fffff)"

definition f32_nan :: "u32 \<Rightarrow> bool" where
  "f32_nan w \<longleftrightarrow> f32_exp w = 255 \<and> f32_frac w \<noteq> 0"

definition f32_zero :: "u32 \<Rightarrow> bool" where
  "f32_zero w \<longleftrightarrow> f32_exp w = 0 \<and> f32_frac w = 0"

text \<open>Go's \<open>==\<close> on \<open>float32\<close>: a NaN equals nothing, the two zeros are equal.\<close>

definition f32_eq :: "u32 \<Rightarrow> u32 \<Rightarrow> bool" where
  "f32_eq a b \<longleftrightarrow> \<not> f32_nan a \<and> \<not> f32_nan b \<and> (a = b \<or> (f32_zero a \<and> f32_zero b))"

definition f32_units :: "nat" where
  "f32_units = 2 ^ 151"

definition f32_mant :: "u32 \<Rightarrow> nat" where
  "f32_mant w = (if f32_exp w = 0 then f32_frac w else f32_frac w + 2 ^ 23)"

definition f32_scale :: "u32 \<Rightarrow> nat" where
  "f32_scale w = 2 ^ (max 1 (f32_exp w) - 1)"

definition f32_value :: "u32 \<Rightarrow> nat" where
  "f32_value w = 4 * f32_mant w * f32_scale w"

definition f32_upper :: "u32 \<Rightarrow> nat" where
  "f32_upper w = (4 * f32_mant w + 2) * f32_scale w"

definition f32_lower :: "u32 \<Rightarrow> nat" where
  "f32_lower w =
     (if f32_frac w \<noteq> 0 \<or> f32_exp w \<le> 1 then 4 * f32_mant w - 2 else 4 * f32_mant w - 1) * f32_scale w"

text \<open>
  The position of the decimal point: the least \<open>dp\<close>, from \<open>-45\<close> on, with the value below
  \<open>10 ^ dp\<close>; the fuel of 85 covers the whole range of \<open>float32\<close>.
\<close>

primrec f32_point :: "nat \<Rightarrow> int \<Rightarrow> nat \<Rightarrow> int" where
  "f32_point 0 dp v = dp"
| "f32_point (Suc fuel) dp v =
     (if (if dp < 0 then v * 10 ^ nat (- dp) < f32_units else v < 10 ^ nat dp * f32_units) then dp
      else f32_point fuel (dp + 1) v)"

text \<open>
  With \<open>n\<close> digits: the value truncated to a multiple \<open>d\<close> of \<open>q = 10 ^ (dp - n)\<close>, and the
  tests whether \<open>d\<close> or \<open>d + 1\<close> still reads back.
\<close>

primrec f32_short :: "nat \<Rightarrow> nat \<Rightarrow> int \<Rightarrow> u32 \<Rightarrow> nat \<times> nat" where
  "f32_short 0 n dp w = (0, n)"
| "f32_short (Suc fuel) n dp w =
     (let num = (if int n < dp then 1 else 10 ^ nat (int n - dp));
          den = (if int n < dp then 10 ^ nat (dp - int n) else 1) * f32_units;
          inclusive = even (f32_mant w);
          d = f32_value w * num div den;
          lo = f32_lower w * num; up = f32_upper w * num;
          okdown = (lo < d * den \<or> (inclusive \<and> lo = d * den));
          okup = ((d + 1) * den < up \<or> (inclusive \<and> (d + 1) * den = up));
          twice = 2 * (f32_value w * num - d * den);
          near = (if twice < den \<or> (twice = den \<and> even d) then d else d + 1)
      in if okdown \<and> okup then (near, n)
         else if okdown then (d, n)
         else if okup then (d + 1, n)
         else f32_short fuel (Suc n) dp w)"

definition f32_text :: "string \<Rightarrow> int \<Rightarrow> string" where
  "f32_text ds dp =
     (let e = dp - 1; nd = int (length ds) in
      if e < - 4 \<or> 6 \<le> e
      then hd ds # (if tl ds = [] then [] else CHR ''.'' # tl ds) @ ''e'' @
           (if e < 0 then ''-'' else ''+'') @
           (if \<bar>e\<bar> < 10 then ''0'' else '''') @ nat_dec (nat \<bar>e\<bar>)
      else if dp \<le> 0 then ''0.'' @ replicate (nat (- dp)) (CHR ''0'') @ ds
      else if nd \<le> dp then ds @ replicate (nat (dp - nd)) (CHR ''0'')
      else take (nat dp) ds @ ''.'' @ drop (nat dp) ds)"

definition fmt_f32 :: "u32 \<Rightarrow> string" where
  "fmt_f32 w =
     (let sign = (if bit w 31 then ''-'' else '''') in
      if f32_nan w then ''NaN''
      else if f32_exp w = 255 then (if bit w 31 then ''-Inf'' else ''+Inf'')
      else if f32_zero w then sign @ ''0''
      else let dp = f32_point 85 (- 45) (f32_value w);
               (d, n) = f32_short 10 1 dp w;
               ds = nat_dec d
           in if n < length ds then sign @ f32_text (take n ds) (dp + 1)
              else sign @ f32_text ds dp)"

end
