(* ===== verification/Tdf.thy ===== *)
theory Tdf
  imports Varint Go_Fmt "HOL-Library.Multiset"
begin

text \<open>
  The TDF value universe (Fire2Types.go and the dynamic types the codec stores in
  \<open>interface{}\<close>), its type numbers, its tags, and the equality and hashing Go applies to
  interface values.

  A Go map is an association list with one entry per key; the order of the entries is
  representation only, since the code iterates maps through \<open>sortedKeys\<close> and
  \<open>sortedMapKeys\<close>.
\<close>

section \<open>Values\<close>

datatype tdf =
    TNil                                        \<comment> \<open>the nil interface\<close>
  | TInt i64
  | TBool bool
  | TStr string
  | TBlob bytes                                 \<comment> \<open>[]byte\<close>
  | TStruct "(string \<times> tdf) list"              \<comment> \<open>map[string]interface{}\<close>
  | TArmed u8 "(string \<times> tdf) list"            \<comment> \<open>ArmedStruct\<close>
  | TList "tdf list"                            \<comment> \<open>[]interface{}\<close>
  | TTyped u8 "tdf list"                        \<comment> \<open>TypedList\<close>
  | TMap "(tdf \<times> tdf) list"                    \<comment> \<open>map[interface{}]interface{}\<close>
  | TFloat u32                                  \<comment> \<open>float32, by its bits\<close>
  | TObjType u16 u16                            \<comment> \<open>ObjectType\<close>
  | TObjId u16 u16 i64                          \<comment> \<open>ObjectID\<close>
  | TUnion u8 string tdf                        \<comment> \<open>Union\<close>
  | TVar u32 string tdf                         \<comment> \<open>Variable, also GENERIC\<close>

type_synonym fields = "(string \<times> tdf) list"
type_synonym tmap = "(tdf \<times> tdf) list"

text \<open>The typed reads \<open>v, ok := m[tag].(T)\<close>; the zero value when the entry is absent or of another type.\<close>

fun as_int :: "tdf option \<Rightarrow> i64 option" where
  "as_int (Some (TInt n)) = Some n"
| "as_int _ = None"

fun as_str :: "tdf option \<Rightarrow> string option" where
  "as_str (Some (TStr s)) = Some s"
| "as_str _ = None"

fun as_struct :: "tdf option \<Rightarrow> fields option" where
  "as_struct (Some (TStruct fs)) = Some fs"
| "as_struct _ = None"

fun as_list :: "tdf option \<Rightarrow> tdf list option" where
  "as_list (Some (TList xs)) = Some xs"
| "as_list _ = None"

fun as_map :: "tdf option \<Rightarrow> tmap option" where
  "as_map (Some (TMap m)) = Some m"
| "as_map _ = None"

definition int_field :: "fields \<Rightarrow> string \<Rightarrow> i64" where
  "int_field fs tag = (case as_int (map_of fs tag) of Some n \<Rightarrow> n | None \<Rightarrow> 0)"

definition str_field :: "fields \<Rightarrow> string \<Rightarrow> string" where
  "str_field fs tag = (case as_str (map_of fs tag) of Some s \<Rightarrow> s | None \<Rightarrow> '''')"

definition list_field :: "fields \<Rightarrow> string \<Rightarrow> tdf list" where
  "list_field fs tag = (case as_list (map_of fs tag) of Some xs \<Rightarrow> xs | None \<Rightarrow> [])"

definition map_field :: "fields \<Rightarrow> string \<Rightarrow> tmap" where
  "map_field fs tag = (case as_map (map_of fs tag) of Some m \<Rightarrow> m | None \<Rightarrow> [])"

lemmas field_defs = int_field_def str_field_def list_field_def map_field_def

section \<open>Type numbers\<close>

datatype heat_type =
    HEAT_TYPE_INTEGER | HEAT_TYPE_STRING | HEAT_TYPE_BLOB | HEAT_TYPE_TDF | HEAT_TYPE_LIST
  | HEAT_TYPE_MAP | HEAT_TYPE_UNION | HEAT_TYPE_VARIABLE | HEAT_TYPE_OBJECT_TYPE
  | HEAT_TYPE_OBJECT_ID | HEAT_TYPE_FLOAT | HEAT_TYPE_TIMEVALUE | HEAT_TYPE_GENERIC_TYPE
  | HEAT_TYPE_INVALID

definition GetTypeByID :: "int \<Rightarrow> heat_type" where
  "GetTypeByID i =
     (if i = 0 then HEAT_TYPE_INTEGER
      else if i = 1 then HEAT_TYPE_STRING
      else if i = 2 then HEAT_TYPE_BLOB
      else if i = 3 then HEAT_TYPE_TDF
      else if i = 4 then HEAT_TYPE_LIST
      else if i = 5 then HEAT_TYPE_MAP
      else if i = 6 then HEAT_TYPE_UNION
      else if i = 7 then HEAT_TYPE_VARIABLE
      else if i = 8 then HEAT_TYPE_OBJECT_TYPE
      else if i = 9 then HEAT_TYPE_OBJECT_ID
      else if i = 10 then HEAT_TYPE_FLOAT
      else if i = 11 then HEAT_TYPE_TIMEVALUE
      else if i = 12 then HEAT_TYPE_GENERIC_TYPE
      else HEAT_TYPE_INVALID)"

fun typeByte :: "tdf \<Rightarrow> u8" where
  "typeByte (TInt _) = 0"
| "typeByte (TBool _) = 0"
| "typeByte (TStr _) = 1"
| "typeByte (TBlob _) = 2"
| "typeByte (TStruct _) = 3"
| "typeByte (TArmed _ _) = 3"
| "typeByte (TList _) = 4"
| "typeByte (TTyped _ _) = 4"
| "typeByte (TMap _) = 5"
| "typeByte (TUnion _ _ _) = 6"
| "typeByte (TVar _ _ _) = 7"
| "typeByte (TObjType _ _) = 8"
| "typeByte (TObjId _ _ _) = 9"
| "typeByte (TFloat _) = 10"
| "typeByte TNil = 0xff"

section \<open>Tags\<close>

fun tag_pack :: "nat \<Rightarrow> string \<Rightarrow> u32 \<Rightarrow> u32" where
  "tag_pack i [] packed = packed"
| "tag_pack i (c # cs) packed =
     (if i < 4
      then let char = byte_of c;
               char' = (if byte_of CHR ''a'' \<le> char \<and> char \<le> byte_of CHR ''z''
                        then char - 0x20 else char)
           in tag_pack (Suc i) cs (packed OR push_bit (26 - 6 * i) (ucast ((char' - 0x20) AND 0x3f)))
      else packed)"

definition encodeTag :: "string \<Rightarrow> bytes" where
  "encodeTag tag =
     (let packed = tag_pack 0 tag 0
      in [ucast (drop_bit 24 packed), ucast (drop_bit 16 packed), ucast (drop_bit 8 packed)])"

text \<open>The loop of \<open>DecodeTag\<close>, from \<open>i = 3\<close> down to \<open>0\<close>: the array filled so far and the size.\<close>

fun untag_loop :: "nat \<Rightarrow> u32 \<Rightarrow> string \<Rightarrow> nat \<Rightarrow> string \<times> nat" where
  "untag_loop 0 tag buf sz = (buf, sz)"
| "untag_loop (Suc i) tag buf sz =
     (let sixbits = tag AND 0x3f in
      if sixbits \<noteq> 0
      then untag_loop i (drop_bit 6 tag) (char_of_byte (ucast (sixbits + 32)) # buf) sz
      else untag_loop i (drop_bit 6 tag) (char_of_byte 0 # buf) i)"

definition DecodeTag :: "bytes \<Rightarrow> string" where
  "DecodeTag buffer =
     (case buffer of
        b0 # b1 # b2 # _ \<Rightarrow>
          (let tag = push_bit 16 (ucast b0) OR push_bit 8 (ucast b1) OR ucast b2;
               (buf, sz) = untag_loop 4 tag [] 4
           in take sz buf)
      | _ \<Rightarrow> '''')"

text \<open>The characters a tag can hold, and what packing makes of them.\<close>

definition tag_upper :: "char \<Rightarrow> char" where
  "tag_upper c =
     (if byte_of CHR ''a'' \<le> byte_of c \<and> byte_of c \<le> byte_of CHR ''z''
      then char_of_byte (byte_of c - 0x20) else c)"

definition tag_char :: "char \<Rightarrow> bool" where
  "tag_char c \<longleftrightarrow> 0x21 \<le> byte_of c \<and> (byte_of c \<le> 0x5f \<or>
     (byte_of CHR ''a'' \<le> byte_of c \<and> byte_of c \<le> byte_of CHR ''z''))"

definition six :: "char \<Rightarrow> u8" where
  "six c = (byte_of (tag_upper c) - 0x20) AND 0x3f"

section \<open>Equality and hashing of interface values\<close>

fun hashable :: "tdf \<Rightarrow> bool" where
  "hashable (TBlob _) = False"
| "hashable (TStruct _) = False"
| "hashable (TArmed _ _) = False"
| "hashable (TList _) = False"
| "hashable (TTyped _ _) = False"
| "hashable (TMap _) = False"
| "hashable (TUnion _ _ v) = hashable v"
| "hashable (TVar _ _ v) = hashable v"
| "hashable _ = True"

text \<open>
  \<open>a == b\<close> on interface values: different dynamic types are unequal, equal dynamic types
  compare their values, and comparing two slices, maps or structs holding one panics.
\<close>

fun go_eq :: "tdf \<Rightarrow> tdf \<Rightarrow> bool go" where
  "go_eq TNil w = Inr (w = TNil)"
| "go_eq (TInt a) w = Inr (w = TInt a)"
| "go_eq (TBool a) w = Inr (w = TBool a)"
| "go_eq (TStr a) w = Inr (w = TStr a)"
| "go_eq (TFloat a) w = (case w of TFloat b \<Rightarrow> Inr (f32_eq a b) | _ \<Rightarrow> Inr False)"
| "go_eq (TObjType c t) w = Inr (w = TObjType c t)"
| "go_eq (TObjId c t i) w = Inr (w = TObjId c t i)"
| "go_eq (TUnion a f v) w =
     (case w of TUnion b g u \<Rightarrow> if a = b \<and> f = g then go_eq v u else Inr False | _ \<Rightarrow> Inr False)"
| "go_eq (TVar a f v) w =
     (case w of TVar b g u \<Rightarrow> if a = b \<and> f = g then go_eq v u else Inr False | _ \<Rightarrow> Inr False)"
| "go_eq (TBlob _) w = (case w of TBlob _ \<Rightarrow> Inl Uncomparable | _ \<Rightarrow> Inr False)"
| "go_eq (TStruct _) w = (case w of TStruct _ \<Rightarrow> Inl Uncomparable | _ \<Rightarrow> Inr False)"
| "go_eq (TArmed _ _) w = (case w of TArmed _ _ \<Rightarrow> Inl Uncomparable | _ \<Rightarrow> Inr False)"
| "go_eq (TList _) w = (case w of TList _ \<Rightarrow> Inl Uncomparable | _ \<Rightarrow> Inr False)"
| "go_eq (TTyped _ _) w = (case w of TTyped _ _ \<Rightarrow> Inl Uncomparable | _ \<Rightarrow> Inr False)"
| "go_eq (TMap _) w = (case w of TMap _ \<Rightarrow> Inl Uncomparable | _ \<Rightarrow> Inr False)"

lemma go_eq_sym: "go_eq a b = go_eq b a"
proof (induction a arbitrary: b)
  case (TUnion x1 x2 a)
  then show ?case by (cases b) auto
next
  case (TVar x1 x2 a)
  then show ?case by (cases b) auto
qed (case_tac [!] b, auto simp: f32_eq_def)

lemma go_eq_hashable: "hashable a \<Longrightarrow> \<exists>r. go_eq a b = Inr r"
  by (induction a b rule: go_eq.induct) (auto split: tdf.splits)

text \<open>
  \<open>m[k] = v\<close> on a \<open>map[interface{}]interface{}\<close>.  Storing under an unhashable key panics.
\<close>

fun tmap_put :: "tdf \<Rightarrow> tdf \<Rightarrow> tmap \<Rightarrow> tmap" where
  "tmap_put k v [] = [(k, v)]"
| "tmap_put k v ((k', v') # m) =
     (if go_eq k k' = Inr True then (k, v) # m else (k', v') # tmap_put k v m)"

definition tmap_assign :: "tdf \<Rightarrow> tdf \<Rightarrow> tmap \<Rightarrow> tmap go" where
  "tmap_assign k v m = (if hashable k then Inr (tmap_put k v m) else Inl Unhashable)"

text \<open>
  \<open>m[k]\<close> for a key that can be hashed: the value stored under the key equal to it, or nil.  A key that
  holds a NaN is equal to no key, not even to itself.
\<close>

definition map_get :: "tmap \<Rightarrow> tdf \<Rightarrow> tdf" where
  "map_get m k = (case find (\<lambda>(k', _). go_eq k k' = Inr True) m of Some (_, v) \<Rightarrow> v | None \<Rightarrow> TNil)"

lemma map_get_simps [simp]:
  "map_get [] k = TNil"
  "map_get ((k', v) # m) k = (if go_eq k k' = Inr True then v else map_get m k)"
  by (simp_all add: map_get_def)

lemma map_get_cases: "map_get m k = TNil \<or> map_get m k \<in> snd ` set m"
proof (induction m)
  case (Cons kv m)
  then show ?case by (cases kv) auto
qed simp

text \<open>No two keys of a Go map are equal.\<close>

definition go_map :: "tmap \<Rightarrow> bool" where
  "go_map m \<longleftrightarrow> sorted_wrt (\<lambda>a b. go_eq (fst a) (fst b) \<noteq> Inr True) m"

lemma go_map_simps [simp]:
  "go_map []"
  "go_map ((k, v) # m) \<longleftrightarrow> (\<forall>(k', v') \<in> set m. go_eq k k' \<noteq> Inr True) \<and> go_map m"
  by (auto simp: go_map_def)

lemma go_eq_trans: "go_eq a b = Inr True \<Longrightarrow> go_eq a c = Inr True \<Longrightarrow> go_eq b c = Inr True"
proof (induction a arbitrary: b c)
  case (TUnion x1 x2 a)
  then show ?case by (auto split: tdf.splits if_splits)
next
  case (TVar x1 x2 a)
  then show ?case by (auto split: tdf.splits if_splits)
qed (auto simp: f32_eq_def split: tdf.splits)

lemma go_map_iff:
  "go_map m \<longleftrightarrow> (\<forall>kv r. mset m = add_mset kv r \<longrightarrow> (\<forall>kv' \<in># r. go_eq (fst kv) (fst kv') \<noteq> Inr True))"
proof (induction m)
  case (Cons x m)
  have "go_map (x # m) \<longleftrightarrow> (\<forall>kv' \<in># mset m. go_eq (fst x) (fst kv') \<noteq> Inr True) \<and> go_map m"
    by (simp add: go_map_def)
  also have "\<dots> \<longleftrightarrow> (\<forall>kv r. mset (x # m) = add_mset kv r \<longrightarrow> (\<forall>kv' \<in># r. go_eq (fst kv) (fst kv') \<noteq> Inr True))"
    unfolding Cons.IH
  proof (intro iffI conjI allI impI)
    fix kv r
    assume a: "(\<forall>kv' \<in># mset m. go_eq (fst x) (fst kv') \<noteq> Inr True) \<and>
        (\<forall>kv r. mset m = add_mset kv r \<longrightarrow> (\<forall>kv' \<in># r. go_eq (fst kv) (fst kv') \<noteq> Inr True))"
      and "mset (x # m) = add_mset kv r"
    then consider "x = kv" "mset m = r" | q where "mset m = add_mset kv q" "r = add_mset x q"
      by (auto simp: add_eq_conv_ex)
    then show "\<forall>kv' \<in># r. go_eq (fst kv) (fst kv') \<noteq> Inr True"
    proof cases
      case 2
      then have "go_eq (fst kv) (fst x) \<noteq> Inr True" using a by (simp add: go_eq_sym [of "fst kv"])
      moreover have "\<forall>kv' \<in># q. go_eq (fst kv) (fst kv') \<noteq> Inr True" using a 2(1) by blast
      ultimately show ?thesis using 2(2) by simp
    qed (use a in simp)
  next
    assume a: "\<forall>kv r. mset (x # m) = add_mset kv r \<longrightarrow> (\<forall>kv' \<in># r. go_eq (fst kv) (fst kv') \<noteq> Inr True)"
    from a [rule_format, of x "mset m"] show "\<forall>kv' \<in># mset m. go_eq (fst x) (fst kv') \<noteq> Inr True" by simp
    fix kv r assume "mset m = add_mset kv r"
    then have "mset (x # m) = add_mset kv (add_mset x r)" by simp
    with a have "\<forall>kv' \<in># add_mset x r. go_eq (fst kv) (fst kv') \<noteq> Inr True" by blast
    then show "\<forall>kv' \<in># r. go_eq (fst kv) (fst kv') \<noteq> Inr True" by simp
  qed
  finally show ?case .
qed simp

lemma go_map_mset: "mset m = mset m' \<Longrightarrow> go_map m = go_map m'"
  by (simp add: go_map_iff)

lemma map_get_entry: "go_map m \<Longrightarrow> (k, v) \<in> set m \<Longrightarrow> go_eq k k = Inr True \<Longrightarrow> map_get m k = v"
  by (induction m) (auto simp: go_eq_sym)

text \<open>What is found does not depend on the order in which the entries are listed.\<close>

lemma map_get_unique: "go_map m \<Longrightarrow> (k', v) \<in> set m \<Longrightarrow> go_eq k k' = Inr True \<Longrightarrow> map_get m k = v"
proof (induction m)
  case (Cons kv m)
  obtain a b where kv: "kv = (a, b)" by (cases kv)
  have "go_eq a k' = Inr True" if "go_eq k a = Inr True" using that Cons.prems(3) by (rule go_eq_trans)
  with Cons show ?case by (auto simp: kv)
qed simp

lemma map_get_absent: "\<forall>(k', v) \<in> set m. go_eq k k' \<noteq> Inr True \<Longrightarrow> map_get m k = TNil"
  by (induction m) auto

lemma map_get_set: "go_map m \<Longrightarrow> go_map m' \<Longrightarrow> set m = set m' \<Longrightarrow> map_get m k = map_get m' k"
proof (cases "\<exists>(k', v) \<in> set m. go_eq k k' = Inr True")
  case True
  then obtain k' v where "(k', v) \<in> set m" "go_eq k k' = Inr True" by auto
  moreover assume "go_map m" "go_map m'" "set m = set m'"
  ultimately show ?thesis using map_get_unique [of m k' v k] map_get_unique [of m' k' v k] by simp
next
  case False
  then have a: "\<forall>(k', v) \<in> set m. go_eq k k' \<noteq> Inr True" by auto
  assume "set m = set m'"
  then show ?thesis using map_get_absent [OF a] map_get_absent [of m' k] a by simp
qed

section \<open>The order of keys\<close>

text \<open>
  \<open>fmt.Sprintf("%v", key)\<close> for the values that can be keys.  The unhashable ones cannot be
  stored in a Go map, so their text is never asked for.
\<close>

fun fmt_v :: "tdf \<Rightarrow> string" where
  "fmt_v TNil = ''<nil>''"
| "fmt_v (TInt n) = int_dec (sint n)"
| "fmt_v (TBool b) = (if b then ''true'' else ''false'')"
| "fmt_v (TStr s) = s"
| "fmt_v (TFloat w) = fmt_f32 w"
| "fmt_v (TObjType c t) = ''{'' @ nat_dec (unat c) @ '' '' @ nat_dec (unat t) @ ''}''"
| "fmt_v (TObjId c t i) =
     ''{'' @ nat_dec (unat c) @ '' '' @ nat_dec (unat t) @ '' '' @ int_dec (sint i) @ ''}''"
| "fmt_v (TUnion a f v) = ''{'' @ nat_dec (unat a) @ '' '' @ f @ '' '' @ fmt_v v @ ''}''"
| "fmt_v (TVar i f v) = ''{'' @ nat_dec (unat i) @ '' '' @ f @ '' '' @ fmt_v v @ ''}''"
| "fmt_v _ = ''''"

text \<open>
  \<open>sortedKeys\<close> with the values carried along (a string is always found again under itself),
  \<open>sortedMapKeys\<close>, and the entries of a map in the order of these keys.
\<close>

definition sortedKeys :: "fields \<Rightarrow> fields" where
  "sortedKeys fs = sort_key fst fs"

definition sortedMapKeys :: "tmap \<Rightarrow> tdf list" where
  "sortedMapKeys m = sort_key fmt_v (map fst m)"

definition sorted_entries :: "tmap \<Rightarrow> tmap" where
  "sorted_entries m = sort_key (\<lambda>kv. fmt_v (fst kv)) m"

lemma mset_sortedKeys [simp]: "mset (sortedKeys fs) = mset fs"
  by (simp add: sortedKeys_def)

lemma length_sortedKeys [simp]: "length (sortedKeys fs) = length fs"
  by (simp add: sortedKeys_def)

lemma set_sortedKeys [simp]: "set (sortedKeys fs) = set fs"
  by (simp add: sortedKeys_def)

lemma set_sortedMapKeys [simp]: "set (sortedMapKeys m) = fst ` set m"
  by (simp add: sortedMapKeys_def)

lemma length_sortedMapKeys [simp]: "length (sortedMapKeys m) = length m"
  by (simp add: sortedMapKeys_def)

lemma sortedMapKeys_Nil [simp]: "sortedMapKeys m = [] \<longleftrightarrow> m = []"
  by (metis length_0_conv length_sortedMapKeys)

lemma sortedMapKeys_empty [simp]: "sortedMapKeys [] = []"
  by simp

lemma mset_sorted_entries [simp]: "mset (sorted_entries m) = mset m"
  by (simp add: sorted_entries_def)

lemma set_sorted_entries [simp]: "set (sorted_entries m) = set m"
  by (simp add: sorted_entries_def)

lemma length_sorted_entries [simp]: "length (sorted_entries m) = length m"
  by (simp add: sorted_entries_def)

lemma map_insort_key: "map g (insort_key (\<lambda>x. f (g x)) x xs) = insort_key f (g x) (map g xs)"
  by (induction xs) auto

lemma map_sort_key: "map g (sort_key (\<lambda>x. f (g x)) xs) = sort_key f (map g xs)"
  by (induction xs) (simp_all add: map_insort_key)

lemma fst_sorted_entries [simp]: "map fst (sorted_entries m) = sortedMapKeys m"
  by (simp add: sorted_entries_def sortedMapKeys_def map_sort_key)

lemma sorted_sortedKeys: "sorted (map fst (sortedKeys fs))"
  by (simp add: sortedKeys_def)

lemma sortedKeys_sorted: "sorted (map fst fs) \<Longrightarrow> sortedKeys fs = fs"
  by (simp add: sortedKeys_def sort_key_id_if_sorted)

lemma map_of_sortedKeys: "distinct (map fst fs) \<Longrightarrow> map_of (sortedKeys fs) = map_of fs"
proof -
  assume d: "distinct (map fst fs)"
  then have "distinct (map fst (sortedKeys fs))"
    by (metis card_distinct distinct_card length_map set_map set_sortedKeys length_sortedKeys)
  with d show ?thesis by (metis map_of_inject_set set_sortedKeys)
qed

section \<open>Tags round trip\<close>

lemma tag_pack_six:
  "tag_pack i (c # cs) packed =
     (if i < 4 then tag_pack (Suc i) cs (packed OR push_bit (26 - 6 * i) (ucast (six c))) else packed)"
  by (simp add: Let_def six_def tag_upper_def)

lemma six_bits: "bit (six c) n \<Longrightarrow> n < 6"
  by (simp add: six_def bit_simps chunk_bits)

lemma tag_char_six:
  assumes "tag_char c"
  shows "six c \<noteq> 0" and "char_of_byte (six c + 32) = tag_upper c"
proof -
  define b where "b = byte_of (tag_upper c)"
  have az: "byte_of CHR ''a'' = 97" "byte_of CHR ''z'' = 122" by (simp_all add: byte_of_def)
  have r: "33 \<le> unat b" "unat b \<le> 95"
    using assms
    by (auto simp: b_def tag_char_def tag_upper_def az word_le_nat_alt unat_sub_if')
  have "unat (six c) = unat (b - 0x20) mod 64"
  proof -
    have "six c = take_bit 6 (b - 0x20)" by (simp add: six_def b_def take_bit_eq_mask mask_eq_exp_minus_1)
    then show ?thesis by (simp add: unat_take_bit del: take_bit_eq_mod)
  qed
  also have "\<dots> = unat b - 32"
    using r by (simp add: unat_sub_if' word_le_nat_alt)
  finally have six: "unat (six c) = unat b - 32" .
  with r show "six c \<noteq> 0" by auto
  have "unat (six c + 32) = unat b"
    using six r by (simp add: unat_word_ariths)
  then have "six c + 32 = b" by (simp only: word_unat_eq_iff)
  then show "char_of_byte (six c + 32) = tag_upper c" by (simp add: b_def)
qed

text \<open>Six-bit groups pushed onto a word one after the other come off in reverse order.\<close>

definition tag_push :: "u32 \<Rightarrow> u8 \<Rightarrow> u32" where
  "tag_push y x = push_bit 6 y OR ucast x"

lemma tag_push_pop:
  assumes x: "\<And>n. bit x n \<Longrightarrow> n < 6" and y: "\<And>n. bit y n \<Longrightarrow> n < 26"
  shows "tag_push y x AND 0x3f = ucast x" and "drop_bit 6 (tag_push y x) = y"
    and "\<And>n. bit (tag_push y x) n \<Longrightarrow> n < 32"
proof -
  show "tag_push y x AND 0x3f = ucast x"
    using x by (intro bit_word_eqI) (auto simp: tag_push_def bit_simps chunk_bits)
  show "drop_bit 6 (tag_push y x) = y"
    using x y by (intro bit_word_eqI) (force simp: tag_push_def bit_simps)
  show "bit (tag_push y x) n \<Longrightarrow> n < 32" for n by (simp add: bit_simps tag_push_def) fastforce
qed

lemma tag_push_bits:
  "(\<And>n. bit x n \<Longrightarrow> n < 6) \<Longrightarrow> (\<And>n. bit y n \<Longrightarrow> n < m) \<Longrightarrow> bit (tag_push y x) n \<Longrightarrow> n < m + 6"
  by (auto simp: tag_push_def bit_simps) fastforce+

lemma untag_step:
  assumes "\<And>n. bit x n \<Longrightarrow> n < 6" and "\<And>n. bit y n \<Longrightarrow> n < 26"
  shows "untag_loop (Suc i) (tag_push y x) buf sz =
    (if x \<noteq> 0 then untag_loop i y (char_of_byte (x + 32) # buf) sz
     else untag_loop i y (char_of_byte 0 # buf) i)"
proof -
  have "(ucast x :: u32) = 0 \<longleftrightarrow> x = 0"
    by (simp add: word_unat_eq_iff unat_ucast_up)
  moreover have "(ucast (ucast x + 32 :: u32) :: u8) = x + 32"
    by (simp add: word_unat_eq_iff unsigned_ucast_eq [of "_ :: u32"] unat_word_ariths
        unat_ucast_up take_bit_eq_mod mod_mod_cancel)
  moreover have "tag_push y x AND 0x3f = ucast x" by (rule tag_push_pop(1)) (fact assms)+
  moreover have "drop_bit 6 (tag_push y x) = y" by (rule tag_push_pop(2)) (fact assms)+
  ultimately show ?thesis by (cases "x = 0") (simp_all add: Let_def)
qed

lemma encodeTag_bytes:
  fixes p :: u32
  shows "push_bit 16 (ucast (ucast (drop_bit 24 p) :: u8)) OR push_bit 8 (ucast (ucast (drop_bit 16 p) :: u8))
     OR ucast (ucast (drop_bit 8 p) :: u8) = drop_bit 8 p" (is "?l = ?r")
proof (rule bit_word_eqI)
  fix n assume "n < LENGTH(32)"
  then consider "n < 8" | "8 \<le> n" "n < 16" | "16 \<le> n" "n < 24" | "24 \<le> n" "n < 32"
    by fastforce
  then show "bit ?l n = bit ?r n"
    by cases (auto simp: bit_simps dest: bit_imp_le_length)
qed

lemma drop_pack:
  fixes a b c d :: u8
  assumes a: "\<And>n. 6 \<le> n \<Longrightarrow> \<not> bit a n" and b: "\<And>n. 6 \<le> n \<Longrightarrow> \<not> bit b n"
    and c: "\<And>n. 6 \<le> n \<Longrightarrow> \<not> bit c n" and d: "\<And>n. 6 \<le> n \<Longrightarrow> \<not> bit d n"
  shows "drop_bit 8 (push_bit 26 (ucast a) OR push_bit 20 (ucast b) OR push_bit 14 (ucast c) OR
      push_bit 8 (ucast d)) = tag_push (tag_push (tag_push (tag_push 0 a) b) c) d" (is "?l = ?r")
proof (rule bit_word_eqI)
  fix n assume "n < LENGTH(32)"
  then consider "n < 6" | "6 \<le> n" "n < 12" | "12 \<le> n" "n < 18" | "18 \<le> n" "n < 24" | "24 \<le> n" "n < 32"
    by fastforce
  then show "bit ?l n = bit ?r n"
    by cases (simp_all add: tag_push_def bit_simps a b c d)
qed

lemma tag_pack_stop: "4 \<le> i \<Longrightarrow> tag_pack i cs p = p"
  by (cases cs) simp_all

lemma tag_pack_four:
  "tag_pack 0 t 0 =
     (let x = (\<lambda>i. if i < length t then six (t ! i) else 0) in
      push_bit 26 (ucast (x 0)) OR push_bit 20 (ucast (x 1)) OR push_bit 14 (ucast (x 2)) OR
      push_bit 8 (ucast (x 3)))"
proof -
  consider "t = []" | a where "t = [a]" | a b where "t = [a, b]" | a b c where "t = [a, b, c]"
    | a b c d r where "t = a # b # c # d # r"
    by (metis list.exhaust)
  then show ?thesis
    by cases (simp_all add: tag_pack_six tag_pack_stop Let_def or.assoc del: tag_pack.simps(2))
qed

lemma untag_four:
  fixes a b c d :: u8
  assumes "\<And>n. bit a n \<Longrightarrow> n < 6" "\<And>n. bit b n \<Longrightarrow> n < 6" "\<And>n. bit c n \<Longrightarrow> n < 6"
    "\<And>n. bit d n \<Longrightarrow> n < 6"
  shows "(let (buf, sz) = untag_loop 4 (tag_push (tag_push (tag_push (tag_push 0 a) b) c) d) [] 4
          in take sz buf) = map (\<lambda>x. char_of_byte (x + 32)) (takeWhile (\<lambda>x. x \<noteq> 0) [a, b, c, d])"
proof -
  have 1: "bit (tag_push 0 a) n \<Longrightarrow> n < 6" for n
    using tag_push_bits [of a 0 0 n, OF assms(1)] by simp
  have 2: "bit (tag_push (tag_push 0 a) b) n \<Longrightarrow> n < 12" for n
    using tag_push_bits [of b _ 6 n, OF assms(2) 1] by simp
  have 3: "bit (tag_push (tag_push (tag_push 0 a) b) c) n \<Longrightarrow> n < 18" for n
    using tag_push_bits [of c _ 12 n, OF assms(3) 2] by simp
  have [simp]: "untag_loop 4 = untag_loop (Suc (Suc (Suc (Suc 0))))" by (simp add: eval_nat_numeral)
  have le: "bit (tag_push 0 a) n \<Longrightarrow> n < 26" "bit (tag_push (tag_push 0 a) b) n \<Longrightarrow> n < 26"
    "bit (tag_push (tag_push (tag_push 0 a) b) c) n \<Longrightarrow> n < 26" for n
    using 1 2 3 by fastforce+
  have step: "untag_loop (Suc i) (tag_push 0 a) buf sz =
    (if a \<noteq> 0 then untag_loop i 0 (char_of_byte (a + 32) # buf) sz
     else untag_loop i 0 (char_of_byte 0 # buf) i)" for i buf sz
    by (rule untag_step) (use assms(1) in auto)
  moreover have "untag_loop (Suc i) (tag_push 0 0) buf sz = untag_loop i 0 (char_of_byte 0 # buf) i" for i buf sz
    by (simp add: tag_push_def)
  ultimately show ?thesis
    by (simp add: untag_step [OF assms(2) le(1)] untag_step [OF assms(3) le(2)]
        untag_step [OF assms(4) le(3)] del: untag_loop.simps(2))
qed

text \<open>
  A tag of printable characters comes back in upper case, cut to its first four characters.
\<close>

lemma DecodeTag_encodeTag [codec]:
  assumes "list_all tag_char t"
  shows "DecodeTag (encodeTag t @ r) = map tag_upper (take 4 t)"
proof -
  define x where "x = (\<lambda>i. if i < length t then six (t ! i) else 0)"
  have x: "bit (x i) n \<Longrightarrow> n < 6" for i n
    by (auto simp: x_def dest: six_bits split: if_splits)
  have x': "6 \<le> n \<Longrightarrow> \<not> bit (x i) n" for i n using x [of i n] by auto
  have "drop_bit 8 (tag_pack 0 t 0) = tag_push (tag_push (tag_push (tag_push 0 (x 0)) (x 1)) (x 2)) (x 3)"
    unfolding tag_pack_four Let_def x_def [symmetric] by (rule drop_pack) (erule x')+
  moreover have "DecodeTag (encodeTag t @ r) =
      (let (buf, sz) = untag_loop 4 (drop_bit 8 (tag_pack 0 t 0)) [] 4 in take sz buf)"
    by (simp add: DecodeTag_def encodeTag_def Let_def encodeTag_bytes)
  ultimately have "DecodeTag (encodeTag t @ r) =
      map (\<lambda>x. char_of_byte (x + 32)) (takeWhile (\<lambda>x. x \<noteq> 0) [x 0, x 1, x 2, x 3])"
    using untag_four [of "x 0" "x 1" "x 2" "x 3", OF x x x x] by simp
  also have "\<dots> = map tag_upper (take 4 t)"
  proof -
    consider "t = []" | a where "t = [a]" | a b where "t = [a, b]" | a b c where "t = [a, b, c]"
      | a b c d r where "t = a # b # c # d # r"
      by (metis list.exhaust)
    then show ?thesis
      using assms by cases (simp_all add: x_def tag_char_six)
  qed
  finally show ?thesis .
qed

lemma length_encodeTag [simp]: "length (encodeTag t) = 3"
  by (simp add: encodeTag_def Let_def)

text \<open>
  Tags round-trip through their three bytes: a tag of printable characters comes back
  in upper case, cut to its first four characters, whatever bytes follow.
\<close>

theorem tag_roundtrip:
  assumes "list_all tag_char t"
  shows "length (encodeTag t) = 3 \<and> DecodeTag (encodeTag t @ r) = map tag_upper (take 4 t)"
  using DecodeTag_encodeTag [OF assms] by simp

theorem tag_roundtrip_witness:
  "length (encodeTag ''PNAME'') = 3 \<and> DecodeTag (encodeTag ''PNAME'' @ [7]) = ''PNAM''"
proof -
  have "list_all tag_char ''PNAME''" by (simp add: tag_char_def byte_of_def)
  from tag_roundtrip [OF this, of "[7]"] show ?thesis by (simp add: tag_upper_def byte_of_def)
qed

end
