(* ===== verification/Tdf_Decode.thy ===== *)
theory Tdf_Decode
  imports Tdf
begin

text \<open>
  The TDF decoder of Fire2Decoder.go: \<open>PopBuffer\<close>, \<open>readValue\<close>, \<open>readStruct\<close> and
  \<open>readElement\<close>.  A result pairs the value with the number of bytes consumed, \<open>-1\<close> for a
  malformed input, exactly as the code does; \<open>Inl\<close> is a run-time panic.

  The loops of the code walk an offset over one buffer.  Here each loop takes the rest of
  the buffer from that offset on, which is what the code slices off before every nested read.
\<close>

definition PopBuffer :: "bytes \<Rightarrow> nat \<Rightarrow> (bytes \<times> bytes) go" where
  "PopBuffer buffer n =
     (if length buffer < n then Inl PopBufferShort else Inr (take n buffer, drop n buffer))"

text \<open>
  \<open>readFields out read b\<close> is the loop of \<open>readStruct\<close> with \<open>read\<close> bytes consumed and \<open>b\<close> left;
  \<open>readList e n b\<close> and \<open>readMap k v n m b\<close> are the loops of the LIST and MAP cases with \<open>n\<close>
  elements to go.
\<close>

function (sequential)
  readValue :: "u8 \<Rightarrow> bytes \<Rightarrow> (tdf \<times> int) go"
  and readVariable :: "bytes \<Rightarrow> (tdf \<times> int) go"
  and readFields :: "fields \<Rightarrow> nat \<Rightarrow> bytes \<Rightarrow> (fields \<times> int) go"
  and readElement :: "bytes \<Rightarrow> (string \<times> tdf \<times> int) go"
  and readList :: "u8 \<Rightarrow> nat \<Rightarrow> bytes \<Rightarrow> (tdf list \<times> int) go"
  and readMap :: "u8 \<Rightarrow> u8 \<Rightarrow> nat \<Rightarrow> tmap \<Rightarrow> bytes \<Rightarrow> (tmap \<times> int) go"
where
  "readValue typ buf =
     (case GetTypeByID (uint typ) of
        HEAT_TYPE_INTEGER \<Rightarrow>
          (let (value, numRead) = DecodeVarsizeInteger buf in Inr (TInt value, int numRead))
      | HEAT_TYPE_STRING \<Rightarrow>
          (let (len, bytesRead) = DecodeVarsizeInteger buf in
           if sint len < 1 \<or> sint (of_nat bytesRead + len) > int (length buf) then Inr (TNil, - 1)
           else go_bind (go_slice (int bytesRead) (sint (of_nat bytesRead + len - 1)) buf)
             (\<lambda>s. Inr (TStr (bytes_str s), int bytesRead + sint len)))
      | HEAT_TYPE_TDF \<Rightarrow>
          go_bind (readFields [] 0 buf) (\<lambda>(value, bytesRead). Inr (TStruct value, bytesRead))
      | HEAT_TYPE_LIST \<Rightarrow>
          (if buf = [] then Inr (TNil, - 1)
           else let elemType = hd buf;
                    (count, bytesRead) = DecodeVarsizeInteger (tl buf)
                in if \<not> make_slice_ok 16 count then Inl MakeSliceRange
                   else go_bind (readList elemType (nat (sint count)) (drop (1 + bytesRead) buf))
                     (\<lambda>(list, n). Inr (if n < 0 then (TNil, - 1)
                                       else (TList list, 1 + int bytesRead + n))))
      | HEAT_TYPE_MAP \<Rightarrow>
          (if length buf < 2 then Inr (TNil, - 1)
           else let keyType = buf ! 0; valType = buf ! 1;
                    (count, bytesRead) = DecodeVarsizeInteger (drop 2 buf)
                in go_bind (readMap keyType valType (nat (sint count)) [] (drop (2 + bytesRead) buf))
                     (\<lambda>(outMap, n). Inr (if n < 0 then (TNil, - 1)
                                         else (TMap outMap, 2 + int bytesRead + n))))
      | HEAT_TYPE_BLOB \<Rightarrow>
          (let (len, bytesRead) = DecodeVarsizeInteger buf in
           if sint (of_nat bytesRead + len) > int (length buf) then Inr (TNil, - 1)
           else if \<not> make_slice_ok 1 len then Inl MakeSliceRange
           else go_bind (go_slice (int bytesRead) (sint (of_nat bytesRead + len)) buf)
             (\<lambda>b. Inr (TBlob b, int bytesRead + sint len)))
      | HEAT_TYPE_FLOAT \<Rightarrow>
          (if length buf < 4 then Inr (TNil, - 1) else Inr (TFloat (get_u32 (take 4 buf)), 4))
      | HEAT_TYPE_TIMEVALUE \<Rightarrow>
          (let (value, bytesRead) = DecodeVarsizeInteger buf in Inr (TInt value, int bytesRead))
      | HEAT_TYPE_OBJECT_TYPE \<Rightarrow>
          (let (component, bytesRead1) = DecodeVarsizeInteger buf;
               (cType, bytesRead2) = DecodeVarsizeInteger (drop bytesRead1 buf)
           in Inr (TObjType (ucast component) (ucast cType), int (bytesRead1 + bytesRead2)))
      | HEAT_TYPE_OBJECT_ID \<Rightarrow>
          (let (component, bytesRead1) = DecodeVarsizeInteger buf;
               (cType, bytesRead2) = DecodeVarsizeInteger (drop bytesRead1 buf);
               (ident, bytesRead3) = DecodeVarsizeInteger (drop (bytesRead1 + bytesRead2) buf)
           in Inr (TObjId (ucast component) (ucast cType) ident,
                   int (bytesRead1 + bytesRead2 + bytesRead3)))
      | HEAT_TYPE_UNION \<Rightarrow>
          (if buf = [] then Inr (TNil, - 1)
           else let active = hd buf in
             if active \<noteq> 0xff \<and> active \<noteq> 0x7f
             then go_bind (readElement (tl buf)) (\<lambda>(tag, value, bytesRead).
                    Inr (if bytesRead < 0 then (TNil, - 1) else (TUnion active tag value, 1 + bytesRead)))
             else Inr (TUnion active '''' TNil, 1))
      | HEAT_TYPE_VARIABLE \<Rightarrow> readVariable buf
      | HEAT_TYPE_GENERIC_TYPE \<Rightarrow> readVariable buf
      | HEAT_TYPE_INVALID \<Rightarrow> Inr (TNil, - 1))"
| "readVariable buf =
     (if buf = [] then Inr (TNil, - 1)
      else if hd buf = 0 then Inr (TVar 0 '''' TNil, 1)
      else let (tdfId, bytesRead) = DecodeVarsizeInteger (tl buf); off = 1 + bytesRead in
        go_bind (readElement (drop off buf)) (\<lambda>(tag, value, bytesRead2).
          Inr (if bytesRead2 < 0 then (TNil, - 1)
               else let off2 = off + nat bytesRead2;
                        off3 = (if off2 < length buf \<and> buf ! off2 = 0x00 then off2 + 1 else off2)
                    in (TVar (ucast tdfId) tag value, int off3))))"
| "readFields out read buf =
     (if buf = [] then Inr (out, int read)
      else if hd buf = 0x00 then Inr (out, int (read + 1))
      else if length buf < 4 then Inr (out, - 1)
      else let tag = DecodeTag (take 3 buf); typ = buf ! 3 in
        go_bind (readValue typ (drop 4 buf)) (\<lambda>(val, bytesRead).
          if bytesRead < 0 then Inr (out, - 1)
          else readFields (AList.update tag val out) (read + 4 + nat bytesRead)
                 (drop (4 + nat bytesRead) buf)))"
| "readElement buf =
     (if length buf < 4 then Inr ('''', TNil, - 1)
      else let tag = DecodeTag (take 3 buf); typ = buf ! 3 in
        go_bind (readValue typ (drop 4 buf)) (\<lambda>(value, bytesRead).
          Inr (if bytesRead < 0 then ('''', TNil, - 1) else (tag, value, 4 + bytesRead))))"
| "readList elemType 0 buf = Inr ([], 0)"
| "readList elemType (Suc n) buf =
     go_bind
       (if elemType = 3 \<and> buf \<noteq> [] \<and> hd buf \<noteq> 0 \<and> hd buf < 0x80
        then go_bind (readFields [] 0 (tl buf)) (\<lambda>(fs, structBytes).
               Inr (if structBytes < 0 then (TNil, - 1) else (TArmed (hd buf) fs, 1 + structBytes)))
        else readValue elemType buf)
       (\<lambda>(value, bytesRead).
          if bytesRead < 0 then Inr ([], - 1)
          else go_bind (readList elemType n (drop (nat bytesRead) buf)) (\<lambda>(list, rest).
                 Inr (if rest < 0 then ([], - 1) else (value # list, bytesRead + rest))))"
| "readMap keyType valType 0 outMap buf = Inr (outMap, 0)"
| "readMap keyType valType (Suc n) outMap buf =
     go_bind (readValue keyType buf) (\<lambda>(value1, bytesRead2).
       if bytesRead2 < 0 then Inr ([], - 1)
       else go_bind (readValue valType (drop (nat bytesRead2) buf)) (\<lambda>(value2, bytesRead3).
         if bytesRead3 < 0 then Inr ([], - 1)
         else go_bind (tmap_assign value1 value2 outMap) (\<lambda>outMap'.
           go_bind (readMap keyType valType n outMap' (drop (nat bytesRead2 + nat bytesRead3) buf))
             (\<lambda>(m, rest). Inr (if rest < 0 then ([], - 1) else (m, bytesRead2 + bytesRead3 + rest))))))"
  by pat_completeness auto

termination
proof (relation "inv_image (less_than <*lex*> less_than <*lex*> less_than)
    (\<lambda>x. case x of
        Inl (Inl (t, b)) \<Rightarrow> (length b, 1, 0)
      | Inl (Inr (Inl b)) \<Rightarrow> (length b, 0, 0)
      | Inl (Inr (Inr (out, r, b))) \<Rightarrow> (length b, 0, 0)
      | Inr (Inl b) \<Rightarrow> (length b, 0, 0)
      | Inr (Inr (Inl (e, n, b))) \<Rightarrow> (length b, 2, n)
      | Inr (Inr (Inr (k, v, n, m, b))) \<Rightarrow> (length b, 2, n))", goal_cases)
  case 1
  show ?case by (intro wf_inv_image wf_lex_prod wf_less_than)
qed (auto simp: )

definition readStruct :: "bytes \<Rightarrow> (fields \<times> int) go" where
  "readStruct buf = readFields [] 0 buf"

text \<open>
  \<open>DecodeTDF\<close> of Fire2.go.  The fields are those read so far when the count is \<open>-1\<close>.
\<close>

definition DecodeTDF :: "bytes \<Rightarrow> (fields \<times> int) go" where
  "DecodeTDF buffer = readStruct buffer"

lemmas read_simps = readValue.simps readVariable.simps readFields.simps readElement.simps
  readList.simps readMap.simps

declare readValue.simps [simp del] readVariable.simps [simp del] readFields.simps [simp del]
  readElement.simps [simp del] readList.simps [simp del] readMap.simps [simp del]

section \<open>No read past the buffer\<close>

lemma slice_end:
  fixes w :: i64
  assumes "0 \<le> sint w" and "int b \<le> sint (of_nat b + w)"
  shows "sint (of_nat b + w) = int b + sint w"
proof -
  define i where "i = int b + sint w"
  have "of_nat b + w = word_of_int i" by (simp add: i_def)
  then have "sint (of_nat b + w) = (i + 2 ^ 63) mod 2 ^ 64 - 2 ^ 63"
    by (simp add: signed_of_int signed_take_bit_eq_take_bit_shift take_bit_eq_mod)
  then have k: "i - sint (of_nat b + w) = (i + 2 ^ 63) div 2 ^ 64 * 2 ^ 64"
    by (simp add: minus_mod_eq_div_mult [symmetric])
  have "sint (of_nat b + w) < 2 ^ 63" "sint w < 2 ^ 63"
    using sint_lt [of "of_nat b + w"] sint_lt [of w] by simp_all
  with assms have "i - sint (of_nat b + w) < 2 ^ 63" and "- (2 ^ 63) < i - sint (of_nat b + w)"
    unfolding i_def by linarith+
  with k show ?thesis unfolding i_def by simp
qed

definition small :: "bytes \<Rightarrow> bool" where
  "small b \<longleftrightarrow> length b < 2 ^ 62"

lemma small_drop [simp]: "small b \<Longrightarrow> small (drop k b)" "small b \<Longrightarrow> small (tl b)"
  by (auto simp: small_def)

definition fits :: "nat \<Rightarrow> int \<Rightarrow> bool" where
  "fits len n \<longleftrightarrow> - 1 \<le> n \<and> n \<le> int len"

lemma Decode_le: "DecodeVarsizeInteger b = (v, n) \<Longrightarrow> n \<le> length b"
  using DecodeVarsizeInteger_snd_le [of b] by simp

lemma Decode_drop_le:
  "DecodeVarsizeInteger (drop k b) = (v, n) \<Longrightarrow> k \<le> length b \<Longrightarrow> k + n \<le> length b"
  using DecodeVarsizeInteger_snd_le [of "drop k b"] by simp

lemma sint_plus_exact:
  fixes a b :: i64
  assumes "- (2 ^ 63) \<le> sint a + sint b" and "sint a + sint b < 2 ^ 63"
  shows "sint (a + b) = sint a + sint b"
proof -
  have "a + b = word_of_int (sint a + sint b)" by simp
  then have "sint (a + b) = signed_take_bit 63 (sint a + sint b)"
    by (simp only: signed_of_int) simp
  then show ?thesis using assms by (simp add: signed_take_bit_int_eq_self)
qed

lemma slice_str:
  fixes x :: i64
  assumes "go_slice (int b) (sint (of_nat b + x - 1)) buf = Inr s"
    and "\<not> sint x < 1" and "\<not> int (length buf) < sint (of_nat b + x)" and "small buf"
  shows "int b + sint x \<le> int (length buf)"
proof -
  have "sint (x + (- 1)) = sint x - 1"
    using assms(2) sint_lt [of x] by (subst sint_plus_exact) simp_all
  then have x1: "sint (x - 1) = sint x - 1" by simp
  have hi: "int b \<le> sint (of_nat b + (x - 1))" "sint (of_nat b + (x - 1)) \<le> int (length buf)"
    using assms(1) by (auto simp: go_slice_def add_diff_eq split: if_splits)
  have e: "sint (of_nat b + (x - 1)) = int b + sint x - 1"
    using slice_end [of "x - 1" b] assms(2) hi(1) x1 by simp
  have "sint (of_nat b + (x - 1) + 1) = sint (of_nat b + (x - 1)) + 1"
    using e hi assms(4) by (subst sint_plus_exact) (simp_all add: small_def)
  then have "sint (of_nat b + x) = int b + sint x" using e by simp
  with assms(3) show ?thesis by simp
qed

lemma slice_blob:
  fixes x :: i64
  assumes "go_slice (int b) (sint (of_nat b + x)) buf = Inr s" and "0 \<le> sint x"
  shows "int b + sint x \<le> int (length buf)"
  using assms slice_end [of x b] by (auto simp: go_slice_def split: if_splits)

lemma make_slice_pos: "make_slice_ok k x \<Longrightarrow> 0 \<le> sint x"
  by (simp add: make_slice_ok_def)

lemma nonempty_le: "buf \<noteq> [] \<Longrightarrow> 1 \<le> int (length buf)"
  by (cases buf) auto

lemma read_fits:
  "small b1 \<Longrightarrow> readValue ty b1 = Inr (v1, n1) \<Longrightarrow> fits (length b1) n1"
  "small b2 \<Longrightarrow> readVariable b2 = Inr (v2, n2) \<Longrightarrow> fits (length b2) n2"
  "small b3 \<Longrightarrow> readFields out r b3 = Inr (v3, n3) \<Longrightarrow> n3 = - 1 \<or> (int r \<le> n3 \<and> fits (length b3) (n3 - int r))"
  "small b4 \<Longrightarrow> readElement b4 = Inr (t4, v4, n4) \<Longrightarrow> fits (length b4) n4"
  "small b5 \<Longrightarrow> readList et cnt b5 = Inr (v5, n5) \<Longrightarrow> fits (length b5) n5"
  "small b6 \<Longrightarrow> readMap kt vt cnt m b6 = Inr (v6, n6) \<Longrightarrow> fits (length b6) n6"
proof (induction ty b1 and b2 and out r b3 and b4 and et cnt b5 and kt vt cnt m b6
    arbitrary: v1 n1 and v2 n2 and v3 n3 and t4 v4 n4 and v5 n5 and v6 n6
    rule: readValue_readVariable_readFields_readElement_readList_readMap.induct)
  case (1 ty buf)
  then show ?case
    by (cases "GetTypeByID (uint ty)") 
       (auto simp: readValue.simps go_bind_Inr_iff Let_def fits_def split: prod.splits if_splits dest!: Decode_le slice_str slice_blob make_slice_pos nonempty_le, force+)
next
  case (2 buf)
  then show ?case 
    by (auto simp: readVariable.simps go_bind_Inr_iff Let_def fits_def split: prod.splits if_splits dest!: Decode_le nonempty_le, force+)
next
  case (3 out r buf)
  then show ?case 
    by (auto simp: readFields.simps [of out] go_bind_Inr_iff Let_def fits_def split: prod.splits if_splits dest!: Decode_le nonempty_le, force+)
next
  case (4 buf)
  then show ?case 
    by (auto simp: readElement.simps go_bind_Inr_iff Let_def fits_def split: prod.splits if_splits dest!: Decode_le nonempty_le, force+)
next
  case (5 et buf)
  then show ?case by (simp add: readList.simps fits_def)
next
  case (6 et n buf)
  then show ?case 
    by (auto simp: readList.simps go_bind_Inr_iff Let_def fits_def split: prod.splits if_splits dest!: Decode_le nonempty_le, force+)
next
  case (7 kt vt m buf)
  then show ?case by (simp add: readMap.simps fits_def)
next
  case (8 kt vt n m buf)
  then show ?case 
    by (auto simp: readMap.simps go_bind_Inr_iff Let_def fits_def split: prod.splits if_splits dest!: Decode_le nonempty_le, force+)
qed
section \<open>How decoding fails\<close>

definition decode_panic :: "go_panic \<Rightarrow> bool" where
  "decode_panic p \<longleftrightarrow> p = MakeSliceRange \<or> p = SliceBounds \<or> p = Unhashable"

lemma go_bind_Inl_iff: "go_bind m f = Inl p \<longleftrightarrow> m = Inl p \<or> (\<exists>x. m = Inr x \<and> f x = Inl p)"
  by (cases m) auto

lemma go_slice_panic: "go_slice lo hi b = Inl p \<Longrightarrow> decode_panic p"
  by (auto simp: go_slice_def decode_panic_def split: if_splits)

lemma tmap_assign_panic: "tmap_assign k v m = Inl p \<Longrightarrow> decode_panic p"
  by (auto simp: tmap_assign_def decode_panic_def split: if_splits)

lemma make_slice_panic [simp]: "decode_panic MakeSliceRange"
  by (simp add: decode_panic_def)

lemma read_panics:
  "readValue ty b1 = Inl p \<Longrightarrow> decode_panic p"
  "readVariable b2 = Inl p \<Longrightarrow> decode_panic p"
  "readFields out r b3 = Inl p \<Longrightarrow> decode_panic p"
  "readElement b4 = Inl p \<Longrightarrow> decode_panic p"
  "readList et cnt b5 = Inl p \<Longrightarrow> decode_panic p"
  "readMap kt vt cnt m b6 = Inl p \<Longrightarrow> decode_panic p"
proof (induction ty b1 and b2 and out r b3 and b4 and et cnt b5 and kt vt cnt m b6
    rule: readValue_readVariable_readFields_readElement_readList_readMap.induct)
  case (1 ty buf)
  then show ?case
    by (cases "GetTypeByID (uint ty)") 
       (auto simp: readValue.simps go_bind_Inl_iff Let_def split: prod.splits if_splits dest: go_slice_panic)
next
  case (2 buf)
  then show ?case 
    by (auto simp: readVariable.simps go_bind_Inl_iff Let_def split: prod.splits if_splits)
next
  case (3 out r buf)
  then show ?case 
    by (auto simp: readFields.simps [of out] go_bind_Inl_iff Let_def split: prod.splits if_splits)
next
  case (4 buf)
  then show ?case 
    by (auto simp: readElement.simps go_bind_Inl_iff Let_def split: prod.splits if_splits)
next
  case (5 et buf)
  then show ?case by (simp add: readList.simps)
next
  case (6 et n buf)
  then show ?case 
    by (auto simp: readList.simps go_bind_Inl_iff Let_def split: prod.splits if_splits)
next
  case (7 kt vt m buf)
  then show ?case by (simp add: readMap.simps)
next
  case (8 kt vt n m buf)
  then show ?case 
    by (auto simp: readMap.simps go_bind_Inl_iff Let_def split: prod.splits if_splits dest: tmap_assign_panic)
qed

lemma readList_zeros: "readList 0 n [] = Inr (replicate n (TInt 0), 0)"
  by (induction n) (simp_all add: readList.simps readValue.simps GetTypeByID_def DecodeVarsizeInteger_def)

lemma hd_field:
  assumes "hd (encodeTag t) \<noteq> 0"
  shows "readFields out k (encodeTag t @ ty # b) = go_bind (readValue ty b) (\<lambda>(val, bytesRead).
      if bytesRead < 0 then Inr (out, - 1)
      else readFields (AList.update (DecodeTag (encodeTag t)) val out) (k + 4 + nat bytesRead) (drop (nat bytesRead) b))"
proof -
  obtain x y z where e: "encodeTag t = [x, y, z]" by (simp add: encodeTag_def Let_def)
  have "drop (4 + n) (x # y # z # ty # b) = drop n b" for n by (simp add: eval_nat_numeral)
  with assms show ?thesis
    unfolding e by (subst readFields.simps) (simp add: Let_def numeral_3_eq_3 cong: if_cong)
qed

text \<open>
  Claim C11. Decoding stays inside the buffer it is given: the number of bytes it reports is
  \<open>-1\<close> or at most the length of the buffer, and it fails with a panic only by an allocation
  or a slice whose length the sender chose, or by an unhashable map key.
\<close>

theorem DecodeTDF_safe:
  assumes "length b < 2 ^ 62"
  shows "(\<exists>fs n. DecodeTDF b = Inr (fs, n) \<and> (n = - 1 \<or> 0 \<le> n \<and> n \<le> int (length b))) \<or>
    DecodeTDF b \<in> {Inl MakeSliceRange, Inl SliceBounds, Inl Unhashable}"
proof (cases "DecodeTDF b")
  case (Inl p)
  then have "readFields [] 0 b = Inl p" by (simp add: DecodeTDF_def readStruct_def)
  then have "decode_panic p" by (rule read_panics)
  with Inl show ?thesis by (auto simp: decode_panic_def)
next
  case (Inr r)
  then have "readFields [] 0 b = Inr (fst r, snd r)" by (simp add: DecodeTDF_def readStruct_def)
  from read_fits(3) [OF _ this] assms Inr show ?thesis
    by (cases r) (auto simp: small_def fits_def)
qed

theorem DecodeTDF_safe_witness:
  "(\<exists>fs n. DecodeTDF [0xb2, 0x9c, 0xf4, 4, 0, 0x41] = Inr (fs, n) \<and> (n = - 1 \<or> 0 \<le> n \<and> n \<le> int 6)) \<or>
    DecodeTDF [0xb2, 0x9c, 0xf4, 4, 0, 0x41] \<in> {Inl MakeSliceRange, Inl SliceBounds, Inl Unhashable}"
  using DecodeTDF_safe [of "[0xb2, 0x9c, 0xf4, 4, 0, 0x41]"] by simp

lemma bad_list_count:
  "sint c < 0 \<or> 2 ^ 44 < sint c \<Longrightarrow>
   readValue 4 (e # EncodeVarsizeInteger c @ r) = Inl MakeSliceRange"
  by (auto simp: readValue.simps GetTypeByID_def make_slice_ok_def Let_def)

lemma bad_blob_length:
  assumes "sint c < 0"
  shows "readValue 2 (EncodeVarsizeInteger c @ r) = Inl MakeSliceRange"
proof -
  define n where "n = EncodeVarsizeInteger c"
  have n: "length n \<le> 10" unfolding n_def by (rule EncodeVarsizeInteger_length)
  have d: "DecodeVarsizeInteger (n @ r) = (c, length n)" unfolding n_def by (rule Decode_Encode)
  have "sint (of_nat (length n) :: i64) = int (length n)"
    using n by (simp add: signed_of_nat signed_take_bit_int_eq_self)
  then have "sint (of_nat (length n) + c) = int (length n) + sint c"
    using n assms sint_ge [of c] by (subst sint_plus_exact) auto
  with assms d show ?thesis
    by (simp add: readValue.simps GetTypeByID_def make_slice_ok_def n_def [symmetric])
qed

lemma blob_key: "readValue 5 (2 # 0 # 1 # 1 # x # r) = Inl Unhashable"
proof -
  have 1: "DecodeVarsizeInteger (1 # q) = (1, 1)" for q
    using Decode_Encode [of 1 q] by (simp add: EncodeVarsizeInteger_def Let_def)
  have "readValue 2 (1 # x # r) = Inr (TBlob [x], 2)"
    by (simp add: readValue.simps GetTypeByID_def 1 make_slice_ok_def go_slice_def)
  moreover obtain v n where "DecodeVarsizeInteger r = (v, n)" by fastforce
  then have "readValue 0 r = Inr (TInt v, int n)" by (simp add: readValue.simps GetTypeByID_def)
  ultimately have "readMap 2 0 1 [] (1 # x # r) = Inl Unhashable"
    by (simp add: readMap.simps tmap_assign_def numeral_2_eq_2)
  then show ?thesis by (simp add: readValue.simps [of 5] GetTypeByID_def 1)
qed

text \<open>
  Claim C32. A remote peer can end the process with one well-framed field: a list whose count
  is negative or above 2 to the 44, a blob of negative length, or a map whose keys are blobs.
\<close>

theorem DecodeTDF_remote_panics:
  assumes "hd (encodeTag t) \<noteq> 0"
  shows "(\<forall>c e r. sint c < 0 \<or> 2 ^ 44 < sint c \<longrightarrow>
        DecodeTDF (encodeTag t @ 4 # e # EncodeVarsizeInteger c @ r) = Inl MakeSliceRange) \<and>
    (\<forall>c r. sint c < 0 \<longrightarrow>
        DecodeTDF (encodeTag t @ 2 # EncodeVarsizeInteger c @ r) = Inl MakeSliceRange) \<and>
    (\<forall>x r. DecodeTDF (encodeTag t @ 5 # 2 # 0 # 1 # 1 # x # r) = Inl Unhashable)"
  by (auto simp: DecodeTDF_def readStruct_def hd_field [OF assms] bad_list_count bad_blob_length blob_key)

theorem DecodeTDF_remote_panics_witness:
  "DecodeTDF (encodeTag ''LIST'' @ 4 # 0 # EncodeVarsizeInteger (- 1) @ []) = Inl MakeSliceRange"
proof -
  have "hd (encodeTag ''LIST'') \<noteq> 0" by (simp add: encodeTag_def byte_of_def Let_def)
  from DecodeTDF_remote_panics [OF this]
  have "sint (- 1 :: i64) < 0 \<or> 2 ^ 44 < sint (- 1 :: i64) \<longrightarrow>
      DecodeTDF (encodeTag ''LIST'' @ 4 # 0 # EncodeVarsizeInteger (- 1) @ []) = Inl MakeSliceRange"
    by (elim conjE allE)
  then show ?thesis by simp
qed

text \<open>
  Elements missing from the input are not an error: a list of integers whose
  header promises more elements than the buffer holds is padded with zeros.
\<close>

theorem missing_elements_are_zero:
  assumes "n \<le> 2 ^ 44"
  shows "readValue 4 (0 # EncodeVarsizeInteger (of_nat n)) =
    Inr (TList (replicate n (TInt 0)), 1 + int (length (EncodeVarsizeInteger (of_nat n))))"
proof -
  have s: "sint (of_nat n :: i64) = int n"
    using assms by (simp add: signed_of_nat signed_take_bit_int_eq_self)
  have "make_slice_ok 16 (of_nat n)" using assms by (simp add: make_slice_ok_def s)
  moreover have "DecodeVarsizeInteger (EncodeVarsizeInteger (of_nat n)) =
      (of_nat n, length (EncodeVarsizeInteger (of_nat n)))"
    using Decode_Encode [of "of_nat n" "[]"] by simp
  ultimately show ?thesis by (simp add: readValue.simps GetTypeByID_def Let_def s readList_zeros)
qed

theorem missing_elements_are_zero_witness:
  "readValue 4 (0 # EncodeVarsizeInteger 1000) =
    Inr (TList (replicate 1000 (TInt 0)), 1 + int (length (EncodeVarsizeInteger 1000)))"
  using missing_elements_are_zero [of 1000] by simp

end
