(* ===== verification/Go_Maps.thy ===== *)
theory Go_Maps
  imports Tdf
begin

text \<open>
  When two values of the model are the same Go value: they list the entries of their maps, at any depth, in
  different orders.  The relation takes a condition on the maps that are reordered, since the code can
  tell some orders apart (keys with the same text, maps of values of different types).
\<close>

section \<open>Sorting\<close>

lemma list_all2_insort:
  "list_all2 R xs ys \<Longrightarrow> R x y \<Longrightarrow> (\<And>a b. R a b \<Longrightarrow> f a = g b) \<Longrightarrow>
   list_all2 R (insort_key f x xs) (insort_key g y ys)"
  by (induction xs ys rule: list_all2_induct) auto

lemma list_all2_sort:
  "list_all2 R xs ys \<Longrightarrow> (\<And>a b. R a b \<Longrightarrow> f a = g b) \<Longrightarrow> list_all2 R (sort_key f xs) (sort_key g ys)"
  by (induction xs ys rule: list_all2_induct) (auto intro: list_all2_insort)

lemma map_list_all2: "list_all2 R xs ys \<Longrightarrow> (\<And>a b. R a b \<Longrightarrow> f a = g b) \<Longrightarrow> map f xs = map g ys"
  by (induction xs ys rule: list_all2_induct) auto

lemma sort_key_mset: "mset xs = mset ys \<Longrightarrow> distinct (map f xs) \<Longrightarrow> sort_key f xs = sort_key f ys"
proof (rule map_sorted_distinct_set_unique [of f])
  assume m: "mset xs = mset ys" and d: "distinct (map f xs)"
  have d': "distinct (map f (sort_key f zs))" if "mset zs = mset xs" for zs
  proof -
    have "mset (map f (sort_key f zs)) = mset (map f xs)" using that by (simp del: mset_map add: mset_map)
    then show ?thesis using d mset_eq_imp_distinct_iff by blast
  qed
  show "inj_on f (set (sort_key f xs) \<union> set (sort_key f ys))"
    using d mset_eq_setD [OF m] by (simp add: distinct_map)
  show "distinct (map f (sort_key f xs))" "distinct (map f (sort_key f ys))" by (auto intro: d' simp: m)
  show "set (sort_key f xs) = set (sort_key f ys)" using mset_eq_setD [OF m] by simp
qed simp_all

section \<open>The same Go value\<close>

abbreviation same_entries :: "('a \<Rightarrow> 'a \<Rightarrow> bool) \<Rightarrow> ('k \<times> 'a) list \<Rightarrow> ('k \<times> 'a) list \<Rightarrow> bool" where
  "same_entries R \<equiv> list_all2 (\<lambda>p q. fst p = fst q \<and> R (snd p) (snd q))"

inductive same_value :: "(tmap \<Rightarrow> bool) \<Rightarrow> tdf \<Rightarrow> tdf \<Rightarrow> bool" for ok where
  same_refl: "same_value ok v v"
| same_trans: "same_value ok u v \<Longrightarrow> same_value ok v w \<Longrightarrow> same_value ok u w"
| reorder_struct: "mset fs = mset gs \<Longrightarrow> distinct (map fst fs) \<Longrightarrow> same_value ok (TStruct fs) (TStruct gs)"
| reorder_armed: "mset fs = mset gs \<Longrightarrow> distinct (map fst fs) \<Longrightarrow> same_value ok (TArmed a fs) (TArmed a gs)"
| reorder_map: "mset m = mset m' \<Longrightarrow> go_map m \<Longrightarrow> ok m \<Longrightarrow> same_value ok (TMap m) (TMap m')"
| in_struct: "same_entries (same_value ok) fs gs \<Longrightarrow> same_value ok (TStruct fs) (TStruct gs)"
| in_armed: "same_entries (same_value ok) fs gs \<Longrightarrow> same_value ok (TArmed a fs) (TArmed a gs)"
| in_map: "same_entries (same_value ok) m m' \<Longrightarrow> same_value ok (TMap m) (TMap m')"
| in_list: "list_all2 (same_value ok) xs ys \<Longrightarrow> same_value ok (TList xs) (TList ys)"
| in_typed: "list_all2 (same_value ok) xs ys \<Longrightarrow> same_value ok (TTyped t xs) (TTyped t ys)"
| in_union: "same_value ok v w \<Longrightarrow> same_value ok (TUnion a f v) (TUnion a f w)"
| in_variable: "same_value ok v w \<Longrightarrow> same_value ok (TVar i f v) (TVar i f w)"

text \<open>The keys of a map have different texts, so that sorting them by their texts leaves nothing open.\<close>

definition distinct_texts :: "tmap \<Rightarrow> bool" where
  "distinct_texts m \<longleftrightarrow> distinct (map (\<lambda>kv. fmt_v (fst kv)) m)"

section \<open>What the iterations of the code see\<close>

lemma reordered_struct: "mset fs = mset gs \<Longrightarrow> distinct (map fst fs) \<Longrightarrow> sortedKeys fs = sortedKeys gs"
  unfolding sortedKeys_def by (rule sort_key_mset)

lemma reordered_keys: "mset m = mset m' \<Longrightarrow> distinct_texts m \<Longrightarrow> sortedMapKeys m = sortedMapKeys m'"
  unfolding sortedMapKeys_def distinct_texts_def
  by (rule sort_key_mset) (simp_all add: comp_def)

lemma reordered_get: "mset m = mset m' \<Longrightarrow> go_map m \<Longrightarrow> map_get m k = map_get m' k"
  by (rule map_get_set) (auto dest: mset_eq_setD go_map_mset)

lemma same_keys: "same_entries R m m' \<Longrightarrow> map fst m = map fst m'"
  by (erule map_list_all2) simp

lemma same_sorted_keys: "same_entries R m m' \<Longrightarrow> sortedMapKeys m = sortedMapKeys m'"
  by (simp add: sortedMapKeys_def same_keys)

lemma same_get: "same_entries R m m' \<Longrightarrow> R (map_get m k) (map_get m' k) \<or> map_get m k = TNil \<and> map_get m' k = TNil"
  by (induction m m' rule: list_all2_induct) (auto simp: case_prod_unfold)

lemma same_sorted_struct: "same_entries R fs gs \<Longrightarrow> same_entries R (sortedKeys fs) (sortedKeys gs)"
  unfolding sortedKeys_def by (rule list_all2_sort) auto

end
