(* ===== verification/Tdf_Encode.thy ===== *)
theory Tdf_Encode
  imports Go_Maps
begin

text \<open>
  The TDF encoder of Fire2Encoder.go: \<open>encodeStruct\<close>, \<open>encodeValue\<close>, \<open>leafType\<close>,
  \<open>isEmptyCollection\<close>, \<open>BuildMetadata\<close> and \<open>EncodeTDF\<close>.  Encoding panics (an index out of range) on an empty
  list or map that is not itself the value of a struct field.
\<close>

fun isEmptyCollection :: "tdf \<Rightarrow> bool" where
  "isEmptyCollection (TList x) = (x = [])"
| "isEmptyCollection (TMap x) = (x = [])"
| "isEmptyCollection _ = False"

text \<open>
  The map case of \<open>leafType\<close> returns from the first iteration of a loop over a Go map, whose
  order is unspecified; the model takes the first entry of the representation, and
  \<open>leafType_any\<close> below says when the choice does not matter.
\<close>

fun leafType :: "tdf \<Rightarrow> u8" where
  "leafType (TList (x # _)) = leafType x"
| "leafType (TList []) = 3"
| "leafType (TMap ((_, v) # _)) = leafType v"
| "leafType (TMap []) = 3"
| "leafType v = typeByte v"

lemma leafType_any:
  assumes "\<And>w. w \<in> snd ` set m \<Longrightarrow> leafType w = leafType v" and "v \<in> snd ` set m"
  shows "leafType (TMap m) = leafType v"
proof (cases m)
  case Nil
  with assms(2) show ?thesis by simp
next
  case (Cons kv m')
  then show ?thesis using assms(1) [of "snd kv"] by (cases kv) simp
qed

text \<open>The depth of a value, for the termination of the encoder.\<close>

definition greatest :: "nat list \<Rightarrow> nat" where
  "greatest xs = foldr max xs 0"

lemma greatest_simps [simp]: "greatest [] = 0" "greatest (x # xs) = max x (greatest xs)"
  by (simp_all add: greatest_def)

lemma greatest_le: "greatest xs \<le> n \<longleftrightarrow> (\<forall>x \<in> set xs. x \<le> n)"
  by (induction xs) auto

lemma greatest_ge: "x \<in> set xs \<Longrightarrow> x \<le> greatest xs"
  using greatest_le by blast

lemma greatest_set: "set xs = set ys \<Longrightarrow> greatest xs = greatest ys"
  by (simp add: order_antisym greatest_le greatest_ge)

fun depth :: "tdf \<Rightarrow> nat" where
  "depth (TStruct fs) = Suc (greatest (map (\<lambda>(_, v). depth v) fs))"
| "depth (TArmed _ fs) = Suc (greatest (map (\<lambda>(_, v). depth v) fs))"
| "depth (TList xs) = Suc (greatest (map depth xs))"
| "depth (TTyped _ xs) = Suc (greatest (map depth xs))"
| "depth (TMap m) =
     Suc (max (greatest (map (\<lambda>(k, _). depth k) m)) (greatest (map (\<lambda>(_, v). depth v) m)))"
| "depth (TUnion _ _ v) = Suc (depth v)"
| "depth (TVar _ _ v) = Suc (depth v)"
| "depth _ = 0"

definition depth_fields :: "fields \<Rightarrow> nat" where
  "depth_fields fs = greatest (map (\<lambda>(_, v). depth v) fs)"

definition depth_elems :: "tdf list \<Rightarrow> nat" where
  "depth_elems xs = greatest (map depth xs)"

definition depth_values :: "tmap \<Rightarrow> nat" where
  "depth_values m = greatest (map (\<lambda>(_, v). depth v) m)"

lemma depth_parts [simp]:
  "depth (TStruct fs) = Suc (depth_fields fs)" "depth (TArmed a fs) = Suc (depth_fields fs)"
  "depth (TList xs) = Suc (depth_elems xs)" "depth (TTyped e xs) = Suc (depth_elems xs)"
  "depth (TMap m) = Suc (max (depth_elems (sortedMapKeys m)) (depth_values m))"
  "depth_fields (sortedKeys fs) = depth_fields fs"
  "depth_fields ((t, v) # fs) = max (depth v) (depth_fields fs)"
  "depth_elems (x # xs) = max (depth x) (depth_elems xs)"
proof -
  show "depth (TMap m) = Suc (max (depth_elems (sortedMapKeys m)) (depth_values m))"
    by (simp add: depth_elems_def depth_values_def)
      (rule arg_cong [where f = "\<lambda>x. max x _"], rule greatest_set, force)
  show "depth_fields (sortedKeys fs) = depth_fields fs"
    unfolding depth_fields_def by (rule greatest_set) simp
qed (simp_all add: depth_fields_def depth_elems_def)

lemma depth_map_get: "depth (map_get m k) \<le> depth_values m"
  by (induction m) (auto simp: depth_values_def)

declare depth.simps(1-5) [simp del]

function (sequential)
  encodeStruct :: "fields \<Rightarrow> bool \<Rightarrow> bytes go"
  and encodeFields :: "fields \<Rightarrow> bytes go"
  and encodeValue :: "tdf \<Rightarrow> (u8 \<times> bytes) go"
  and encodeElems :: "tdf list \<Rightarrow> bytes go"
  and encodeEntries :: "tmap \<Rightarrow> tdf list \<Rightarrow> bytes go"
where
  "encodeStruct fields root =
     go_bind (encodeFields (sortedKeys fields)) (\<lambda>out. Inr (if root then out else out @ [0x00]))"
| "encodeFields [] = Inr []"
| "encodeFields ((tag, v) # rest) =
     (if isEmptyCollection v then encodeFields rest
      else go_bind (encodeValue v) (\<lambda>(typ, body).
             go_bind (encodeFields rest) (\<lambda>out. Inr (encodeTag tag @ typ # body @ out))))"
| "encodeValue (TInt x) = Inr (0, EncodeVarsizeInteger x)"
| "encodeValue (TBool x) = Inr (0, EncodeVarsizeInteger (if x then 1 else 0))"
| "encodeValue (TStr x) =
     Inr (1, EncodeVarsizeInteger (of_nat (length x + 1)) @ str_bytes x @ [0x00])"
| "encodeValue (TBlob x) = Inr (2, EncodeVarsizeInteger (of_nat (length x)) @ x)"
| "encodeValue (TStruct x) = go_bind (encodeStruct x False) (\<lambda>b. Inr (3, b))"
| "encodeValue (TArmed arm x) = go_bind (encodeStruct x False) (\<lambda>b. Inr (3, arm # b))"
| "encodeValue (TList x) =
     (case x of
        [] \<Rightarrow> Inl IndexRange
      | e # _ \<Rightarrow> go_bind (encodeValue e) (\<lambda>(elemType, _).
          go_bind (encodeElems x) (\<lambda>b.
            Inr (4, elemType # EncodeVarsizeInteger (of_nat (length x)) @ b))))"
| "encodeValue (TTyped elemType items) =
     go_bind (encodeElems items) (\<lambda>b.
       Inr (4, elemType # EncodeVarsizeInteger (of_nat (length items)) @ b))"
| "encodeValue (TMap x) =
     (case sortedMapKeys x of
        [] \<Rightarrow> Inl IndexRange
      | k # _ \<Rightarrow> go_bind (encodeValue k) (\<lambda>(keyType, _).
          go_bind (encodeEntries x (sortedMapKeys x)) (\<lambda>b.
            Inr (5, keyType # leafType (map_get x k) # EncodeVarsizeInteger (of_nat (length x)) @ b))))"
| "encodeValue (TFloat x) = Inr (10, put_u32 x)"
| "encodeValue (TObjType c t) =
     Inr (8, EncodeVarsizeInteger (ucast c) @ EncodeVarsizeInteger (ucast t))"
| "encodeValue (TObjId c t i) =
     Inr (9, EncodeVarsizeInteger (ucast c) @ EncodeVarsizeInteger (ucast t) @ EncodeVarsizeInteger i)"
| "encodeValue (TUnion active field v) =
     (if active \<noteq> 0xff \<and> active \<noteq> 0x7f
      then go_bind (encodeValue v) (\<lambda>(typ, b). Inr (6, active # encodeTag field @ typ # b))
      else Inr (6, [active]))"
| "encodeValue (TVar tdfId field v) =
     (if v = TNil then Inr (7, [0x00])
      else go_bind (encodeValue v) (\<lambda>(typ, b).
        Inr (7, 0x01 # EncodeVarsizeInteger (ucast tdfId) @ encodeTag field @ typ # b @ [0x00])))"
| "encodeValue TNil = Inr (0xff, [])"
| "encodeElems [] = Inr []"
| "encodeElems (e # rest) =
     go_bind (encodeValue e) (\<lambda>(_, b). go_bind (encodeElems rest) (\<lambda>bs. Inr (b @ bs)))"
| "encodeEntries x [] = Inr []"
| "encodeEntries x (k # rest) =
     go_bind (encodeValue k) (\<lambda>(_, kb). go_bind (encodeValue (map_get x k)) (\<lambda>(_, vb).
       go_bind (encodeEntries x rest) (\<lambda>bs. Inr (kb @ vb @ bs))))"
  by pat_completeness auto

termination
  by (relation "measures
     [\<lambda>x. case x of
          Inl (Inl (fs, _)) \<Rightarrow> 2 * depth_fields fs + 1
        | Inl (Inr fs) \<Rightarrow> 2 * depth_fields fs + 1
        | Inr (Inl v) \<Rightarrow> 2 * depth v
        | Inr (Inr (Inl es)) \<Rightarrow> 2 * depth_elems es + 1
        | Inr (Inr (Inr (m, ks))) \<Rightarrow> 2 * max (depth_elems ks) (depth_values m) + 1,
      \<lambda>x. case x of
          Inl (Inl (fs, _)) \<Rightarrow> length fs + 1
        | Inl (Inr fs) \<Rightarrow> length fs
        | Inr (Inl v) \<Rightarrow> 0
        | Inr (Inr (Inl es)) \<Rightarrow> length es
        | Inr (Inr (Inr (m, ks))) \<Rightarrow> length ks]")
    (auto simp: less_Suc_eq_le depth_map_get le_max_iff_disj)

text \<open>\<open>EncodeTDF\<close>, the encoder without a header.\<close>

definition EncodeTDF :: "fields \<Rightarrow> bytes go" where
  "EncodeTDF fields = encodeStruct fields True"

definition BuildMetadata :: "i64 \<Rightarrow> i64 \<Rightarrow> bytes" where
  "BuildMetadata cntx errc =
     encodeTag ''CNTX'' @ 0 # EncodeVarsizeInteger cntx @
     encodeTag ''ERRC'' @ 0 # EncodeVarsizeInteger errc"

declare encodeStruct.simps [simp del] encodeFields.simps(2) [simp del]

section \<open>What the encoder can write\<close>

fun encodable :: "tdf \<Rightarrow> bool" where
  "encodable (TStruct fs) = (\<forall>(t, v) \<in> set fs. isEmptyCollection v \<or> encodable v)"
| "encodable (TArmed _ fs) = (\<forall>(t, v) \<in> set fs. isEmptyCollection v \<or> encodable v)"
| "encodable (TList xs) = (xs \<noteq> [] \<and> (\<forall>x \<in> set xs. encodable x))"
| "encodable (TTyped _ xs) = (\<forall>x \<in> set xs. encodable x)"
| "encodable (TMap m) = (m \<noteq> [] \<and> (\<forall>(k, v) \<in> set m. encodable k \<and> encodable v))"
| "encodable (TUnion a _ v) = (a = 0xff \<or> a = 0x7f \<or> encodable v)"
| "encodable (TVar _ _ v) = (v = TNil \<or> encodable v)"
| "encodable _ = True"

text \<open>
  \<open>encodable\<close> is enough: nothing in the value is an empty list or map but as a field.  What the encoder
  needs is \<open>encodes\<close>, since it reads the value of every key of a map back from the map.
\<close>

lemma depth_in: "(t, v) \<in> set fs \<Longrightarrow> depth v \<le> depth_fields fs" "x \<in> set xs \<Longrightarrow> depth x \<le> depth_elems xs"
  unfolding depth_fields_def depth_elems_def by (auto intro!: greatest_ge simp: rev_image_eqI)

function (sequential) encodes :: "tdf \<Rightarrow> bool" where
  "encodes (TStruct fs) = (\<forall>(t, v) \<in> set fs. isEmptyCollection v \<or> encodes v)"
| "encodes (TArmed _ fs) = (\<forall>(t, v) \<in> set fs. isEmptyCollection v \<or> encodes v)"
| "encodes (TList xs) = (xs \<noteq> [] \<and> (\<forall>x \<in> set xs. encodes x))"
| "encodes (TTyped _ xs) = (\<forall>x \<in> set xs. encodes x)"
| "encodes (TMap m) = (m \<noteq> [] \<and> (\<forall>k \<in> set (sortedMapKeys m). encodes k \<and> encodes (map_get m k)))"
| "encodes (TUnion a _ v) = (a = 0xff \<or> a = 0x7f \<or> encodes v)"
| "encodes (TVar _ _ v) = (v = TNil \<or> encodes v)"
| "encodes _ = True"
  by pat_completeness auto

termination
  by (relation "measure depth")
    (auto simp: less_Suc_eq_le depth_in le_max_iff_disj depth_map_get simp del: set_sortedMapKeys)

declare encodes.simps(5) [simp del]

lemma encodes_map [simp]:
  "encodes (TMap m) \<longleftrightarrow> m \<noteq> [] \<and> (\<forall>(k, v) \<in> set m. encodes k \<and> encodes (map_get m k))"
  by (force simp: encodes.simps(5))

lemma encodable_encodes: "encodable v \<Longrightarrow> encodes v"
proof (induction v)
  case (TMap m)
  have "encodes (map_get m k)" for k
    using map_get_cases [of m k] TMap by (auto simp: snds.simps)
  then show ?case using TMap by (auto simp: fsts.simps)
qed (auto simp: snds.simps)

text \<open>The entries of a map as the encoder fetches them.\<close>

definition fetched :: "tmap \<Rightarrow> tmap" where
  "fetched m = map (\<lambda>k. (k, map_get m k)) (sortedMapKeys m)"

primrec encodePairs :: "tmap \<Rightarrow> bytes go" where
  "encodePairs [] = Inr []"
| "encodePairs (kv # rest) =
     go_bind (encodeValue (fst kv)) (\<lambda>(_, kb). go_bind (encodeValue (snd kv)) (\<lambda>(_, vb).
       go_bind (encodePairs rest) (\<lambda>bs. Inr (kb @ vb @ bs))))"

lemma encodeEntries_pairs: "encodeEntries m ks = encodePairs (map (\<lambda>k. (k, map_get m k)) ks)"
  by (induction ks) simp_all

lemma fetched_Nil [simp]: "fetched m = [] \<longleftrightarrow> m = []" "fetched [] = []"
  by (simp_all add: fetched_def)

lemma encodeValue_map [simp]:
  "encodeValue (TMap m) =
     (case fetched m of
        [] \<Rightarrow> Inl IndexRange
      | (k, v) # _ \<Rightarrow> go_bind (encodeValue k) (\<lambda>(keyType, _).
          go_bind (encodePairs (fetched m)) (\<lambda>b.
            Inr (5, keyType # leafType v # EncodeVarsizeInteger (of_nat (length m)) @ b))))"
  by (cases "sortedMapKeys m") (simp_all add: fetched_def encodeEntries_pairs)

declare encodeValue.simps(9) [simp del]

text \<open>In a Go map whose keys equal themselves the value of every key is the one it was stored with.\<close>

lemma fetched_entries:
  assumes "go_map m" and "\<forall>(k, v) \<in> set m. go_eq k k = Inr True"
  shows "fetched m = sorted_entries m"
proof -
  have "fetched m = map (\<lambda>kv. (fst kv, map_get m (fst kv))) (sorted_entries m)"
    unfolding fetched_def fst_sorted_entries [symmetric] map_map by (simp only: comp_def)
  also have "\<dots> = map (\<lambda>kv. kv) (sorted_entries m)"
  proof (rule map_cong [OF refl])
    fix kv assume "kv \<in> set (sorted_entries m)"
    then show "(fst kv, map_get m (fst kv)) = kv" using map_get_entry [OF assms(1), of "fst kv" "snd kv"] assms(2) by auto
  qed
  finally show ?thesis by simp
qed

definition enc_total :: "tdf \<Rightarrow> bool" where
  "enc_total v \<longleftrightarrow> (if encodes v then \<exists>b. encodeValue v = Inr (typeByte v, b)
                   else encodeValue v = Inl IndexRange)"

lemma enc_total_cases:
  assumes "enc_total v"
  obtains b where "encodes v" and "encodeValue v = Inr (typeByte v, b)"
  | "\<not> encodes v" and "encodeValue v = Inl IndexRange"
  using assms by (auto simp: enc_total_def split: if_splits)

lemma encodeElems_total:
  "\<forall>x \<in> set xs. enc_total x \<Longrightarrow>
   if \<forall>x \<in> set xs. encodes x then \<exists>b. encodeElems xs = Inr b else encodeElems xs = Inl IndexRange"
proof (induction xs)
  case (Cons x xs)
  then have "enc_total x" by simp
  then show ?case by (cases rule: enc_total_cases) (use Cons in \<open>auto split: if_splits\<close>)
qed simp

lemma encodePairs_total:
  "\<forall>(k, v) \<in> set m. enc_total k \<and> enc_total v \<Longrightarrow>
   if \<forall>(k, v) \<in> set m. encodes k \<and> encodes v
   then \<exists>b. encodePairs m = Inr b else encodePairs m = Inl IndexRange"
proof (induction m)
  case (Cons kv m)
  obtain k v where kv: "kv = (k, v)" by (cases kv)
  then have k: "enc_total k" and v: "enc_total v" using Cons.prems by auto
  from k show ?case
  proof (cases rule: enc_total_cases)
    case k: (1 b)
    from v show ?thesis
      by (cases rule: enc_total_cases) (use Cons kv k in \<open>auto split: if_splits\<close>)
  qed (simp add: kv)
qed simp

lemma encodeFields_total:
  "\<forall>(t, v) \<in> set fs. enc_total v \<Longrightarrow>
   if \<forall>(t, v) \<in> set fs. isEmptyCollection v \<or> encodes v
   then \<exists>b. encodeFields fs = Inr b else encodeFields fs = Inl IndexRange"
proof (induction fs)
  case (Cons tv fs)
  obtain t v where tv: "tv = (t, v)" by (cases tv)
  then have "enc_total v" using Cons.prems by auto
  then show ?case
    by (cases rule: enc_total_cases) (use Cons tv in \<open>auto simp: encodeFields.simps split: if_splits\<close>)
qed simp

lemma encodeStruct_total:
  assumes "\<forall>(t, v) \<in> set fs. enc_total v"
  shows "if \<forall>(t, v) \<in> set fs. isEmptyCollection v \<or> encodes v
   then \<exists>b. encodeStruct fs root = Inr b else encodeStruct fs root = Inl IndexRange"
  using encodeFields_total [of "sortedKeys fs"] assms
  by (auto simp: encodeStruct.simps split: if_splits)

lemma encodeValue_total: "enc_total v"
proof (induction v)
  case (TStruct fs)
  then have "\<forall>(t, v) \<in> set fs. enc_total v" by (auto simp: snds.simps)
  from encodeStruct_total [OF this, of False] show ?case by (auto simp: enc_total_def split: if_splits)
next
  case (TArmed a fs)
  then have "\<forall>(t, v) \<in> set fs. enc_total v" by (auto simp: snds.simps)
  from encodeStruct_total [OF this, of False] show ?case by (auto simp: enc_total_def split: if_splits)
next
  case (TList xs)
  show ?case
  proof (cases xs)
    case (Cons x ys)
    then have "enc_total x" using TList by simp
    then show ?thesis
    proof (cases rule: enc_total_cases)
      case (1 b)
      have "encodeValue (TList xs) = go_bind (encodeElems xs) (\<lambda>b.
          Inr (4, typeByte x # EncodeVarsizeInteger (of_nat (length xs)) @ b))"
        by (simp add: Cons 1 del: encodeElems.simps)
      moreover have "\<forall>x \<in> set xs. enc_total x" using TList by blast
      ultimately show ?thesis
        using encodeElems_total [of xs] Cons
        by (auto simp: enc_total_def [of "TList (x # ys)"] simp del: encodeElems.simps encodeValue.simps split: if_splits)
    qed (simp add: Cons enc_total_def)
  qed (simp add: enc_total_def)
next
  case (TTyped t xs)
  with encodeElems_total [of xs] show ?case by (auto simp: enc_total_def split: if_splits)
next
  case (TMap m)
  show ?case
  proof (cases "fetched m")
    case (Cons kv r)
    obtain k v where kv: "kv = (k, v)" by (cases kv)
    have get: "enc_total (map_get m k')" for k'
      using map_get_cases [of m k'] TMap by (auto simp: enc_total_def [of TNil] snds.simps)
    have keys: "enc_total k'" if "k' \<in> fst ` set m" for k' using TMap that by (fastforce simp: fsts.simps)
    have "k \<in> fst ` set (fetched m)" by (simp add: Cons kv)
    then have k: "k \<in> fst ` set m" by (force simp: fetched_def)
    then have ne: "m \<noteq> []" by auto
    have "enc_total k" by (rule keys [OF k])
    then show ?thesis
    proof (cases rule: enc_total_cases)
      case (1 b)
      define M where "M = encodePairs (fetched m)"
      have "encodeValue (TMap m) = go_bind M (\<lambda>b.
          Inr (5, typeByte k # leafType v # EncodeVarsizeInteger (of_nat (length m)) @ b))"
        by (simp add: M_def Cons kv 1 del: encodePairs.simps)
      moreover have "if \<forall>(k, v) \<in> set (fetched m). encodes k \<and> encodes v
         then \<exists>b. M = Inr b else M = Inl IndexRange"
        unfolding M_def using get keys by (intro encodePairs_total) (auto simp: fetched_def)
      moreover have "(\<forall>(k, v) \<in> set (fetched m). encodes k \<and> encodes v) \<longleftrightarrow>
          (\<forall>(k, v) \<in> set m. encodes k \<and> encodes (map_get m k))"
        by (auto simp: fetched_def)
      ultimately show ?thesis using ne by (auto simp: enc_total_def split: if_splits)
    next
      case 2
      then show ?thesis using k kv Cons by (auto simp: enc_total_def)
    qed
  qed (simp add: enc_total_def)
qed (auto simp: enc_total_def split: if_splits)

lemma encodeStruct_ok:
  assumes "\<forall>(t, v) \<in> set fs. isEmptyCollection v \<or> encodable v"
  shows "\<exists>b. encodeStruct fs root = Inr b"
proof -
  have "\<forall>(t, v) \<in> set fs. isEmptyCollection v \<or> encodes v" using assms encodable_encodes by fastforce
  then show ?thesis using encodeStruct_total [of fs root] encodeValue_total by auto
qed

end
