(* ===== verification/Tdf_Roundtrip.thy ===== *)
theory Tdf_Roundtrip
  imports Tdf_Decode Tdf_Encode
begin

text \<open>
  What the decoder of Fire2Decoder.go makes of the bytes the encoder of Fire2Encoder.go
  wrote.  \<open>norm\<close> is the value that comes back: booleans as integers, typed lists as lists,
  struct fields in tag order without the empty collections, map entries in key order, and
  unions and variables without a member as their zero values.  \<open>wire_ok\<close> says which values
  the format can carry.
\<close>

section \<open>The value that comes back\<close>

fun norm :: "tdf \<Rightarrow> tdf" where
  "norm (TBool b) = TInt (if b then 1 else 0)"
| "norm (TStruct fs) =
     TStruct (map (\<lambda>(t, v). (t, norm v)) (filter (\<lambda>(t, v). \<not> isEmptyCollection v) (sortedKeys fs)))"
| "norm (TArmed a fs) =
     TArmed a (map (\<lambda>(t, v). (t, norm v)) (filter (\<lambda>(t, v). \<not> isEmptyCollection v) (sortedKeys fs)))"
| "norm (TList xs) = TList (map norm xs)"
| "norm (TTyped _ xs) = TList (map norm xs)"
| "norm (TMap m) = TMap (map (\<lambda>(k, v). (norm k, norm v)) (sorted_entries m))"
| "norm (TUnion a f v) = (if a \<noteq> 0xff \<and> a \<noteq> 0x7f then TUnion a f (norm v) else TUnion a '''' TNil)"
| "norm (TVar i f v) = (if v = TNil then TVar 0 '''' TNil else TVar i f (norm v))"
| "norm v = v"

definition field_ok :: "string \<Rightarrow> bool" where
  "field_ok t \<longleftrightarrow> length t \<le> 4 \<and> list_all tag_char t \<and> map tag_upper t = t"

text \<open>The first byte of a struct element of a list must not look like an arm.\<close>

definition arm_safe :: "fields \<Rightarrow> bool" where
  "arm_safe fs \<longleftrightarrow> (\<forall>(t, v) \<in> set fs. isEmptyCollection v \<or> 0x40 \<le> byte_of (hd t))"

text \<open>
  \<open>wire_ok True\<close> is for elements of lists, which may carry an arm.  The keys of a map must equal themselves: the
  encoder looks the value of each key up, and finds none for a NaN.
\<close>

fun wire_ok :: "bool \<Rightarrow> tdf \<Rightarrow> bool" where
  "wire_ok e (TStruct fs) =
     ((e \<longrightarrow> arm_safe fs) \<and> distinct (map fst fs) \<and>
      (\<forall>(t, v) \<in> set fs. isEmptyCollection v \<or> (t \<noteq> [] \<and> field_ok t \<and> wire_ok False v)))"
| "wire_ok e (TArmed a fs) =
     (e \<and> a \<noteq> 0 \<and> a < 0x80 \<and> distinct (map fst fs) \<and>
      (\<forall>(t, v) \<in> set fs. isEmptyCollection v \<or> (t \<noteq> [] \<and> field_ok t \<and> wire_ok False v)))"
| "wire_ok e (TList xs) =
     (xs \<noteq> [] \<and> (\<forall>x \<in> set xs. typeByte x = typeByte (hd xs) \<and> wire_ok True x))"
| "wire_ok e (TTyped t xs) = (\<forall>x \<in> set xs. typeByte x = t \<and> wire_ok True x)"
| "wire_ok e (TMap m) =
     (m \<noteq> [] \<and>
      (\<forall>(k, v) \<in> set m. hashable k \<and> go_eq k k = Inr True \<and> typeByte k = typeByte (fst (hd m)) \<and> wire_ok False k \<and>
         leafType v = typeByte v \<and> typeByte v = typeByte (snd (hd m)) \<and> wire_ok False v) \<and>
      sorted_wrt (\<lambda>a b. go_eq b a \<noteq> Inr True) (map (\<lambda>(k, v). norm k) (sorted_entries m)))"
| "wire_ok e (TUnion a f v) = (a = 0xff \<or> a = 0x7f \<or> (field_ok f \<and> wire_ok False v))"
| "wire_ok e (TVar i f v) = (v = TNil \<or> (field_ok f \<and> wire_ok False v))"
| "wire_ok e TNil = False"
| "wire_ok e v = True"

text \<open>The bytes of a value, and how they are read back.\<close>

definition enc_body :: "tdf \<Rightarrow> bytes" where
  "enc_body v = (case encodeValue v of Inr (_, b) \<Rightarrow> b | Inl _ \<Rightarrow> [])"

definition fits_mem :: "bytes \<Rightarrow> bool" where
  "fits_mem b \<longleftrightarrow> length b \<le> 2 ^ 44"

lemma fits_mem_append: "fits_mem (a @ b) \<Longrightarrow> fits_mem a" "fits_mem (a @ b) \<Longrightarrow> fits_mem b"
  by (simp_all add: fits_mem_def)

lemma fits_mem_Cons: "fits_mem (a # b) \<Longrightarrow> fits_mem b"
  by (simp add: fits_mem_def)

lemma type_cases:
  "GetTypeByID (uint (typeByte v)) =
    (case v of TInt _ \<Rightarrow> HEAT_TYPE_INTEGER | TBool _ \<Rightarrow> HEAT_TYPE_INTEGER | TStr _ \<Rightarrow> HEAT_TYPE_STRING
     | TBlob _ \<Rightarrow> HEAT_TYPE_BLOB | TStruct _ \<Rightarrow> HEAT_TYPE_TDF | TArmed _ _ \<Rightarrow> HEAT_TYPE_TDF
     | TList _ \<Rightarrow> HEAT_TYPE_LIST | TTyped _ _ \<Rightarrow> HEAT_TYPE_LIST | TMap _ \<Rightarrow> HEAT_TYPE_MAP
     | TUnion _ _ _ \<Rightarrow> HEAT_TYPE_UNION | TVar _ _ _ \<Rightarrow> HEAT_TYPE_VARIABLE
     | TObjType _ _ \<Rightarrow> HEAT_TYPE_OBJECT_TYPE | TObjId _ _ _ \<Rightarrow> HEAT_TYPE_OBJECT_ID
     | TFloat _ \<Rightarrow> HEAT_TYPE_FLOAT | TNil \<Rightarrow> HEAT_TYPE_INVALID)"
  by (cases v) (simp_all add: GetTypeByID_def)

lemma byte_types [simp]:
  "GetTypeByID 0 = HEAT_TYPE_INTEGER" "GetTypeByID 1 = HEAT_TYPE_STRING"
  "GetTypeByID 2 = HEAT_TYPE_BLOB" "GetTypeByID 3 = HEAT_TYPE_TDF" "GetTypeByID 4 = HEAT_TYPE_LIST"
  "GetTypeByID 5 = HEAT_TYPE_MAP" "GetTypeByID 6 = HEAT_TYPE_UNION"
  "GetTypeByID 7 = HEAT_TYPE_VARIABLE" "GetTypeByID 8 = HEAT_TYPE_OBJECT_TYPE"
  "GetTypeByID 9 = HEAT_TYPE_OBJECT_ID" "GetTypeByID 10 = HEAT_TYPE_FLOAT"
  by (simp_all add: GetTypeByID_def)

definition reads_back :: "tdf \<Rightarrow> bool" where
  "reads_back v \<longleftrightarrow> (\<forall>b r. wire_ok False v \<longrightarrow> encodeValue v = Inr (typeByte v, b) \<longrightarrow> fits_mem (b @ r) \<longrightarrow>
     b \<noteq> [] \<and> readValue (typeByte v) (b @ r) = Inr (norm v, int (length b)))"

lemma tag_back: "field_ok t \<Longrightarrow> DecodeTag (encodeTag t @ r) = t"
  by (simp add: DecodeTag_encodeTag field_ok_def)

lemma tag_back' [simp]: "field_ok t \<Longrightarrow> DecodeTag (encodeTag t) = t"
  using tag_back [of t "[]"] by simp

lemma hd_encodeTag_bit:
  assumes "t \<noteq> []" and "n < 6"
  shows "bit (hd (encodeTag t)) (n + 2) = bit (six (hd t)) n"
proof -
  have six0: "\<not> bit (six c) m" if "6 \<le> m" for c m
    using six_bits [of c m] that by auto
  have "hd (encodeTag t) = ucast (drop_bit 24 (tag_pack 0 t 0))"
    by (simp add: encodeTag_def Let_def)
  with assms show ?thesis
    by (auto simp: tag_pack_four Let_def bit_simps hd_conv_nth six0)
qed

lemma tag_first:
  assumes "t \<noteq> []" and "field_ok t"
  shows "hd (encodeTag t) \<noteq> 0" and "0x40 \<le> byte_of (hd t) \<Longrightarrow> 0x80 \<le> hd (encodeTag t)"
proof -
  have c: "tag_char (hd t)" and u: "tag_upper (hd t) = hd t"
    using assms by (cases t; simp add: field_ok_def)+
  from tag_char_six(1) [OF c] obtain n where n: "bit (six (hd t)) n" by (metis bit_eq_iff bit_0_eq bot_apply bot_bool_def)
  with six_bits have "bit (hd (encodeTag t)) (n + 2)" by (metis assms(1) hd_encodeTag_bit)
  then show "hd (encodeTag t) \<noteq> 0" by auto
  assume ge: "0x40 \<le> byte_of (hd t)"
  have "byte_of (hd t) \<le> 0x5f"
  proof (rule ccontr)
    assume big: "\<not> byte_of (hd t) \<le> 0x5f"
    with c have "byte_of CHR ''a'' \<le> byte_of (hd t) \<and> byte_of (hd t) \<le> byte_of CHR ''z''"
      by (simp add: tag_char_def)
    with u have "byte_of (hd t) - 0x20 = byte_of (hd t)"
      by (metis byte_of_char_of_byte tag_upper_def)
    then show False by simp
  qed
  with ge have "32 \<le> unat (byte_of (hd t) - 0x20)" "unat (byte_of (hd t) - 0x20) < 64"
    by (simp_all add: word_le_nat_alt unat_sub_if')
  then have "unat (byte_of (hd t) - 0x20) div 32 = 1" by (intro div_nat_eqI) simp_all
  then have "bit (unat (byte_of (hd t) - 0x20)) 5" by (simp add: bit_iff_odd)
  then have "bit (byte_of (hd t) - 0x20) 5" by (simp add: bit_unsigned_iff)
  then have "bit (six (hd t)) 5" by (simp add: six_def u bit_simps chunk_bits)
  then have b7: "bit (hd (encodeTag t)) 7" using hd_encodeTag_bit [OF assms(1), of 5] by simp
  show "0x80 \<le> hd (encodeTag t)"
  proof (rule ccontr)
    assume "\<not> 0x80 \<le> hd (encodeTag t)"
    then have "unat (hd (encodeTag t)) < 128" by (simp add: word_le_nat_alt)
    then have "\<not> bit (unat (hd (encodeTag t))) 7" by (simp add: bit_iff_odd)
    with b7 show False by (simp add: bit_unsigned_iff)
  qed
qed

section \<open>Sequences\<close>

lemma encodeTag_split: obtains a b c where "encodeTag t = [a, b, c]"
  by (simp add: encodeTag_def Let_def)

lemma update_fresh: "t \<notin> fst ` set out \<Longrightarrow> AList.update t v out = out @ [(t, v)]"
  by (induction out) auto

lemma readFields_step:
  assumes "t \<noteq> []" and "field_ok t" and "readValue ty (b @ r) = Inr (v, int (length b))"
    and "t \<notin> fst ` set out"
  shows "readFields out k (encodeTag t @ ty # b @ r) = readFields (out @ [(t, v)]) (k + 4 + length b) r"
proof -
  obtain x y z where e: "encodeTag t = [x, y, z]" by (rule encodeTag_split)
  have "x \<noteq> 0" using tag_first(1) [OF assms(1,2)] e by simp
  moreover have "DecodeTag [x, y, z] = t" using tag_back' [OF assms(2)] e by simp
  moreover have "drop (4 + length b) (x # y # z # ty # b @ r) = r"
    by (simp add: eval_nat_numeral)
  ultimately show ?thesis
    using assms(3,4) e by (subst readFields.simps) (simp add: Let_def update_fresh numeral_3_eq_3)
qed

definition kept :: "fields \<Rightarrow> fields" where
  "kept fs = map (\<lambda>(t, v). (t, norm v)) (filter (\<lambda>(t, v). \<not> isEmptyCollection v) fs)"

lemma kept_simps [simp]:
  "kept [] = []"
  "kept ((t, v) # fs) = (if isEmptyCollection v then kept fs else (t, norm v) # kept fs)"
  by (simp_all add: kept_def)

lemma fst_kept: "fst ` set (kept fs) \<subseteq> fst ` set fs"
  by (force simp: kept_def)

definition field_back :: "string \<times> tdf \<Rightarrow> bool" where
  "field_back = (\<lambda>(t, v). isEmptyCollection v \<or>
     (t \<noteq> [] \<and> field_ok t \<and> wire_ok False v \<and> reads_back v))"

lemma encodeFields_back:
  assumes "\<forall>tv \<in> set fs. field_back tv" and "distinct (map fst fs)"
    and "fst ` set out \<inter> fst ` set fs = {}"
    and "encodeFields fs = Inr b" and "fits_mem (b @ r)"
  shows "readFields out k (b @ r) = readFields (out @ kept fs) (k + length b) r"
  using assms
proof (induction fs arbitrary: out b k)
  case (Cons tv fs)
  obtain t v where tv: "tv = (t, v)" by (cases tv)
  show ?case
  proof (cases "isEmptyCollection v")
    case True
    with Cons tv show ?thesis by (simp add: encodeFields.simps)
  next
    case False
    then obtain ty vb fb where v: "encodeValue v = Inr (ty, vb)" and fb: "encodeFields fs = Inr fb"
      and b: "b = encodeTag t @ ty # vb @ fb"
      using Cons.prems(4) by (auto simp: tv encodeFields.simps go_bind_Inr_iff)
    have ty: "ty = typeByte v"
      using encodeValue_total [of v] v by (auto simp: enc_total_def split: if_splits)
    have t: "t \<noteq> []" "field_ok t" "t \<notin> fst ` set out" and "wire_ok False v" "reads_back v"
      using Cons.prems(1,3) False by (auto simp: tv field_back_def)
    moreover have "fits_mem (vb @ (fb @ r))" using Cons.prems(5) by (simp add: b fits_mem_def)
    ultimately have "readValue ty (vb @ (fb @ r)) = Inr (norm v, int (length vb))"
      using v by (simp add: reads_back_def ty)
    from readFields_step [OF t(1,2) this t(3)]
    have "readFields out k (b @ r) = readFields (out @ [(t, norm v)]) (k + 4 + length vb) (fb @ r)"
      by (simp add: b)
    also have "\<dots> = readFields ((out @ [(t, norm v)]) @ kept fs) (k + 4 + length vb + length fb) r"
    proof (rule Cons.IH)
      show "\<forall>tv \<in> set fs. field_back tv" using Cons.prems(1) by simp
      show "distinct (map fst fs)" using Cons.prems(2) by simp
      show "fst ` set (out @ [(t, norm v)]) \<inter> fst ` set fs = {}"
        using Cons.prems(2,3) by (auto simp: tv)
      show "fits_mem (fb @ r)" using Cons.prems(5) by (simp add: b fits_mem_def)
    qed (fact fb)
    finally show ?thesis using False by (simp add: tv b add_ac)
  qed
qed simp

text \<open>A nested struct is closed by a zero byte; the root struct ends with the buffer.\<close>

lemma encodeStruct_back:
  assumes "\<forall>tv \<in> set fs. field_back tv" and "distinct (map fst fs)"
    and "encodeStruct fs False = Inr b" and "fits_mem (b @ r)"
  shows "readFields [] 0 (b @ r) = Inr (kept (sortedKeys fs), int (length b))" and "b \<noteq> []"
proof -
  from assms(3) obtain b' where b': "encodeFields (sortedKeys fs) = Inr b'" and b: "b = b' @ [0]"
    by (auto simp: encodeStruct.simps go_bind_Inr_iff)
  have "readFields [] 0 (b' @ ([0] @ r)) = readFields ([] @ kept (sortedKeys fs)) (0 + length b') ([0] @ r)"
  proof (rule encodeFields_back)
    show "\<forall>tv \<in> set (sortedKeys fs). field_back tv" using assms(1) by simp
    show "distinct (map fst (sortedKeys fs))"
      using assms(2) by (metis card_distinct distinct_card length_map set_map set_sortedKeys length_sortedKeys)
    show "fits_mem (b' @ ([0] @ r))" using assms(4) by (simp add: b)
  qed (simp_all add: b')
  then show "readFields [] 0 (b @ r) = Inr (kept (sortedKeys fs), int (length b))"
    by (simp add: b readFields.simps)
  show "b \<noteq> []" by (simp add: b)
qed

text \<open>One element of a list: \<open>readItem\<close> is the body of the LIST loop.\<close>

definition readItem :: "u8 \<Rightarrow> bytes \<Rightarrow> (tdf \<times> int) go" where
  "readItem elemType buf =
     (if elemType = 3 \<and> buf \<noteq> [] \<and> hd buf \<noteq> 0 \<and> hd buf < 0x80
      then go_bind (readFields [] 0 (tl buf)) (\<lambda>(fs, structBytes).
             Inr (if structBytes < 0 then (TNil, - 1) else (TArmed (hd buf) fs, 1 + structBytes)))
      else readValue elemType buf)"

lemma readList_Suc:
  "readList elemType (Suc n) buf = go_bind (readItem elemType buf) (\<lambda>(value, bytesRead).
     if bytesRead < 0 then Inr ([], - 1)
     else go_bind (readList elemType n (drop (nat bytesRead) buf)) (\<lambda>(list, rest).
            Inr (if rest < 0 then ([], - 1) else (value # list, bytesRead + rest))))"
  by (simp add: readList.simps readItem_def)

definition item_back :: "tdf \<Rightarrow> bool" where
  "item_back v \<longleftrightarrow> (\<forall>b r. wire_ok True v \<longrightarrow> encodeValue v = Inr (typeByte v, b) \<longrightarrow> fits_mem (b @ r) \<longrightarrow>
     b \<noteq> [] \<and> readItem (typeByte v) (b @ r) = Inr (norm v, int (length b)))"

lemma encodeElems_back:
  assumes "\<forall>x \<in> set xs. typeByte x = ty \<and> wire_ok True x \<and> item_back x"
    and "encodeElems xs = Inr b" and "fits_mem (b @ r)"
  shows "readList ty (length xs) (b @ r) = Inr (map norm xs, int (length b)) \<and> length xs \<le> length b"
  using assms
proof (induction xs arbitrary: b)
  case (Cons x xs)
  then obtain t xb bs where x: "encodeValue x = Inr (t, xb)" and bs: "encodeElems xs = Inr bs"
    and b: "b = xb @ bs"
    by (auto simp: go_bind_Inr_iff)
  have t: "t = typeByte x" "typeByte x = ty"
    using encodeValue_total [of x] x Cons.prems(1) by (auto simp: enc_total_def split: if_splits)
  have f: "fits_mem (xb @ (bs @ r))" "fits_mem (bs @ r)"
    using Cons.prems(3) by (simp_all add: b fits_mem_def)
  have xb: "xb \<noteq> [] \<and> readItem ty (xb @ (bs @ r)) = Inr (norm x, int (length xb))"
    using Cons.prems(1) x f(1) t by (simp add: item_back_def)
  moreover have "readList ty (length xs) (bs @ r) = Inr (map norm xs, int (length bs)) \<and> length xs \<le> length bs"
    by (rule Cons.IH) (use Cons.prems bs f in auto)
  moreover from xb have "1 \<le> length xb" by (cases xb) auto
  ultimately show ?case by (simp add: readList_Suc b)
qed (simp add: readList.simps)

lemma tmap_put_fresh:
  "\<forall>k' \<in> fst ` set out. go_eq k k' \<noteq> Inr True \<Longrightarrow> tmap_put k v out = out @ [(k, v)]"
  by (induction out) auto

lemma hashable_norm: "hashable k \<Longrightarrow> hashable (norm k)"
  by (induction k) auto

definition entry_back :: "u8 \<Rightarrow> u8 \<Rightarrow> tdf \<times> tdf \<Rightarrow> bool" where
  "entry_back kt vt = (\<lambda>(k, v). hashable k \<and> typeByte k = kt \<and> wire_ok False k \<and> reads_back k \<and>
     typeByte v = vt \<and> wire_ok False v \<and> reads_back v)"

lemma encodeValue_type: "encodeValue v = Inr (t, b) \<Longrightarrow> t = typeByte v"
  using encodeValue_total [of v] by (auto simp: enc_total_def split: if_splits)

lemma encodePairs_back:
  assumes "\<forall>kv \<in> set m. entry_back kt vt kv"
    and "sorted_wrt (\<lambda>a b. go_eq b a \<noteq> Inr True) (map fst out @ map (\<lambda>(k, v). norm k) m)"
    and "encodePairs m = Inr b" and "fits_mem (b @ r)"
  shows "readMap kt vt (length m) out (b @ r) =
      Inr (out @ map (\<lambda>(k, v). (norm k, norm v)) m, int (length b)) \<and> length m \<le> length b"
  using assms
proof (induction m arbitrary: b out)
  case (Cons kv m)
  obtain k v where kv: "kv = (k, v)" by (cases kv)
  obtain kt' kb vt' vb bs where k: "encodeValue k = Inr (kt', kb)" and v: "encodeValue v = Inr (vt', vb)"
    and bs: "encodePairs m = Inr bs" and b: "b = kb @ vb @ bs"
    using Cons.prems(3) by (auto simp: kv go_bind_Inr_iff)
  have e: "hashable k" "typeByte k = kt" "wire_ok False k" "reads_back k"
    "typeByte v = vt" "wire_ok False v" "reads_back v"
    using Cons.prems(1) by (simp_all add: kv entry_back_def)
  note t = encodeValue_type [OF k] encodeValue_type [OF v]
  have f: "fits_mem (kb @ (vb @ bs @ r))" "fits_mem (vb @ (bs @ r))" "fits_mem (bs @ r)"
    using Cons.prems(4) by (simp_all add: b fits_mem_def)
  have kr: "kb \<noteq> [] \<and> readValue kt (kb @ (vb @ bs @ r)) = Inr (norm k, int (length kb))"
    using e k t f(1) by (simp add: reads_back_def)
  have vr: "readValue vt (vb @ (bs @ r)) = Inr (norm v, int (length vb))"
    using e v t f(2) by (simp add: reads_back_def)
  have "\<forall>k' \<in> fst ` set out. go_eq (norm k) k' \<noteq> Inr True"
    using Cons.prems(2) by (auto simp: kv sorted_wrt_append)
  then have put: "tmap_assign (norm k) (norm v) out = Inr (out @ [(norm k, norm v)])"
    using e(1) by (simp add: tmap_assign_def hashable_norm tmap_put_fresh)
  have "readMap kt vt (length m) (out @ [(norm k, norm v)]) (bs @ r) =
      Inr ((out @ [(norm k, norm v)]) @ map (\<lambda>(k, v). (norm k, norm v)) m, int (length bs))
      \<and> length m \<le> length bs"
  proof (rule Cons.IH)
    show "\<forall>kv \<in> set m. entry_back kt vt kv" using Cons.prems(1) by simp
    show "sorted_wrt (\<lambda>a b. go_eq b a \<noteq> Inr True)
      (map fst (out @ [(norm k, norm v)]) @ map (\<lambda>(k, v). norm k) m)"
      using Cons.prems(2) by (simp add: kv)
  qed (fact bs f(3))+
  moreover from kr have "1 \<le> length kb" by (cases kb) auto
  ultimately show ?case
    using kr vr put by (simp add: readMap.simps b kv nat_add_distrib add_ac)
qed (simp add: readMap.simps)

text \<open>The keys of a map the format can carry are found again.\<close>

lemma go_eq_nil: "go_eq a TNil = Inr True \<longleftrightarrow> a = TNil"
  by (cases a) auto

lemma go_eq_norm: "go_eq a b = Inr True \<Longrightarrow> go_eq (norm a) (norm b) = Inr True"
  by (induction a arbitrary: b) (auto simp: go_eq_nil split: tdf.splits if_splits)

lemma wire_ok_fetched: "wire_ok e (TMap m) \<Longrightarrow> fetched m = sorted_entries m"
proof (rule fetched_entries)
  assume w: "wire_ok e (TMap m)"
  then have "sorted_wrt (\<lambda>a b. go_eq (norm (fst b)) (norm (fst a)) \<noteq> Inr True) (sorted_entries m)"
    by (simp add: sorted_wrt_map case_prod_unfold)
  then have "go_map (sorted_entries m)"
    unfolding go_map_def by (rule sorted_wrt_mono_rel [rotated]) (metis go_eq_norm go_eq_sym)
  then show "go_map m" using go_map_mset [of "sorted_entries m" m] by simp
qed auto

section \<open>Values\<close>

lemma encodeFields_hd:
  "encodeFields fs = Inr b \<Longrightarrow>
   b = [] \<or> (\<exists>(t, v) \<in> set fs. \<not> isEmptyCollection v \<and> b \<noteq> [] \<and> hd b = hd (encodeTag t))"
proof (induction fs arbitrary: b)
  case (Cons tv fs)
  obtain t v where tv: "tv = (t, v)" by (cases tv)
  obtain x y z where e: "encodeTag t = [x, y, z]" by (rule encodeTag_split)
  show ?case
    using Cons e by (auto simp: tv encodeFields.simps go_bind_Inr_iff split: if_splits)
qed simp

lemma encodeStruct_hd:
  assumes "encodeStruct fs False = Inr b" and "arm_safe fs"
    and "\<forall>(t, v) \<in> set fs. isEmptyCollection v \<or> (t \<noteq> [] \<and> field_ok t)"
  shows "hd b = 0 \<or> 0x80 \<le> hd b"
proof -
  from assms(1) obtain b' where b': "encodeFields (sortedKeys fs) = Inr b'" and b: "b = b' @ [0]"
    by (auto simp: encodeStruct.simps go_bind_Inr_iff)
  from encodeFields_hd [OF b'] show ?thesis
  proof
    assume "\<exists>(t, v) \<in> set (sortedKeys fs). \<not> isEmptyCollection v \<and> b' \<noteq> [] \<and> hd b' = hd (encodeTag t)"
    then obtain t v where tv: "(t, v) \<in> set fs" "\<not> isEmptyCollection v" "b' \<noteq> []" "hd b' = hd (encodeTag t)"
      by auto
    with assms(2,3) have "t \<noteq> []" "field_ok t" "0x40 \<le> byte_of (hd t)"
      by (auto simp: arm_safe_def)
    from tag_first(2) [OF this] tv show ?thesis by (simp add: b)
  qed (simp add: b)
qed

lemma sint_of_nat: "n < 2 ^ 63 \<Longrightarrow> sint (of_nat n :: i64) = int n"
  by (simp add: signed_of_nat signed_take_bit_int_eq_self)

lemma go_slice_mid: "go_slice (int (length a)) (int (length a + length m)) (a @ m @ r) = Inr m"
  by (simp add: go_slice_def)

lemma str_back:
  assumes "fits_mem (b @ r)" and b: "b = EncodeVarsizeInteger (of_nat (length s + 1)) @ str_bytes s @ [0]"
  shows "readValue 1 (b @ r) = Inr (TStr s, int (length b))"
proof -
  define w :: i64 where "w = of_nat (length s + 1)"
  define n where "n = EncodeVarsizeInteger w"
  have bn: "b = n @ str_bytes s @ [0]" by (simp add: b n_def w_def)
  have len: "length n + (length s + 1) < 2 ^ 63" "length s + 1 < 2 ^ 63"
    using assms(1) by (simp_all add: fits_mem_def bn)
  have s1: "sint w = int (length s + 1)"
    unfolding w_def by (rule sint_of_nat) (fact len)
  have s2: "sint (of_nat (length n) + w) = int (length n + (length s + 1))"
    unfolding w_def of_nat_add [symmetric] by (rule sint_of_nat) (fact len)
  have "of_nat (length n) + w - 1 = (of_nat (length n + length s) :: i64)"
    by (simp add: w_def)
  then have s3: "sint (of_nat (length n) + w - 1) = int (length n + length s)"
    using len by (simp only:) (rule sint_of_nat, simp)
  have "go_slice (int (length n)) (int (length n + length s)) (n @ str_bytes s @ 0 # r) = Inr (str_bytes s)"
    using go_slice_mid [of n "str_bytes s" "0 # r"] by simp
  moreover have "DecodeVarsizeInteger (n @ str_bytes s @ 0 # r) = (w, length n)"
    unfolding n_def by (rule Decode_Encode)
  ultimately show ?thesis
    by (simp add: readValue.simps bn Let_def s1 s2 s3)
qed

lemma blob_back:
  assumes "fits_mem (b @ r)" and b: "b = EncodeVarsizeInteger (of_nat (length s)) @ s"
  shows "readValue 2 (b @ r) = Inr (TBlob s, int (length b))"
proof -
  define n where "n = EncodeVarsizeInteger (of_nat (length s))"
  have len: "length n + length s < 2 ^ 63" and "length s < 2 ^ 63" and l48: "length s \<le> 2 ^ 48"
    using assms(1) by (simp_all add: fits_mem_def b n_def)
  then have s1: "sint (of_nat (length s) :: i64) = int (length s)"
    and s2: "sint (of_nat (length n) + of_nat (length s) :: i64) = int (length n + length s)"
    unfolding of_nat_add [symmetric] by (intro sint_of_nat, simp)+
  have "DecodeVarsizeInteger (n @ s @ r) = (of_nat (length s), length n)"
    unfolding n_def by (rule Decode_Encode)
  moreover have "make_slice_ok 1 (of_nat (length s))"
    using l48 by (simp add: make_slice_ok_def s1)
  ultimately show ?thesis
    using go_slice_mid [of n s r]
    by (simp add: readValue.simps b n_def [symmetric] Let_def s1 s2 del: of_nat_add)
qed

lemma list_back:
  assumes "fits_mem (b @ r)" and b: "b = ty # EncodeVarsizeInteger (of_nat (length xs)) @ bs"
    and "\<forall>x \<in> set xs. typeByte x = ty \<and> wire_ok True x \<and> item_back x" and "encodeElems xs = Inr bs"
  shows "readValue 4 (b @ r) = Inr (TList (map norm xs), int (length b))"
proof -
  have fb: "fits_mem (bs @ r)" using assms(1) by (simp add: b fits_mem_def)
  from encodeElems_back [OF assms(3,4) fb]
  have l: "readList ty (length xs) (bs @ r) = Inr (map norm xs, int (length bs))" and n: "length xs \<le> length bs"
    by simp_all
  with fb have "int (length xs) * 16 \<le> 2 ^ 48" by (simp add: fits_mem_def)
  moreover from this have s: "sint (of_nat (length xs) :: i64) = int (length xs)"
    by (intro sint_of_nat) simp
  ultimately have "make_slice_ok 16 (of_nat (length xs))" by (simp add: make_slice_ok_def)
  then show ?thesis by (simp add: readValue.simps b Let_def s l)
qed

lemma map_back:
  assumes "fits_mem (b @ r)" and b: "b = kt # vt # EncodeVarsizeInteger (of_nat (length m)) @ bs"
    and "\<forall>kv \<in> set m. entry_back kt vt kv" and "encodePairs m = Inr bs"
    and "sorted_wrt (\<lambda>a b. go_eq b a \<noteq> Inr True) (map (\<lambda>(k, v). norm k) m)"
  shows "readValue 5 (b @ r) = Inr (TMap (map (\<lambda>(k, v). (norm k, norm v)) m), int (length b))"
proof -
  have fb: "fits_mem (bs @ r)" using assms(1) by (simp add: b fits_mem_def)
  have "sorted_wrt (\<lambda>a b. go_eq b a \<noteq> Inr True) (map fst [] @ map (\<lambda>(k, v). norm k) m)"
    using assms(5) by simp
  from encodePairs_back [OF assms(3) this assms(4) fb]
  have l: "readMap kt vt (length m) [] (bs @ r) = Inr (map (\<lambda>(k, v). (norm k, norm v)) m, int (length bs))"
    and n: "length m \<le> length bs"
    by simp_all
  have s: "sint (of_nat (length m) :: i64) = int (length m)"
    using n fb by (intro sint_of_nat) (simp add: fits_mem_def)
  have "drop (2 + length n) (kt # vt # n @ bs @ r) = bs @ r" for n :: bytes
    by (simp add: eval_nat_numeral)
  with s l show ?thesis by (simp add: readValue.simps b Let_def)
qed

lemma element_back:
  assumes "field_ok f" and "readValue ty (vb @ r) = Inr (v, int (length vb))"
  shows "readElement (encodeTag f @ ty # vb @ r) = Inr (f, v, 4 + int (length vb))"
proof -
  obtain x y z where e: "encodeTag f = [x, y, z]" by (rule encodeTag_split)
  then have "DecodeTag [x, y, z] = f" using tag_back' [OF assms(1)] by simp
  then show ?thesis using assms(2) by (simp add: e readElement.simps Let_def numeral_3_eq_3)
qed

definition round_trips :: "tdf \<Rightarrow> bool" where
  "round_trips v \<longleftrightarrow> reads_back v \<and> item_back v"

lemma item_of_reads:
  assumes "reads_back v" and "typeByte v \<noteq> 3" and "wire_ok True v = wire_ok False v"
  shows "round_trips v"
  using assms by (simp add: round_trips_def reads_back_def item_back_def readItem_def)

lemma kept_norm: "norm (TStruct fs) = TStruct (kept (sortedKeys fs))"
  "norm (TArmed a fs) = TArmed a (kept (sortedKeys fs))"
  by (simp_all add: kept_def)

lemma struct_back:
  assumes "\<forall>(t, v) \<in> set fs. round_trips v"
  shows "round_trips (TStruct fs)" and "round_trips (TArmed a fs)"
proof -
  have F: "\<forall>tv \<in> set fs. field_back tv"
    if "\<forall>(t, v) \<in> set fs. isEmptyCollection v \<or> (t \<noteq> [] \<and> field_ok t \<and> wire_ok False v)"
    using that assms by (auto simp: field_back_def round_trips_def)
  have S: "encodeStruct fs False = Inr b \<Longrightarrow> fits_mem (b @ r) \<Longrightarrow> wire_ok False (TStruct fs) \<Longrightarrow>
      readFields [] 0 (b @ r) = Inr (kept (sortedKeys fs), int (length b)) \<and> b \<noteq> []" for b r
    using encodeStruct_back [OF F] by auto
  have hd: "encodeStruct fs False = Inr b \<Longrightarrow> wire_ok True (TStruct fs) \<Longrightarrow> hd b = 0 \<or> 0x80 \<le> hd b" for b
    by (rule encodeStruct_hd) auto
  show "round_trips (TStruct fs)"
    unfolding round_trips_def reads_back_def item_back_def kept_norm
  proof (intro conjI allI impI)
    fix b r
    assume w: "wire_ok True (TStruct fs)" and f: "fits_mem (b @ r)"
      and "encodeValue (TStruct fs) = Inr (typeByte (TStruct fs), b)"
    then have e: "encodeStruct fs False = Inr b" by (auto simp: go_bind_Inr_iff)
    from S [OF e f] w have s: "readFields [] 0 (b @ r) = Inr (kept (sortedKeys fs), int (length b))" "b \<noteq> []"
      by auto
    show "b \<noteq> []" by (fact s(2))
    show "readItem (typeByte (TStruct fs)) (b @ r) = Inr (TStruct (kept (sortedKeys fs)), int (length b))"
      using s hd [OF e w] by (auto simp: readItem_def readValue.simps linorder_not_less [symmetric])
  qed (auto simp: go_bind_Inr_iff readValue.simps dest: S)
  show "round_trips (TArmed a fs)"
    unfolding round_trips_def reads_back_def item_back_def kept_norm
  proof (intro conjI allI impI)
    fix b r
    assume w: "wire_ok True (TArmed a fs)" and f: "fits_mem (b @ r)"
      and "encodeValue (TArmed a fs) = Inr (typeByte (TArmed a fs), b)"
    then obtain b' where e: "encodeStruct fs False = Inr b'" and b: "b = a # b'"
      by (auto simp: go_bind_Inr_iff)
    show "b \<noteq> []" by (simp add: b)
    have "fits_mem (b' @ r)" using f by (simp add: b fits_mem_def)
    from S [OF e this] w b
    show "readItem (typeByte (TArmed a fs)) (b @ r) = Inr (TArmed a (kept (sortedKeys fs)), int (length b))"
      by (simp add: readItem_def)
  qed simp_all
qed

lemma round_trips_list:
  assumes "\<forall>x \<in> set xs. round_trips x"
  shows "round_trips (TList xs)"
proof -
  from assms have x: "\<forall>x \<in> set xs. item_back x" by (simp add: round_trips_def)
  show ?thesis
  proof (rule item_of_reads)
    show "reads_back (TList xs)"
      unfolding reads_back_def
    proof (intro allI impI)
      fix b r assume w: "wire_ok False (TList xs)" and f: "fits_mem (b @ r)"
        and e: "encodeValue (TList xs) = Inr (typeByte (TList xs), b)"
      obtain x ys where xs: "xs = x # ys" using w by (cases xs) auto
      have "encodeValue (TList xs) = go_bind (encodeValue x) (\<lambda>(elemType, _).
          go_bind (encodeElems xs) (\<lambda>b.
            Inr (4, elemType # EncodeVarsizeInteger (of_nat (length xs)) @ b)))"
        by (simp add: xs del: encodeElems.simps)
      with e obtain ty xb bs where xb: "encodeValue x = Inr (ty, xb)" and bs: "encodeElems xs = Inr bs"
        and b: "b = ty # EncodeVarsizeInteger (of_nat (length xs)) @ bs"
        by (auto simp: go_bind_Inr_iff simp del: encodeElems.simps encodeValue.simps)
      have "\<forall>x \<in> set xs. typeByte x = ty \<and> wire_ok True x \<and> item_back x"
        using w x xs encodeValue_type [OF xb] by simp
      from list_back [OF f b this bs]
      show "b \<noteq> [] \<and> readValue (typeByte (TList xs)) (b @ r) = Inr (norm (TList xs), int (length b))"
        by (simp add: b)
    qed
  qed simp_all
qed

lemma round_trips_typed:
  assumes "\<forall>x \<in> set xs. round_trips x"
  shows "round_trips (TTyped t xs)"
proof -
  from assms have x: "\<forall>x \<in> set xs. item_back x" by (simp add: round_trips_def)
  show ?thesis
  proof (rule item_of_reads)
    show "reads_back (TTyped t xs)"
      unfolding reads_back_def
    proof (intro allI impI)
      fix b r assume w: "wire_ok False (TTyped t xs)" and f: "fits_mem (b @ r)"
        and e: "encodeValue (TTyped t xs) = Inr (typeByte (TTyped t xs), b)"
      from e obtain bs where "encodeElems xs = Inr bs"
        and "b = t # EncodeVarsizeInteger (of_nat (length xs)) @ bs"
        by (auto simp: go_bind_Inr_iff)
      with list_back [OF f, of t xs bs] w x
      show "b \<noteq> [] \<and> readValue (typeByte (TTyped t xs)) (b @ r) = Inr (norm (TTyped t xs), int (length b))"
        by auto
    qed
  qed simp_all
qed

lemma round_trips_map:
  assumes "\<forall>(k, v) \<in> set m. round_trips k \<and> round_trips v"
  shows "round_trips (TMap m)"
proof -
  from assms have kv: "\<forall>(k, v) \<in> set m. reads_back k \<and> reads_back v"
    by (auto simp: round_trips_def)
  show ?thesis
  proof (rule item_of_reads)
    show "reads_back (TMap m)"
      unfolding reads_back_def
    proof (intro allI impI)
      fix b r assume w: "wire_ok False (TMap m)" and f: "fits_mem (b @ r)"
        and e: "encodeValue (TMap m) = Inr (typeByte (TMap m), b)"
      define kt where "kt = typeByte (fst (hd m))"
      define vt where "vt = typeByte (snd (hd m))"
      note fm = wire_ok_fetched [OF w]
      have E: "\<forall>kv \<in> set (sorted_entries m). entry_back kt vt kv"
        using w kv by (auto simp: entry_back_def kt_def vt_def)
      have "sorted_entries m \<noteq> []" using w fm [symmetric] by simp
      then obtain k v r' where kvr: "sorted_entries m = (k, v) # r'" by (metis list.exhaust prod.exhaust)
      then have kvm: "(k, v) \<in> set m" by (metis list.set_intros(1) set_sorted_entries)
      from e kvr obtain bs kt' where bs: "encodePairs (sorted_entries m) = Inr bs"
        and k: "\<exists>kb. encodeValue k = Inr (kt', kb)"
        and b: "b = kt' # leafType v # EncodeVarsizeInteger (of_nat (length m)) @ bs"
        by (auto simp: fm go_bind_Inr_iff simp del: encodePairs.simps)
      have "kt' = kt" "leafType v = vt"
        using k w kvm by (auto simp: kt_def vt_def dest: encodeValue_type)
      then have b: "b = kt # vt # EncodeVarsizeInteger (of_nat (length (sorted_entries m))) @ bs"
        using b by simp
      from map_back [OF f b E bs] w
      show "b \<noteq> [] \<and> readValue (typeByte (TMap m)) (b @ r) = Inr (norm (TMap m), int (length b))"
        by (auto simp: b)
    qed
  qed simp_all
qed

lemma round_trips_union:
  assumes "round_trips v"
  shows "round_trips (TUnion a g v)"
proof -
  from assms have v: "reads_back v" by (simp add: round_trips_def)
  show ?thesis
  proof (rule item_of_reads)
    show "reads_back (TUnion a g v)"
      unfolding reads_back_def
    proof (intro allI impI)
      fix b r assume w: "wire_ok False (TUnion a g v)" and f: "fits_mem (b @ r)"
        and e: "encodeValue (TUnion a g v) = Inr (typeByte (TUnion a g v), b)"
      show "b \<noteq> [] \<and> readValue (typeByte (TUnion a g v)) (b @ r) = Inr (norm (TUnion a g v), int (length b))"
      proof (cases "a = 0xff \<or> a = 0x7f")
        case True
        with e show ?thesis by (auto simp: readValue.simps)
      next
        case False
        with e obtain ty vb where vb: "encodeValue v = Inr (ty, vb)" and b: "b = a # encodeTag g @ ty # vb"
          by (auto simp: go_bind_Inr_iff)
        have ty: "ty = typeByte v" by (rule encodeValue_type [OF vb])
        have "readValue ty (vb @ r) = Inr (norm v, int (length vb))"
          using v w False vb f by (simp add: reads_back_def ty b fits_mem_def)
        with w False have "readElement (encodeTag g @ ty # vb @ r) = Inr (g, norm v, 4 + int (length vb))"
          using element_back [of g ty vb r "norm v"] by simp
        with False show ?thesis by (simp add: b readValue.simps [of 6] Let_def)
      qed
    qed
  qed simp_all
qed

lemma variable_back:
  assumes "readElement (e @ 0 # r) = Inr (g, v, int (length e))"
  shows "readValue 7 (0x01 # EncodeVarsizeInteger (ucast i) @ e @ 0 # r) =
    Inr (TVar i g v, int (length (EncodeVarsizeInteger (ucast i)) + length e + 2))"
proof -
  define n where "n = EncodeVarsizeInteger (ucast i)"
  have d: "DecodeVarsizeInteger (n @ e @ 0 # r) = (ucast i, length n)"
    unfolding n_def by (rule Decode_Encode)
  have "(0x01 # n @ e @ 0 # r) ! (1 + length n + length e) = 0" by (simp add: nth_append)
  moreover have "(ucast (ucast i :: i64) :: u32) = i" by (simp add: ucast_up_ucast_id is_up)
  ultimately show ?thesis
    using assms by (simp add: readValue.simps readVariable.simps n_def [symmetric] d)
qed

lemma round_trips_var:
  assumes "round_trips v"
  shows "round_trips (TVar i g v)"
proof -
  from assms have v: "reads_back v" by (simp add: round_trips_def)
  show ?thesis
  proof (rule item_of_reads)
    show "reads_back (TVar i g v)"
      unfolding reads_back_def
    proof (intro allI impI)
      fix b r assume w: "wire_ok False (TVar i g v)" and f: "fits_mem (b @ r)"
        and e: "encodeValue (TVar i g v) = Inr (typeByte (TVar i g v), b)"
      show "b \<noteq> [] \<and> readValue (typeByte (TVar i g v)) (b @ r) = Inr (norm (TVar i g v), int (length b))"
      proof (cases "v = TNil")
        case True
        with e show ?thesis by (auto simp: readValue.simps readVariable.simps)
      next
        case False
        with e obtain ty vb where vb: "encodeValue v = Inr (ty, vb)"
          and b: "b = 0x01 # EncodeVarsizeInteger (ucast i) @ encodeTag g @ ty # vb @ [0x00]"
          by (auto simp: go_bind_Inr_iff)
        have ty: "ty = typeByte v" by (rule encodeValue_type [OF vb])
        have "readValue ty (vb @ (0 # r)) = Inr (norm v, int (length vb))"
          using v w False vb f by (simp add: reads_back_def ty b fits_mem_def)
        with w False have "readElement ((encodeTag g @ ty # vb) @ 0 # r) =
            Inr (g, norm v, int (length (encodeTag g @ ty # vb)))"
          using element_back [of g ty vb "0 # r" "norm v"] by simp
        from variable_back [OF this, of i] False show ?thesis by (simp add: b)
      qed
    qed
  qed simp_all
qed

lemma scalar_back:
  "reads_back TNil" "reads_back (TInt n)" "reads_back (TBool c)" "reads_back (TFloat w)"
  "reads_back (TObjType p t)" "reads_back (TObjId p t i)"
proof -
  have u: "ucast (ucast p :: i64) = p" for p :: u16 by (simp add: ucast_up_ucast_id is_up)
  have "length (put_u32 w @ r) < 4 \<longleftrightarrow> False" for r by simp
  moreover have "take 4 (put_u32 w @ r) = put_u32 w" for r by simp
  ultimately show "reads_back (TFloat w)"
    using get_put_u32 [of w "[]"] by (simp add: reads_back_def readValue.simps put_u32_def)
qed (simp_all add: reads_back_def readValue.simps Let_def ucast_up_ucast_id is_up)

lemma round_trips_all: "round_trips v"
proof (induction v)
  case (TStruct fs)
  then show ?case by (intro struct_back) (auto simp: snds.simps)
next
  case (TArmed a fs)
  then show ?case by (intro struct_back) (auto simp: snds.simps)
next
  case (TList xs)
  then show ?case by (simp add: round_trips_list)
next
  case (TTyped t xs)
  then show ?case by (simp add: round_trips_typed)
next
  case (TMap m)
  then show ?case by (intro round_trips_map) (auto simp: fsts.simps snds.simps)
next
  case (TUnion a g v)
  then show ?case by (rule round_trips_union)
next
  case (TVar i g v)
  then show ?case by (rule round_trips_var)
next
  case (TStr s)
  show ?case
    by (rule item_of_reads) (simp_all add: reads_back_def str_back [OF _ refl, simplified])
next
  case (TBlob s)
  show ?case
    by (rule item_of_reads) (simp_all add: reads_back_def blob_back [OF _ refl, simplified])
qed (intro item_of_reads; simp add: scalar_back)+

lemma wire_ok_encodable: "wire_ok e v \<Longrightarrow> encodable v"
  by (induction e v rule: wire_ok.induct) auto

section \<open>Whole messages\<close>

lemma distinct_sortedKeys: "distinct (map fst fs) \<Longrightarrow> distinct (map fst (sortedKeys fs))"
  by (metis card_distinct distinct_card length_map set_map set_sortedKeys length_sortedKeys)

text \<open>The fields that arrive: \<open>kept\<close> of the sorted ones, and what a lookup in them returns.\<close>

definition arrived :: "fields \<Rightarrow> fields" where
  "arrived fs = kept (sortedKeys fs)"

lemma map_of_kept:
  "distinct (map fst fs) \<Longrightarrow> map_of (kept fs) t =
     (case map_of fs t of None \<Rightarrow> None | Some v \<Rightarrow> if isEmptyCollection v then None else Some (norm v))"
proof (induction fs)
  case (Cons tv fs)
  obtain u v where tv: "tv = (u, v)" by (cases tv)
  have "map_of fs u = None" using Cons.prems by (simp add: tv map_of_eq_None_iff)
  with Cons show ?case by (auto simp: tv)
qed simp

lemma map_of_arrived:
  assumes "distinct (map fst fs)"
  shows "map_of (arrived fs) t =
    (case map_of fs t of None \<Rightarrow> None | Some v \<Rightarrow> if isEmptyCollection v then None else Some (norm v))"
  unfolding arrived_def
  using map_of_kept [OF distinct_sortedKeys [OF assms]] by (simp add: map_of_sortedKeys assms)

lemma encode_decode_root:
  assumes w: "wire_ok False (TStruct fs)" and e: "EncodeTDF fs = Inr b" and f: "fits_mem b"
  shows "DecodeTDF b = Inr (arrived fs, int (length b))"
proof -
  have b: "encodeFields (sortedKeys fs) = Inr b"
    using e by (auto simp: EncodeTDF_def encodeStruct.simps go_bind_Inr_iff)
  have "readFields [] 0 (b @ []) = readFields ([] @ kept (sortedKeys fs)) (0 + length b) []"
  proof (rule encodeFields_back)
    show "\<forall>tv \<in> set (sortedKeys fs). field_back tv"
      using w round_trips_all by (auto simp: field_back_def round_trips_def)
    show "distinct (map fst (sortedKeys fs))" using w by (simp add: distinct_sortedKeys)
    show "fits_mem (b @ [])" using f by simp
  qed (simp_all add: b)
  then show ?thesis
    by (simp add: DecodeTDF_def readStruct_def readFields.simps [of _ _ "[]"] arrived_def)
qed

text \<open>
  Claim C6. The TDF codec round-trips: a message the format can carry is encoded without a
  panic, and the decoder reads back, consuming every byte, exactly its fields: in tag order,
  without the empty collections, each value in its canonical form.
\<close>

theorem TDF_roundtrip:
  assumes "wire_ok False (TStruct fs)"
  shows "\<exists>b. EncodeTDF fs = Inr b \<and> (length b \<le> 2 ^ 44 \<longrightarrow>
    DecodeTDF b = Inr (arrived fs, int (length b)) \<and>
    (\<forall>t. map_of (arrived fs) t =
      (case map_of fs t of None \<Rightarrow> None | Some v \<Rightarrow> if isEmptyCollection v then None else Some (norm v))))"
proof -
  have "\<forall>(t, v) \<in> set fs. isEmptyCollection v \<or> encodable v"
    using assms wire_ok_encodable by auto
  then obtain b where b: "EncodeTDF fs = Inr b"
    using encodeStruct_ok [of fs True] by (auto simp: EncodeTDF_def)
  then show ?thesis
    using encode_decode_root [OF assms b] map_of_arrived assms by (auto simp: fits_mem_def)
qed

text \<open>
  A nested value (the element of a list, the payload of a union, a struct inside a
  struct) also round-trips, whatever bytes follow it.
\<close>

lemma value_roundtrip:
  assumes "wire_ok False v"
  shows "\<exists>b. encodeValue v = Inr (typeByte v, b) \<and>
    (\<forall>r. length b + length r \<le> 2 ^ 44 \<longrightarrow> readValue (typeByte v) (b @ r) = Inr (norm v, int (length b)))"
proof -
  obtain b where b: "encodeValue v = Inr (typeByte v, b)"
    using encodeValue_total [of v] encodable_encodes [OF wire_ok_encodable [OF assms]] by (auto simp: enc_total_def)
  moreover have "readValue (typeByte v) (b @ r) = Inr (norm v, int (length b))"
    if "length b + length r \<le> 2 ^ 44" for r
    using round_trips_all [of v] assms b that by (simp add: round_trips_def reads_back_def fits_mem_def)
  ultimately show ?thesis by blast
qed

lemma value_roundtrip_witness:
  "\<exists>b. encodeValue (TList [TInt 5, TInt (- 70)]) = Inr (4, b) \<and>
    (\<forall>r. length b + length r \<le> 2 ^ 44 \<longrightarrow>
      readValue 4 (b @ r) = Inr (TList [TInt 5, TInt (- 70)], int (length b)))"
  using value_roundtrip [of "TList [TInt 5, TInt (- 70)]"] by simp

theorem TDF_roundtrip_witness:
  "\<exists>b. EncodeTDF [(''NAME'', TStr ''x''), (''ATTR'', TMap []), (''ADDR'', TStruct [(''PORT'', TInt 3659)])] = Inr b \<and>
    (length b \<le> 2 ^ 44 \<longrightarrow>
      DecodeTDF b = Inr ([(''ADDR'', TStruct [(''PORT'', TInt 3659)]), (''NAME'', TStr ''x'')], int (length b)))"
proof -
  let ?fs = "[(''NAME'', TStr ''x''), (''ATTR'', TMap []), (''ADDR'', TStruct [(''PORT'', TInt 3659)])]"
  have "wire_ok False (TStruct ?fs)"
    by (simp add: field_ok_def tag_char_def tag_upper_def byte_of_def)
  moreover have "arrived ?fs = [(''ADDR'', TStruct [(''PORT'', TInt 3659)]), (''NAME'', TStr ''x'')]"
    by (simp add: arrived_def kept_def sortedKeys_def)
  ultimately show ?thesis using TDF_roundtrip [of ?fs] by auto
qed

text \<open>
  Claim C30. Encoding ends in a run-time panic, always an index out of range, exactly when
  what the encoder reads of the value holds an empty list or map that is not itself the value of a
  struct field (\<open>encodes\<close>; of a map it reads the keys and the values it finds under them, nil under a NaN);
  otherwise the type byte written is the one \<open>typeByte\<close> gives.
\<close>

theorem encodeValue_panics_iff:
  "(if encodes v then \<exists>b. encodeValue v = Inr (typeByte v, b) else encodeValue v = Inl IndexRange)"
  using encodeValue_total [of v] by (simp add: enc_total_def)

end
