(* ===== verification/Fire2.thy ===== *)
theory Fire2
  imports Tdf_Roundtrip
begin

text \<open>
  FIRE2 packets (Fire2.go, Fire2Types.go and the builder of Fire2Encoder.go): the 16-byte
  header, the metadata and payload structs behind it, the scan \<open>FindTagInt\<close> for a tag the
  structural decoder does not reach, and the fluent \<open>Encoder\<close>.  The rendering of the payload
  that \<open>Fire2Decoder\<close> returns beside the packet, for the log, is in Logging.
\<close>

record Header =
  PayloadSize :: u32
  MetadataSize :: u16
  ComponentID :: u16
  CommandID :: u16
  MessageNumber :: u32
  MessageType :: u8
  UserIndex :: u8
  Options :: u8

record BlazeError =
  Component :: u16
  Code :: u32

text \<open>A nil map is \<open>None\<close>.\<close>

record Packet =
  Header :: Header
  Payload :: "fields option"
  Metadata :: "fields option"
  RawPayload :: bytes
  Error :: "BlazeError option"

definition fields_of :: "fields option \<Rightarrow> fields" where
  "fields_of m = (case m of Some fs \<Rightarrow> fs | None \<Rightarrow> [])"

definition MsgErrorReply :: u8 where
  "MsgErrorReply = 3"

definition put_u24 :: "u32 \<Rightarrow> bytes" where
  "put_u24 w = [ucast (drop_bit 16 w), ucast (drop_bit 8 w), ucast w]"

definition get_u24 :: "bytes \<Rightarrow> u32" where
  "get_u24 b = push_bit 16 (ucast (b ! 0)) OR push_bit 8 (ucast (b ! 1)) OR ucast (b ! 2)"

section \<open>Decoding\<close>

definition Fire2Decoder :: "bytes \<Rightarrow> Packet option go" where
  "Fire2Decoder buffer0 =
     (if length buffer0 < 16 then Inr None
      else
        go_bind (PopBuffer buffer0 16) (\<lambda>(header0, buffer1).
        go_bind (PopBuffer header0 4) (\<lambda>(payloadSize, header1).
        go_bind (PopBuffer header1 2) (\<lambda>(metadataSize, header2).
        go_bind (PopBuffer header2 2) (\<lambda>(componentID, header3).
        go_bind (PopBuffer header3 2) (\<lambda>(commandID, header4).
        go_bind (PopBuffer header4 3) (\<lambda>(messageNum, header5).
        go_bind (PopBuffer header5 1) (\<lambda>(messageType, header6).
        go_bind (PopBuffer header6 1) (\<lambda>(options, _).
        let metadataSizeValue = get_u16 metadataSize;
            componentIDValue = get_u16 componentID;
            messageTypeValue = drop_bit 5 (messageType ! 0)
        in
        go_bind
          (if 0 < metadataSizeValue
           then if length buffer1 < unat metadataSizeValue then Inl SliceBounds
                else go_bind (DecodeTDF (take (unat metadataSizeValue) buffer1)) (\<lambda>(m, _).
                       Inr (Some m, drop (unat metadataSizeValue) buffer1))
           else Inr (None, buffer1)) (\<lambda>(metadata, buffer).
        let errCode = ucast (int_field (fields_of metadata) ''ERRC'') :: u32;
            blazeErr = (if messageTypeValue = MsgErrorReply \<or> errCode \<noteq> 0
                        then Some \<lparr>Component = componentIDValue, Code = errCode\<rparr> else None)
        in
        go_bind
          (if buffer \<noteq> []
           then go_bind (DecodeTDF buffer) (\<lambda>(p, n). Inr (if n < 0 then None else Some p))
           else Inr None) (\<lambda>payload.
        Inr (Some
          \<lparr>Header = \<lparr>PayloadSize = get_u32 payloadSize, MetadataSize = metadataSizeValue,
             ComponentID = componentIDValue, CommandID = get_u16 commandID,
             MessageNumber = get_u24 messageNum, MessageType = messageTypeValue,
             UserIndex = messageType ! 0 AND 0x1f, Options = options ! 0\<rparr>,
           Payload = payload, Metadata = metadata, RawPayload = buffer, Error = blazeErr\<rparr>))))))))))))"

text \<open>\<open>None\<close> is the result \<open>0, false\<close>.\<close>

fun find_tag :: "bytes \<Rightarrow> bytes \<Rightarrow> i64 option" where
  "find_tag t (a # b # c # ty # rest) =
     (if a = t ! 0 \<and> b = t ! 1 \<and> c = t ! 2 \<and> ty = 0
      then (case DecodeVarsizeInteger rest of
              (v, n) \<Rightarrow> if 0 < n then Some v else find_tag t (b # c # ty # rest))
      else find_tag t (b # c # ty # rest))"
| "find_tag t _ = None"

definition FindTagInt :: "bytes \<Rightarrow> string \<Rightarrow> i64 option" where
  "FindTagInt raw tag = find_tag (encodeTag tag) raw"

section \<open>Encoding\<close>

definition EncodePacket :: "Packet \<Rightarrow> bytes go" where
  "EncodePacket pkt =
     go_bind (encodeStruct (fields_of (Payload pkt)) True) (\<lambda>payload.
     go_bind (case Metadata pkt of None \<Rightarrow> Inr [] | Some m \<Rightarrow> encodeStruct m True) (\<lambda>metadata.
     let h = Header pkt in
     Inr (put_u32 (of_nat (length payload)) @ put_u16 (of_nat (length metadata)) @
          put_u16 (ComponentID h) @ put_u16 (CommandID h) @ put_u24 (MessageNumber h) @
          [push_bit 5 (MessageType h) OR (UserIndex h AND 0x1f), Options h, 0] @
          metadata @ payload)))"

definition BuildRawFrame :: "u16 \<Rightarrow> u16 \<Rightarrow> u8 \<Rightarrow> u32 \<Rightarrow> bytes \<Rightarrow> bytes" where
  "BuildRawFrame component cmd msgType msgNum payload =
     put_u32 (of_nat (length payload)) @ [0, 0] @ put_u16 component @ put_u16 cmd @ put_u24 msgNum @
     [push_bit 5 msgType, 0, 0] @ payload"

section \<open>The builder\<close>

text \<open>
  The structs of an \<open>Encoder\<close> are Go maps, which are shared by reference: \<open>maps\<close> is the store, a map at every
  address, \<open>stack\<close> the addresses of the open structs, the root first.  A map holds values, or a
  reference to the map of a child struct.
\<close>

datatype slot = Val tdf | Child nat

type_synonym store = "(string \<times> slot) list list"

record Encoder =
  header :: Header
  maps :: store
  stack :: "nat list"

definition Fire2Encoder :: "u16 \<Rightarrow> u16 \<Rightarrow> u8 \<Rightarrow> Encoder" where
  "Fire2Encoder component command msgType =
     \<lparr>header = \<lparr>PayloadSize = 0, MetadataSize = 0, ComponentID = component, CommandID = command,
        MessageNumber = 0, MessageType = msgType, UserIndex = 0, Options = 0\<rparr>,
      maps = [[]], stack = [0]\<rparr>"

definition enc_top :: "Encoder \<Rightarrow> nat" where
  "enc_top e = last (stack e)"

text \<open>\<open>m[tag] = value\<close> for the map at an address.\<close>

definition store_put :: "nat \<Rightarrow> string \<Rightarrow> slot \<Rightarrow> store \<Rightarrow> store" where
  "store_put a tag s ms = ms[a := AList.update tag s (ms ! a)]"

text \<open>\<open>e.top()[tag] = value\<close>; all the setters of the builder are this assignment.\<close>

definition Raw :: "string \<Rightarrow> tdf \<Rightarrow> Encoder \<Rightarrow> Encoder" where
  "Raw tag v e = e\<lparr>maps := store_put (enc_top e) tag (Val v) (maps e)\<rparr>"

text \<open>The child is a new map, attached to the struct around it at once, and then the innermost struct.\<close>

definition BeginStruct :: "string \<Rightarrow> Encoder \<Rightarrow> Encoder" where
  "BeginStruct tag e =
     (let child = length (maps e) in
      e\<lparr>maps := store_put (enc_top e) tag (Child child) (maps e @ [[]]), stack := stack e @ [child]\<rparr>)"

definition EndStruct :: "Encoder \<Rightarrow> Encoder" where
  "EndStruct e = (if 1 < length (stack e) then e\<lparr>stack := butlast (stack e)\<rparr> else e)"

text \<open>
  The struct a map is, read through its references.  A child is allocated after the map it is attached to; the
  test only says so to the termination proof (\<open>store_ok\<close> below).
\<close>

function read_map :: "store \<Rightarrow> nat \<Rightarrow> fields" where
  "read_map ms a =
     map (\<lambda>(tag, s). (tag, case s of
         Val v \<Rightarrow> v
       | Child c \<Rightarrow> if a < c \<and> c < length ms then TStruct (read_map ms c) else TNil)) (ms ! a)"
  by pat_completeness auto

termination
  by (relation "measure (\<lambda>(ms, a). length ms - a)") auto

declare read_map.simps [simp del]

definition Build :: "Encoder \<Rightarrow> bytes go" where
  "Build e = EncodePacket \<lparr>Header = header e, Payload = Some (read_map (maps e) (hd (stack e))),
     Metadata = None, RawPayload = [], Error = None\<rparr>"

text \<open>
  The Go values \<open>coerce\<close> tells apart: the integer types other than \<open>int64\<close>, and everything that is
  already a TDF value.
\<close>

datatype go_arg = GoInt i64 | GoUint16 u16 | GoUint32 u32 | GoValue tdf

definition coerce :: "u8 \<Rightarrow> go_arg \<Rightarrow> go_arg" where
  "coerce typeCode v =
     (if typeCode = 0 \<or> typeCode = 11
      then (case v of
              GoInt n \<Rightarrow> GoValue (TInt n)
            | GoUint16 n \<Rightarrow> GoValue (TInt (ucast n))
            | GoUint32 n \<Rightarrow> GoValue (TInt (ucast n))
            | GoValue (TBool b) \<Rightarrow> GoValue (TInt (if b then 1 else 0))
            | _ \<Rightarrow> v)
      else v)"

text \<open>The typed setters; \<open>UserIndex\<close> and \<open>MsgNum\<close> set fields of the header.\<close>

definition Integer :: "string \<Rightarrow> i64 \<Rightarrow> Encoder \<Rightarrow> Encoder" where
  "Integer tag v = Raw tag (TInt v)"

definition String :: "string \<Rightarrow> string \<Rightarrow> Encoder \<Rightarrow> Encoder" where
  "String tag v = Raw tag (TStr v)"

definition Bool :: "string \<Rightarrow> bool \<Rightarrow> Encoder \<Rightarrow> Encoder" where
  "Bool tag v = Raw tag (TBool v)"

definition Blob :: "string \<Rightarrow> bytes \<Rightarrow> Encoder \<Rightarrow> Encoder" where
  "Blob tag v = Raw tag (TBlob v)"

definition Float :: "string \<Rightarrow> u32 \<Rightarrow> Encoder \<Rightarrow> Encoder" where
  "Float tag v = Raw tag (TFloat v)"

definition MsgNum :: "u32 \<Rightarrow> Encoder \<Rightarrow> Encoder" where
  "MsgNum n e = e\<lparr>header := (header e)\<lparr>MessageNumber := n\<rparr>\<rparr>"

definition SetUserIndex :: "u8 \<Rightarrow> Encoder \<Rightarrow> Encoder" where
  "SetUserIndex n e = e\<lparr>header := (header e)\<lparr>UserIndex := n\<rparr>\<rparr>"

definition ObjectType :: "string \<Rightarrow> u16 \<Rightarrow> u16 \<Rightarrow> Encoder \<Rightarrow> Encoder" where
  "ObjectType tag component typ = Raw tag (TObjType component typ)"

definition ObjectID :: "string \<Rightarrow> u16 \<Rightarrow> u16 \<Rightarrow> i64 \<Rightarrow> Encoder \<Rightarrow> Encoder" where
  "ObjectID tag component typ ident = Raw tag (TObjId component typ ident)"

definition Union :: "string \<Rightarrow> u8 \<Rightarrow> string \<Rightarrow> tdf \<Rightarrow> Encoder \<Rightarrow> Encoder" where
  "Union tag activeMember field v = Raw tag (TUnion activeMember field v)"

definition Variable :: "string \<Rightarrow> u32 \<Rightarrow> string \<Rightarrow> tdf \<Rightarrow> Encoder \<Rightarrow> Encoder" where
  "Variable tag tdfID field v = Raw tag (TVar tdfID field v)"

text \<open>
  \<open>List\<close> and \<open>Map\<close> coerce what they are given.  A plain Go integer that \<open>coerce\<close> leaves alone is no
  value of the format (\<open>encodeValue\<close> does not know its type); the result is then \<open>None\<close>.  A map with an
  unhashable key panics.
\<close>

definition coerced :: "u8 \<Rightarrow> go_arg \<Rightarrow> tdf option" where
  "coerced typeCode v = (case coerce typeCode v of GoValue x \<Rightarrow> Some x | _ \<Rightarrow> None)"

definition List :: "string \<Rightarrow> u8 \<Rightarrow> go_arg list \<Rightarrow> Encoder \<Rightarrow> Encoder option" where
  "List tag elemType elems e =
     map_option (\<lambda>out. Raw tag (TList out) e) (those (map (coerced elemType) elems))"

fun map_entries :: "(tdf \<times> tdf) list \<Rightarrow> tmap \<Rightarrow> tmap go" where
  "map_entries [] outMap = Inr outMap"
| "map_entries ((k, v) # entries) outMap = go_bind (tmap_assign k v outMap) (map_entries entries)"

definition coerced_entry :: "u8 \<Rightarrow> u8 \<Rightarrow> go_arg \<times> go_arg \<Rightarrow> (tdf \<times> tdf) option" where
  "coerced_entry keyType valType entry =
     (case (coerced keyType (fst entry), coerced valType (snd entry)) of
        (Some k, Some v) \<Rightarrow> Some (k, v)
      | _ \<Rightarrow> None)"

definition Map :: "string \<Rightarrow> u8 \<Rightarrow> u8 \<Rightarrow> (go_arg \<times> go_arg) list \<Rightarrow> Encoder \<Rightarrow> Encoder go option" where
  "Map tag keyType valType entries e =
     map_option (\<lambda>kvs. go_bind (map_entries kvs []) (\<lambda>outMap. Inr (Raw tag (TMap outMap) e)))
       (those (map (coerced_entry keyType valType) entries))"

section \<open>Packets come back\<close>

lemma below_bits:
  assumes "unat (w :: 'a::len word) < 2 ^ k" and "bit w n"
  shows "n < k"
proof (rule ccontr)
  assume "\<not> n < k"
  then have "(2::nat) ^ k \<le> 2 ^ n" by (intro power_increasing) simp_all
  with assms(1) have "unat w < 2 ^ n" by linarith
  then have "\<not> bit (unat w) n" by (simp add: bit_iff_odd)
  with assms(2) show False by (simp add: bit_unsigned_iff bit_imp_le_length)
qed

lemma get_put_u24:
  assumes "w < 2 ^ 24"
  shows "get_u24 (put_u24 w) = w"
proof (rule bit_word_eqI)
  fix n assume n: "n < LENGTH(32)"
  have "unat w < 2 ^ 24" using assms by (simp add: word_less_nat_alt)
  then have hi: "\<not> bit w n" if "24 \<le> n" using below_bits [of w 24 n] that by auto
  consider "n < 8" | "8 \<le> n" "n < 16" | "16 \<le> n" "n < 24" | "24 \<le> n" "n < 32"
    using n by fastforce
  then show "bit (get_u24 (put_u24 w)) n = bit w n"
    by cases (auto simp: get_u24_def put_u24_def bit_simps hi)
qed

lemma type_byte_fields:
  fixes ty ui :: u8
  assumes "ty < 8" and "ui < 32"
  shows "drop_bit 5 (push_bit 5 ty OR (ui AND 0x1f)) = ty" and "(push_bit 5 ty OR (ui AND 0x1f)) AND 0x1f = ui"
proof -
  have t: "bit ty n \<Longrightarrow> n < 3" for n using below_bits [of ty 3 n] assms(1) by (simp add: word_less_nat_alt)
  have u: "bit ui n \<Longrightarrow> n < 5" for n using below_bits [of ui 5 n] assms(2) by (simp add: word_less_nat_alt)
  have m: "bit (31 :: int) n \<longleftrightarrow> n < 5" for n
    using bit_mask_iff [where 'a = int, of 5 n] by (simp add: mask_eq_exp_minus_1)
  show "drop_bit 5 (push_bit 5 ty OR (ui AND 0x1f)) = ty"
    using t by (intro bit_word_eqI) (fastforce simp: bit_simps m)
  show "(push_bit 5 ty OR (ui AND 0x1f)) AND 0x1f = ui"
    by (intro bit_word_eqI) (auto simp: bit_simps m dest: u)
qed

lemma length_put_u24 [simp]: "length (put_u24 w) = 3"
  by (simp add: put_u24_def)

definition header_bytes :: "u32 \<Rightarrow> u16 \<Rightarrow> u16 \<Rightarrow> u16 \<Rightarrow> bytes \<Rightarrow> u8 \<Rightarrow> u8 \<Rightarrow> bytes" where
  "header_bytes plen mlen component cmd num t opts =
     put_u32 plen @ put_u16 mlen @ put_u16 component @ put_u16 cmd @ num @ [t, opts, 0]"

definition blaze_error :: "u16 \<Rightarrow> u8 \<Rightarrow> fields \<Rightarrow> BlazeError option" where
  "blaze_error component ty m =
     (let errCode = ucast (int_field m ''ERRC'') in
      if ty = MsgErrorReply \<or> errCode \<noteq> 0 then Some \<lparr>Component = component, Code = errCode\<rparr> else None)"

lemma Fire2Decoder_header_bytes:
  assumes num: "length num = 3" and m: "length mb = unat mlen"
    and dm: "mb \<noteq> [] \<Longrightarrow> DecodeTDF mb = Inr (m, mn)"
    and dp: "pb \<noteq> [] \<Longrightarrow> DecodeTDF pb = Inr (p, pn)"
  shows "Fire2Decoder (header_bytes plen mlen component cmd num t opts @ mb @ pb) = Inr (Some
    \<lparr>Header = \<lparr>PayloadSize = plen, MetadataSize = mlen, ComponentID = component, CommandID = cmd,
       MessageNumber = get_u24 num, MessageType = drop_bit 5 t, UserIndex = t AND 0x1f, Options = opts\<rparr>,
     Payload = (if pb = [] \<or> pn < 0 then None else Some p),
     Metadata = (if mb = [] then None else Some m), RawPayload = pb,
     Error = blaze_error component (drop_bit 5 t) (if mb = [] then [] else m)\<rparr>)"
proof -
  obtain x y z where xyz: "num = [x, y, z]"
    using num by (auto simp: length_Suc_conv numeral_3_eq_3)
  have pos: "0 < mlen \<longleftrightarrow> mb \<noteq> []"
    using m by (cases mb) (auto simp: word_less_nat_alt)
  have z: "get_u16 (put_u16 w) = w" "get_u32 (put_u32 v) = v" for w v
    using get_put_u16 [of w "[]"] get_put_u32 [of v "[]"] by simp_all
  show ?thesis
    using m dm dp
    by (cases "mb = []"; cases "pb = []")
       (simp_all add: Fire2Decoder_def header_bytes_def PopBuffer_def xyz pos z Let_def blaze_error_def
          fields_of_def int_field_def)
qed

text \<open>
  Claim C35. A FIRE2 packet round-trips: payload and metadata come back as the structs that
  were encoded (nil when they encode to nothing), the header comes back with the two sizes
  filled in, and the packet carries a \<open>BlazeError\<close> exactly when it is an error reply or its
  metadata has a non-zero \<open>ERRC\<close>.
\<close>

theorem Fire2_roundtrip:
  assumes "wire_ok False (TStruct p)" and "wire_ok False (TStruct m)"
    and h: "MessageType h < 8" "UserIndex h < 32" "MessageNumber h < 2 ^ 24"
    and pb: "EncodeTDF p = Inr pb" "length pb < 2 ^ 32" and mb: "EncodeTDF m = Inr mb" "length mb < 2 ^ 16"
  shows "\<exists>b. EncodePacket \<lparr>Header = h, Payload = Some p, Metadata = Some m, RawPayload = rp, Error = er\<rparr> = Inr b \<and>
    Fire2Decoder b = Inr (Some
      \<lparr>Header = h\<lparr>PayloadSize := of_nat (length pb), MetadataSize := of_nat (length mb)\<rparr>,
       Payload = (if pb = [] then None else Some (arrived p)),
       Metadata = (if mb = [] then None else Some (arrived m)), RawPayload = pb,
       Error = blaze_error (ComponentID h) (MessageType h) (if mb = [] then [] else arrived m)\<rparr>)"
proof -
  define t where "t = push_bit 5 (MessageType h) OR (UserIndex h AND 0x1f)"
  have t: "drop_bit 5 t = MessageType h" "t AND 0x1f = UserIndex h"
    unfolding t_def by (fact type_byte_fields [OF h(1,2)])+
  have "DecodeTDF pb = Inr (arrived p, int (length pb))"
    using encode_decode_root [OF assms(1) pb(1)] pb(2) by (simp add: fits_mem_def)
  moreover have "DecodeTDF mb = Inr (arrived m, int (length mb))"
    using encode_decode_root [OF assms(2) mb(1)] mb(2) by (simp add: fits_mem_def)
  moreover have "length mb = unat (of_nat (length mb) :: u16)"
    using mb(2) by (simp add: unat_of_nat)
  ultimately have "Fire2Decoder (header_bytes (of_nat (length pb)) (of_nat (length mb)) (ComponentID h)
      (CommandID h) (put_u24 (MessageNumber h)) t (Options h) @ mb @ pb) = Inr (Some
    \<lparr>Header = \<lparr>PayloadSize = of_nat (length pb), MetadataSize = of_nat (length mb), ComponentID = ComponentID h,
       CommandID = CommandID h, MessageNumber = MessageNumber h, MessageType = MessageType h,
       UserIndex = UserIndex h, Options = Options h\<rparr>,
     Payload = (if pb = [] then None else Some (arrived p)),
     Metadata = (if mb = [] then None else Some (arrived m)), RawPayload = pb,
     Error = blaze_error (ComponentID h) (MessageType h) (if mb = [] then [] else arrived m)\<rparr>)"
    by (subst Fire2Decoder_header_bytes [where m = "arrived m" and mn = "int (length mb)" and p = "arrived p" and pn = "int (length pb)"])
       (simp_all add: t get_put_u24 [OF h(3)])
  moreover have "EncodePacket \<lparr>Header = h, Payload = Some p, Metadata = Some m, RawPayload = rp, Error = er\<rparr> =
      Inr (header_bytes (of_nat (length pb)) (of_nat (length mb)) (ComponentID h)
      (CommandID h) (put_u24 (MessageNumber h)) t (Options h) @ mb @ pb)"
    using pb(1) mb(1) by (simp add: EncodePacket_def EncodeTDF_def fields_of_def header_bytes_def t_def Let_def)
  ultimately show ?thesis by simp
qed

theorem Fire2_roundtrip_witness:
  "\<exists>b. EncodePacket \<lparr>Header = \<lparr>PayloadSize = 0, MetadataSize = 0, ComponentID = 9, CommandID = 7,
      MessageNumber = 70000, MessageType = 1, UserIndex = 3, Options = 1\<rparr>, Payload = Some [(''A'', TInt 1)],
      Metadata = Some [(''ERRC'', TInt 5)], RawPayload = [], Error = None\<rparr> = Inr b \<and>
    Fire2Decoder b = Inr (Some
      \<lparr>Header = \<lparr>PayloadSize = 5, MetadataSize = 5, ComponentID = 9, CommandID = 7,
         MessageNumber = 70000, MessageType = 1, UserIndex = 3, Options = 1\<rparr>,
       Payload = Some [(''A'', TInt 1)], Metadata = Some [(''ERRC'', TInt 5)], RawPayload = [0x84, 0, 0, 0, 1],
       Error = Some \<lparr>Component = 9, Code = 5\<rparr>\<rparr>)"
proof -
  let ?h = "\<lparr>PayloadSize = 0, MetadataSize = 0, ComponentID = 9, CommandID = 7,
      MessageNumber = 70000, MessageType = 1, UserIndex = 3, Options = 1\<rparr>"
  have e: "EncodeTDF [(t, TInt n)] = Inr (encodeTag t @ 0 # EncodeVarsizeInteger n)" for t n
    by (simp add: EncodeTDF_def encodeStruct.simps encodeFields.simps sortedKeys_def)
  have v: "EncodeVarsizeInteger 1 = [1]" "EncodeVarsizeInteger 5 = [5]"
    by (simp_all add: EncodeVarsizeInteger_def Let_def)
  have A: "encodeTag ''A'' = [0x84, 0, 0]"
    by (simp add: encodeTag_def byte_of_def Let_def)
  have w: "wire_ok False (TStruct [(''A'', TInt 1)])" "wire_ok False (TStruct [(''ERRC'', TInt 5)])"
    by (simp_all add: field_ok_def tag_char_def tag_upper_def byte_of_def)
  have a: "arrived [(t, TInt n)] = [(t, TInt n)]" for t n by (simp add: arrived_def kept_def sortedKeys_def)
  show ?thesis
    using Fire2_roundtrip [OF w, of ?h "[0x84, 0, 0, 0, 1]" "encodeTag ''ERRC'' @ [0, 5]" "[]" None]
    by (simp add: e v A a blaze_error_def int_field_def MsgErrorReply_def)
qed

text \<open>
  The only panics of the packet decoder besides those of its TDF structs come from
  a metadata size larger than what follows the header: such a packet ends the process, and a
  packet shorter than a header is rejected.
\<close>

lemma Fire2Decoder_short:
  "(length b < 16 \<longrightarrow> Fire2Decoder b = Inr None) \<and>
   (length num = 3 \<and> length rest < unat mlen \<longrightarrow>
     Fire2Decoder (header_bytes plen mlen component cmd num t opts @ rest) = Inl SliceBounds)"
proof (intro conjI impI)
  show "length b < 16 \<Longrightarrow> Fire2Decoder b = Inr None" by (simp add: Fire2Decoder_def)
  assume "length num = 3 \<and> length rest < unat mlen"
  then obtain x y z where xyz: "num = [x, y, z]" and l: "length rest < unat mlen"
    by (auto simp: length_Suc_conv numeral_3_eq_3)
  then have "0 < mlen" by (auto simp: word_less_nat_alt)
  moreover have "get_u16 (put_u16 mlen) = mlen" using get_put_u16 [of mlen "[]"] by simp
  ultimately show "Fire2Decoder (header_bytes plen mlen component cmd num t opts @ rest) = Inl SliceBounds"
    using l by (simp add: Fire2Decoder_def header_bytes_def PopBuffer_def xyz Let_def)
qed

lemma Fire2Decoder_short_witness:
  "Fire2Decoder ([] :: bytes) = Inr None \<and>
   Fire2Decoder (header_bytes 0 5 9 7 [0, 0, 1] 0 0 @ [1, 2]) = Inl SliceBounds"
  using Fire2Decoder_short [of "[]" "[0, 0, 1]" "[1, 2]" 5 0 9 7 0 0] by simp

section \<open>Scanning for a tag\<close>

text \<open>An integer field with the tag stands at an offset, with at least one byte of value.\<close>

definition tag_at :: "bytes \<Rightarrow> bytes \<Rightarrow> nat \<Rightarrow> bool" where
  "tag_at t raw i \<longleftrightarrow> take 4 (drop i raw) = t @ [0] \<and> i + 4 < length raw"

lemma find_tag_Cons:
  assumes "length t = 3"
  shows "find_tag t (x # raw) = (if tag_at t (x # raw) 0
    then Some (fst (DecodeVarsizeInteger (drop 4 (x # raw)))) else find_tag t raw)"
proof (cases "\<exists>b c ty rest. raw = b # c # ty # rest")
  case True
  then obtain b c ty rest where raw: "raw = b # c # ty # rest" by blast
  obtain v n where d: "DecodeVarsizeInteger rest = (v, n)" by fastforce
  obtain p q r where t: "t = [p, q, r]" using assms by (auto simp: length_Suc_conv numeral_3_eq_3)
  have "0 < n \<longleftrightarrow> rest \<noteq> []"
    using DecodeVarsizeInteger_progress [OF _ d] d by (cases rest) (auto simp: DecodeVarsizeInteger_def)
  moreover have "tag_at t (x # raw) 0 \<longleftrightarrow> x = p \<and> b = q \<and> c = r \<and> ty = 0 \<and> rest \<noteq> []"
    by (auto simp: tag_at_def raw t)
  ultimately show ?thesis
    by (cases rest) (use d in \<open>auto simp: raw t numeral_2_eq_2 DecodeVarsizeInteger_def [of "[]"]\<close>)
next
  case False
  then have "length raw < 3"
    by (metis (no_types) Suc_le_length_iff not_less numeral_3_eq_3)
  then have "find_tag t (x # raw) = None" "find_tag t raw = None"
    by (auto simp: less_Suc_eq numeral_3_eq_3 length_Suc_conv)
  with \<open>length raw < 3\<close> show ?thesis by (simp add: tag_at_def)
qed

lemma tag_at_Suc [simp]: "tag_at t (x # raw) (Suc i) = tag_at t raw i"
  by (simp add: tag_at_def add.commute)

lemma find_tag_first:
  assumes "length t = 3"
  shows "find_tag t raw = (if \<exists>i. tag_at t raw i
    then Some (fst (DecodeVarsizeInteger (drop ((LEAST i. tag_at t raw i) + 4) raw))) else None)"
proof (induction raw)
  case Nil
  then show ?case by (simp add: tag_at_def)
next
  case (Cons x raw)
  show ?case
  proof (cases "tag_at t (x # raw) 0")
    case True
    then have "(LEAST i. tag_at t (x # raw) i) = 0" by (intro Least_equality) simp_all
    with True show ?thesis using find_tag_Cons [OF assms, of x raw] by auto
  next
    case False
    have ex: "(\<exists>i. tag_at t (x # raw) i) \<longleftrightarrow> (\<exists>i. tag_at t raw i)"
      using False by (metis not0_implies_Suc tag_at_Suc)
    have "(LEAST i. tag_at t (x # raw) i) = Suc (LEAST i. tag_at t raw i)" if "tag_at t raw i" for i
      using Least_Suc [of "tag_at t (x # raw)" "Suc i"] False that by simp
    moreover have "drop (Suc n + 4) (x # raw) = drop (n + 4) raw" for n
      by (simp only: add_Suc drop_Suc_Cons)
    ultimately show ?thesis
      using Cons False ex find_tag_Cons [OF assms, of x raw] by (auto simp del: drop_Suc_Cons add_Suc)
  qed
qed

text \<open>
  \<open>FindTagInt\<close> returns the value of the first place in the raw bytes where the tag, the
  INTEGER type byte and at least one byte of value stand together, and reports failure
  exactly when there is no such place.
\<close>

theorem FindTagInt_first:
  "FindTagInt raw tag = (if \<exists>i. tag_at (encodeTag tag) raw i
    then Some (fst (DecodeVarsizeInteger (drop ((LEAST i. tag_at (encodeTag tag) raw i) + 4) raw)))
    else None)"
  unfolding FindTagInt_def by (rule find_tag_first) simp

section \<open>The builder\<close>

lemma List_integers:
  "typeCode = 0 \<or> typeCode = 11 \<Longrightarrow> List tag typeCode (map GoInt ns) e = Some (Raw tag (TList (map TInt ns)) e)"
proof -
  assume t: "typeCode = 0 \<or> typeCode = 11"
  then have "those (map (coerced typeCode) (map GoInt ns)) = Some (map TInt ns)"
    by (induction ns) (auto simp: coerced_def coerce_def)
  then show ?thesis by (simp add: List_def)
qed

lemma List_mixed:
  "List ''CIDS'' 0 [GoInt 4, GoUint16 30728, GoValue (TBool True)] e = Some (Raw ''CIDS'' (TList [TInt 4, TInt 30728, TInt 1]) e)"
  "List ''NAME'' 1 [GoInt 4] e = None"
  by (simp_all add: List_def coerced_def coerce_def)

lemma Map_unhashable: "Map ''CONF'' 2 1 [(GoValue (TBlob b), GoValue v)] e = Some (Inl Unhashable)"
  by (simp add: Map_def coerced_entry_def coerced_def coerce_def tmap_assign_def)

text \<open>The references of a store lead to later maps of the store.\<close>

definition store_ok :: "store \<Rightarrow> bool" where
  "store_ok ms \<longleftrightarrow> (\<forall>a tag c. a < length ms \<and> (tag, Child c) \<in> set (ms ! a) \<longrightarrow> a < c \<and> c < length ms)"

lemma store_okI:
  "(\<And>a tag c. a < length ms \<Longrightarrow> (tag, Child c) \<in> set (ms ! a) \<Longrightarrow> a < c \<and> c < length ms) \<Longrightarrow> store_ok ms"
  unfolding store_ok_def by blast

lemma store_okD: "store_ok ms \<Longrightarrow> a < length ms \<Longrightarrow> (tag, Child c) \<in> set (ms ! a) \<Longrightarrow> a < c \<and> c < length ms"
  unfolding store_ok_def by blast

lemma set_update_subset: "set (AList.update k v al) \<subseteq> insert (k, v) (set al)"
  by (induction al) auto

lemma length_store_put [simp]: "length (store_put a tag s ms) = length ms"
  by (simp add: store_put_def)

lemma store_put_nth: "a < length ms \<Longrightarrow>
    store_put a tag s ms ! b = (if b = a then AList.update tag s (ms ! a) else ms ! b)"
  by (simp add: store_put_def nth_list_update)

lemma store_ok_put:
  assumes "store_ok ms" and "a < length ms" and "\<And>c. s = Child c \<Longrightarrow> a < c \<and> c < length ms"
  shows "store_ok (store_put a tag s ms)"
proof (rule store_okI)
  fix b t c assume b: "b < length (store_put a tag s ms)" and c: "(t, Child c) \<in> set (store_put a tag s ms ! b)"
  have "(t, Child c) \<in> set (ms ! b) \<or> b = a \<and> s = Child c"
    using c set_update_subset [of tag s "ms ! a"] by (auto simp: store_put_nth [OF assms(2)] split: if_splits)
  then show "b < c \<and> c < length (store_put a tag s ms)"
  proof
    assume "(t, Child c) \<in> set (ms ! b)"
    then show ?thesis using store_okD [OF assms(1), of b t c] b by simp
  qed (use assms(3) [of c] in simp)
qed

lemma store_ok_new: "store_ok ms \<Longrightarrow> store_ok (ms @ [[]])"
proof (rule store_okI)
  fix a tag c assume "store_ok ms" "a < length (ms @ [[]])" "(tag, Child c) \<in> set ((ms @ [[]]) ! a)"
  then show "a < c \<and> c < length (ms @ [[]])"
    using store_okD [of ms a tag c] by (cases "a < length ms") (auto simp: nth_append less_Suc_eq)
qed

text \<open>What is read from an address depends only on the maps from there on.\<close>

lemma read_map_cong:
  assumes "store_ok ms" and "a < length ms" and "length ms \<le> length ms'"
    and "\<And>b. a \<le> b \<Longrightarrow> b < length ms \<Longrightarrow> ms' ! b = ms ! b"
  shows "read_map ms' a = read_map ms a"
  using assms(2,4)
proof (induction "length ms - a" arbitrary: a rule: less_induct)
  case less
  have "read_map ms' c = read_map ms c" if "(t, Child c) \<in> set (ms ! a)" for t c
  proof (rule less.hyps)
    have c: "a < c" "c < length ms" using store_okD [OF assms(1) less.prems(1) that] by simp_all
    then show "length ms - c < length ms - a" "c < length ms" by simp_all
    show "ms' ! b = ms ! b" if "c \<le> b" "b < length ms" for b using less.prems(2) [of b] that c by simp
  qed
  moreover have "a < c \<and> c < length ms" if "(t, Child c) \<in> set (ms ! a)" for t c
    using store_okD [OF assms(1) less.prems(1) that] .
  moreover have "ms' ! a = ms ! a" using less.prems by simp
  ultimately show ?case
    using assms(3) by (subst (1 2) read_map.simps) (fastforce intro!: map_cong split: slot.splits)
qed

text \<open>What a caller does with a builder: it sets fields, and builds structs inside, to any depth.\<close>

datatype script = Set string tdf | Sub string "script list"

fun build_step :: "script \<Rightarrow> Encoder \<Rightarrow> Encoder" where
  "build_step (Set tag v) e = Raw tag v e"
| "build_step (Sub tag ss) e = EndStruct (fold build_step ss (BeginStruct tag e))"

text \<open>The struct that is meant.\<close>

fun meant :: "script \<Rightarrow> fields \<Rightarrow> fields" where
  "meant (Set tag v) fs = AList.update tag v fs"
| "meant (Sub tag ss) fs = AList.update tag (TStruct (fold meant ss [])) fs"

text \<open>An encoder whose innermost struct is a map of the store.\<close>

definition builder_ok :: "Encoder \<Rightarrow> bool" where
  "builder_ok e \<longleftrightarrow> store_ok (maps e) \<and> stack e \<noteq> [] \<and> enc_top e < length (maps e)"

text \<open>The innermost struct changes as meant, and nothing else that was there.\<close>

definition builds :: "(fields \<Rightarrow> fields) \<Rightarrow> Encoder \<Rightarrow> Encoder \<Rightarrow> bool" where
  "builds f e e' \<longleftrightarrow> builder_ok e' \<and> header e' = header e \<and> stack e' = stack e \<and> length (maps e) \<le> length (maps e') \<and>
     (\<forall>a < length (maps e). a \<noteq> enc_top e \<longrightarrow> maps e' ! a = maps e ! a) \<and>
     read_map (maps e') (enc_top e) = f (read_map (maps e) (enc_top e))"

lemma builds_trans: "builds f e e1 \<Longrightarrow> builds g e1 e2 \<Longrightarrow> builds (g \<circ> f) e e2"
  by (auto simp: builds_def enc_top_def)

lemma builds_fold:
  "(\<And>s e. s \<in> set ss \<Longrightarrow> builder_ok e \<Longrightarrow> builds (meant s) e (build_step s e)) \<Longrightarrow> builder_ok e \<Longrightarrow>
   builds (fold meant ss) e (fold build_step ss e)"
proof (induction ss arbitrary: e)
  case Nil
  then show ?case by (simp add: builds_def)
next
  case (Cons s ss)
  have s: "builds (meant s) e (build_step s e)" using Cons.prems by simp
  then have "builds (fold meant ss) (build_step s e) (fold build_step ss (build_step s e))"
    by (intro Cons.IH) (use Cons.prems in \<open>auto simp: builds_def\<close>)
  from builds_trans [OF s this] show ?case by (simp add: comp_def)
qed

text \<open>Reading the innermost struct after an assignment to it.\<close>

lemma read_put:
  assumes ms: "store_ok ms" and a: "a < length ms" and ms': "length ms \<le> length ms'" "ms' ! a = AList.update tag s (ms ! a)"
    and other: "\<And>b. b < length ms \<Longrightarrow> b \<noteq> a \<Longrightarrow> ms' ! b = ms ! b"
  shows "read_map ms' a = AList.update tag
    (case s of Val v \<Rightarrow> v | Child c \<Rightarrow> if a < c \<and> c < length ms' then TStruct (read_map ms' c) else TNil) (read_map ms a)"
proof -
  let ?f = "\<lambda>ms s. case s of Val v \<Rightarrow> v | Child c \<Rightarrow> if a < c \<and> c < length ms then TStruct (read_map ms c) else TNil"
  have u: "map (\<lambda>(t, x). (t, f x)) (AList.update tag s al) = AList.update tag (f s) (map (\<lambda>(t, x). (t, f x)) al)"
    for f :: "slot \<Rightarrow> tdf" and al by (induction al) auto
  have "?f ms' x = ?f ms x" if x: "(t, x) \<in> set (ms ! a)" for t x
  proof (cases x)
    case (Child c)
    then have c: "a < c" "c < length ms" using store_okD [OF ms a, of t c] x by simp_all
    then have "read_map ms' c = read_map ms c" by (intro read_map_cong [OF ms _ ms'(1)] other) simp_all
    then show ?thesis using Child c ms'(1) by simp
  qed simp
  then have "map (\<lambda>(t, x). (t, ?f ms' x)) (ms ! a) = map (\<lambda>(t, x). (t, ?f ms x)) (ms ! a)"
    by (intro map_cong) auto
  then show ?thesis by (subst (1 3) read_map.simps) (simp only: ms'(2) u)
qed

lemma Raw_builds: "builder_ok e \<Longrightarrow> builds (AList.update tag v) e (Raw tag v e)"
proof -
  assume e: "builder_ok e"
  then have ok: "store_ok (maps e)" "enc_top e < length (maps e)" by (simp_all add: builder_ok_def)
  have "read_map (store_put (enc_top e) tag (Val v) (maps e)) (enc_top e) =
      AList.update tag v (read_map (maps e) (enc_top e))"
    using ok by (subst read_put [OF ok, where s = "Val v" and tag = tag]) (simp_all add: store_put_nth)
  moreover have "store_ok (store_put (enc_top e) tag (Val v) (maps e))" by (rule store_ok_put [OF ok]) simp
  ultimately show ?thesis
    using e by (simp add: builds_def Raw_def builder_ok_def enc_top_def store_put_nth)
qed

lemma Sub_builds:
  assumes e: "builder_ok e"
    and inner: "\<And>e. builder_ok e \<Longrightarrow> builds f e (g e)"
  shows "builds (AList.update tag (TStruct (f []))) e (EndStruct (g (BeginStruct tag e)))"
proof -
  define c where "c = length (maps e)"
  define a where "a = enc_top e"
  define e1 where "e1 = BeginStruct tag e"
  define e2 where "e2 = g e1"
  have ok: "store_ok (maps e)" "a < c" "stack e \<noteq> []" using e by (simp_all add: builder_ok_def a_def c_def)
  have m1: "maps e1 = store_put a tag (Child c) (maps e @ [[]])" "stack e1 = stack e @ [c]" "header e1 = header e" "enc_top e1 = c"
    by (simp_all add: e1_def BeginStruct_def Let_def a_def c_def enc_top_def)
  have l1: "length (maps e1) = Suc c" by (simp add: m1(1) c_def)
  have n1: "maps e1 ! b = (if b = a then AList.update tag (Child c) (maps e ! a) else (maps e @ [[]]) ! b)" for b
    using ok(2) by (simp add: m1(1) store_put_nth c_def nth_append)
  have "store_ok (maps e1)"
    unfolding m1(1) by (rule store_ok_put [OF store_ok_new [OF ok(1)]]) (use ok(2) in \<open>simp_all add: c_def\<close>)
  then have "builder_ok e1" by (simp add: builder_ok_def m1 c_def)
  then have b: "builds f e1 e2" unfolding e2_def by (rule inner)
  have s2: "stack e2 = stack e @ [c]" "header e2 = header e" "Suc c \<le> length (maps e2)" "builder_ok e2"
    using b unfolding builds_def l1 m1(2-4) by simp_all
  have keep: "maps e2 ! b = maps e1 ! b" if "b < c" for b using b that unfolding builds_def l1 m1(4) by simp
  have "read_map (maps e1) c = []" using ok(2) by (subst read_map.simps) (simp add: n1, simp add: c_def)
  then have child: "read_map (maps e2) c = f []" using b unfolding builds_def m1(4) by simp
  have "read_map (maps e2) a = AList.update tag
      (case Child c of Val v \<Rightarrow> v | Child c \<Rightarrow> if a < c \<and> c < length (maps e2) then TStruct (read_map (maps e2) c) else TNil)
      (read_map (maps e) a)"
  proof (rule read_put [OF ok(1)])
    show "maps e2 ! a = AList.update tag (Child c) (maps e ! a)" using keep [OF ok(2)] by (simp add: n1)
    show "maps e2 ! b = maps e ! b" if "b < length (maps e)" "b \<noteq> a" for b
      using keep [of b] that by (simp add: n1 c_def nth_append)
  qed (use ok(2) s2(3) in \<open>simp_all add: c_def\<close>)
  then have top: "read_map (maps e2) a = AList.update tag (TStruct (f [])) (read_map (maps e) a)"
    using ok(2) s2(3) child by simp
  have "EndStruct e2 = e2\<lparr>stack := stack e\<rparr>" using ok(3) by (simp add: EndStruct_def s2)
  moreover have "maps e2 ! b = maps e ! b" if "b < c" "b \<noteq> a" for b using keep [of b] that by (simp add: n1 c_def nth_append)
  ultimately show ?thesis
    using top s2 ok by (simp add: builds_def builder_ok_def e1_def [symmetric] e2_def [symmetric] enc_top_def a_def c_def)
qed

lemma build_step_builds: "builder_ok e \<Longrightarrow> builds (meant s) e (build_step s e)"
proof (induction s arbitrary: e)
  case (Set tag v)
  then show ?case using Raw_builds by simp
next
  case (Sub tag ss)
  have "builds (fold meant ss) e (fold build_step ss e)" if "builder_ok e" for e
    using Sub.IH that by (intro builds_fold)
  from Sub_builds [OF Sub.prems this] show ?case by simp
qed

text \<open>
  Claim C36. The builder builds what is meant: setting fields and building structs inside, to any depth and in any
  order, gives the packet of the struct with these fields, each inner struct in place, a later
  field of the same tag instead of an earlier one; and closing a struct changes nothing of what is built.
\<close>

theorem builder_nested:
  "Build (fold build_step ss (Fire2Encoder component command msgType)) = EncodePacket
     \<lparr>Header = header (Fire2Encoder component command msgType), Payload = Some (fold meant ss []), Metadata = None,
      RawPayload = [], Error = None\<rparr> \<and>
   Build (EndStruct e) = Build e"
proof -
  let ?e = "Fire2Encoder component command msgType"
  have "builder_ok ?e" by (simp add: builder_ok_def store_ok_def Fire2Encoder_def enc_top_def)
  then have "builds (fold meant ss) ?e (fold build_step ss ?e)" using build_step_builds by (intro builds_fold)
  moreover have "read_map (maps ?e) 0 = []" by (subst read_map.simps) (simp add: Fire2Encoder_def)
  ultimately have "header (fold build_step ss ?e) = header ?e" "hd (stack (fold build_step ss ?e)) = 0"
    "read_map (maps (fold build_step ss ?e)) 0 = fold meant ss []"
    by (simp_all add: builds_def Fire2Encoder_def enc_top_def)
  moreover have "Build (EndStruct e) = Build e"
    by (cases "stack e"; cases "tl (stack e)") (simp_all add: Build_def EndStruct_def)
  ultimately show ?thesis by (simp add: Build_def)
qed

end
