(* ===== verification/Legacy_Fire.thy ===== *)
theory Legacy_Fire
  imports Codec Tdf_Roundtrip
begin

text \<open>
  The legacy FIRE framing (legacyfire/frame.go, legacyfire/types.go): a 12-byte header of six
  big-endian fields and a payload of at most 0xffff bytes, read from a byte stream and written
  to an \<open>io.Writer\<close> that may accept less than it is given.
\<close>

definition HeaderSize :: nat where
  "HeaderSize = 12"

definition MessageRequest :: u16 where "MessageRequest = 0x0000"
definition MessageReply :: u16 where "MessageReply = 0x1000"
definition MessageNotify :: u16 where "MessageNotify = 0x2000"
definition MessageError :: u16 where "MessageError = 0x3000"

record Header =
  PayloadSize :: u16
  Component :: u16
  Command :: u16
  Error :: u16
  MessageType :: u16
  MessageID :: u16

text \<open>\<open>TDF\<close> is \<open>None\<close> for the nil map.\<close>

record Frame =
  Header :: Header
  Payload :: bytes
  TDF :: "fields option"

datatype io_error = EOF | ErrUnexpectedEOF | ErrShortWrite | PayloadTooLong | ErrClosed

definition MarshalBinary :: "Header \<Rightarrow> bytes" where
  "MarshalBinary h = put_u16 (PayloadSize h) @ put_u16 (Component h) @ put_u16 (Command h) @
     put_u16 (Error h) @ put_u16 (MessageType h) @ put_u16 (MessageID h)"

definition ParseHeader :: "bytes \<Rightarrow> io_error + Header" where
  "ParseHeader b =
     (if length b < HeaderSize then Inl ErrUnexpectedEOF
      else Inr \<lparr>PayloadSize = get_u16 b, Component = get_u16 (drop 2 b), Command = get_u16 (drop 4 b),
        Error = get_u16 (drop 6 b), MessageType = get_u16 (drop 8 b), MessageID = get_u16 (drop 10 b)\<rparr>)"

text \<open>
  \<open>io.ReadFull\<close> on a stream given by the bytes that arrive before it is closed: \<open>EOF\<close> when
  none of the wanted bytes arrive, \<open>ErrUnexpectedEOF\<close> when only some do.
\<close>

definition ReadFull :: "bytes \<Rightarrow> nat \<Rightarrow> io_error + (bytes \<times> bytes)" where
  "ReadFull stream n =
     (if n \<le> length stream then Inr (take n stream, drop n stream)
      else if stream = [] then Inl EOF else Inl ErrUnexpectedEOF)"

definition Read :: "bytes \<Rightarrow> (io_error + (Frame \<times> bytes)) go" where
  "Read r =
     (case ReadFull r HeaderSize of
        Inl err \<Rightarrow> Inr (Inl err)
      | Inr (headerBytes, r1) \<Rightarrow>
          (case ParseHeader headerBytes of
             Inl err \<Rightarrow> Inr (Inl err)
           | Inr h \<Rightarrow>
               (case ReadFull r1 (unat (PayloadSize h)) of
                  Inl err \<Rightarrow> Inr (Inl err)
                | Inr (payload, r2) \<Rightarrow>
                    (let f = \<lparr>Header = h, Payload = payload, TDF = None\<rparr> in
                     if payload \<noteq> []
                     then go_bind (DecodeTDF payload) (\<lambda>(decoded, consumed).
                            Inr (Inr (if 0 \<le> consumed then f\<lparr>TDF := Some decoded\<rparr> else f, r2)))
                     else Inr (Inr (f, r2))))))"

text \<open>
  The loop of \<open>Write\<close> over an \<open>io.Writer\<close> with state \<open>'w\<close>: each call returns the number of bytes
  accepted and an error.
\<close>

type_synonym 'w writer = "'w \<Rightarrow> bytes \<Rightarrow> (nat \<times> io_error option) \<times> 'w"

function write_loop :: "'w writer \<Rightarrow> 'w \<Rightarrow> bytes \<Rightarrow> (io_error option \<times> 'w) go" where
  "write_loop wr w packet =
     (if packet = [] then Inr (None, w)
      else case wr w packet of ((n, err), w') \<Rightarrow>
        (case err of
           Some e \<Rightarrow> Inr (Some e, w')
         | None \<Rightarrow>
             if n = 0 then Inr (Some ErrShortWrite, w')
             else if length packet < n then Inl SliceBounds
             else write_loop wr w' (drop n packet)))"
  by pat_completeness auto

termination
  by (relation "measure (\<lambda>(_, _, packet). length packet)") auto

declare write_loop.simps [simp del]

text \<open>\<open>Write\<close> stores the payload size in the frame it is given, and returns the changed frame here.\<close>

definition sized :: "Frame \<Rightarrow> Frame" where
  "sized f = f\<lparr>Header := (Header f)\<lparr>PayloadSize := of_nat (length (Payload f))\<rparr>\<rparr>"

definition frame_bytes :: "Frame \<Rightarrow> bytes" where
  "frame_bytes f = MarshalBinary (Header (sized f)) @ Payload f"

definition Write :: "'w writer \<Rightarrow> 'w \<Rightarrow> Frame \<Rightarrow> ((io_error option \<times> 'w) \<times> Frame) go" where
  "Write wr w f =
     (if 0xffff < length (Payload f) then Inr ((Some PayloadTooLong, w), f)
      else go_bind (write_loop wr w (frame_bytes f)) (\<lambda>r. Inr (r, sized f)))"

definition Reply :: "Frame \<Rightarrow> bytes \<Rightarrow> Frame" where
  "Reply req payload =
     \<lparr>Header = \<lparr>PayloadSize = 0, Component = Component (Header req), Command = Command (Header req),
        Error = 0, MessageType = MessageReply, MessageID = MessageID (Header req)\<rparr>,
      Payload = payload, TDF = None\<rparr>"

definition ErrorReply :: "Frame \<Rightarrow> u16 \<Rightarrow> bytes \<Rightarrow> Frame" where
  "ErrorReply req code payload =
     \<lparr>Header = \<lparr>PayloadSize = 0, Component = Component (Header req), Command = Command (Header req),
        Error = code, MessageType = MessageError, MessageID = MessageID (Header req)\<rparr>,
      Payload = payload, TDF = None\<rparr>"

section \<open>Headers and frames come back\<close>

lemma length_MarshalBinary [simp]: "length (MarshalBinary h) = 12"
  by (simp add: MarshalBinary_def)

lemma ParseHeader_MarshalBinary [codec]: "ParseHeader (MarshalBinary h @ r) = Inr h"
  by (simp add: ParseHeader_def MarshalBinary_def HeaderSize_def drop_append)

text \<open>What \<open>Read\<close> makes of a frame that \<open>Write\<close> sent.\<close>

definition received :: "Frame \<Rightarrow> Frame" where
  "received f = (sized f)\<lparr>TDF := (if Payload f = [] then None
     else case DecodeTDF (Payload f) of Inr (fs, n) \<Rightarrow> if 0 \<le> n then Some fs else None | Inl _ \<Rightarrow> None)\<rparr>"

definition frame_ok :: "Frame \<Rightarrow> bool" where
  "frame_ok f \<longleftrightarrow> length (Payload f) \<le> 0xffff \<and> (Payload f = [] \<or> (\<exists>r. DecodeTDF (Payload f) = Inr r))"

definition dec_frame :: "bytes \<Rightarrow> (Frame \<times> nat) option" where
  "dec_frame b = (case Read b of Inr (Inr (f, rest)) \<Rightarrow> Some (f, length b - length rest) | _ \<Rightarrow> None)"

lemma sized_size: "length (Payload f) \<le> 0xffff \<Longrightarrow> unat (PayloadSize (Header (sized f))) = length (Payload f)"
  by (simp add: sized_def unat_of_nat)

lemma Payload_sized [simp]: "Payload (sized f) = Payload f"
  by (simp add: sized_def)

lemma length_frame_bytes [simp]: "length (frame_bytes f) = 12 + length (Payload f)"
  by (simp add: frame_bytes_def)

lemma Read_header:
  assumes "length (Payload f) \<le> 0xffff"
  shows "Read (MarshalBinary (Header (sized f)) @ r) =
    (case ReadFull r (length (Payload f)) of
       Inl err \<Rightarrow> Inr (Inl err)
     | Inr (payload, r2) \<Rightarrow>
         (let g = \<lparr>Header = Header (sized f), Payload = payload, TDF = None\<rparr> in
          if payload \<noteq> []
          then go_bind (DecodeTDF payload) (\<lambda>(decoded, consumed).
                 Inr (Inr (if 0 \<le> consumed then g\<lparr>TDF := Some decoded\<rparr> else g, r2)))
          else Inr (Inr (g, r2))))"
  using ParseHeader_MarshalBinary [of "Header (sized f)" "[]"] sized_size [OF assms]
  by (simp add: Read_def ReadFull_def HeaderSize_def Let_def)

lemma Read_frame_bytes [codec]:
  assumes "frame_ok f"
  shows "Read (frame_bytes f @ r) = Inr (Inr (received f, r))"
proof -
  have l: "length (Payload f) \<le> 0xffff" using assms by (simp add: frame_ok_def)
  have "ReadFull (Payload f @ r) (length (Payload f)) = Inr (Payload f, r)"
    by (simp add: ReadFull_def)
  with Read_header [OF l, of "Payload f @ r"] assms show ?thesis
    by (auto simp: frame_bytes_def received_def sized_def frame_ok_def Let_def)
qed

interpretation fire: prefix_codec frame_bytes dec_frame received frame_ok
  by unfold_locales (simp add: dec_frame_def Read_frame_bytes)

lemma write_loop_total:
  assumes law: "\<And>w p n w'. wr w p = ((n, None), w') \<Longrightarrow> n \<le> length p \<and> written w' = written w @ take n p"
  shows "\<exists>e w'. write_loop wr w packet = Inr (e, w') \<and> (e = None \<longrightarrow> written w' = written w @ packet)"
proof (induction packet arbitrary: w rule: length_induct)
  case (1 packet)
  obtain n err w' where wr: "wr w packet = ((n, err), w')" by (metis surj_pair)
  show ?case
  proof (cases "packet = [] \<or> err \<noteq> None \<or> n = 0")
    case True
    with wr show ?thesis by (subst write_loop.simps) (auto split: option.splits)
  next
    case False
    with wr law have n: "n \<le> length packet" and w': "written w' = written w @ take n packet" by auto
    from False have "length (drop n packet) < length packet" by simp
    with 1 obtain e w'' where "write_loop wr w' (drop n packet) = Inr (e, w'')"
      and "e = None \<longrightarrow> written w'' = written w' @ drop n packet" by blast
    with False wr n w' show ?thesis by (subst write_loop.simps) auto
  qed
qed

text \<open>
  Claim C33. A sequence of frames written one after the other is read back frame by frame, in
  order, whatever follows it: each with its header (the payload size filled in), its payload,
  and the decoded payload attached when it is well formed.
\<close>

theorem frame_stream_roundtrip:
  assumes "list_all frame_ok fs"
  shows "dec_many dec_frame (length fs) (concat (map frame_bytes fs) @ r) =
    Some (map received fs, length (concat (map frame_bytes fs)))"
  using fire.decode_stream [OF assms] .

theorem frame_stream_roundtrip_witness:
  "dec_many dec_frame 2
     (frame_bytes (Reply \<lparr>Header = \<lparr>PayloadSize = 0, Component = 9, Command = 7, Error = 0,
        MessageType = 0, MessageID = 1\<rparr>, Payload = [], TDF = None\<rparr> []) @
      frame_bytes (Reply \<lparr>Header = \<lparr>PayloadSize = 0, Component = 9, Command = 2, Error = 0,
        MessageType = 0, MessageID = 2\<rparr>, Payload = [], TDF = None\<rparr> [0, 1]) @ [7]) =
   Some ([\<lparr>Header = \<lparr>PayloadSize = 0, Component = 9, Command = 7, Error = 0,
             MessageType = 0x1000, MessageID = 1\<rparr>, Payload = [], TDF = None\<rparr>,
          \<lparr>Header = \<lparr>PayloadSize = 2, Component = 9, Command = 2, Error = 0,
             MessageType = 0x1000, MessageID = 2\<rparr>, Payload = [0, 1], TDF = Some []\<rparr>], 26)"
proof -
  let ?f = "\<lambda>c i p. Reply \<lparr>Header = \<lparr>PayloadSize = 0, Component = 9, Command = c, Error = 0,
        MessageType = 0, MessageID = i\<rparr>, Payload = [], TDF = None\<rparr> p"
  have d: "DecodeTDF [0, 1] = Inr ([], 1)"
    by (simp add: DecodeTDF_def readStruct_def readFields.simps)
  then have "list_all frame_ok [?f 7 1 [], ?f 2 2 [0, 1]]"
    by (simp add: frame_ok_def Reply_def)
  from frame_stream_roundtrip [OF this, of "[7]"] d show ?thesis
    by (simp add: received_def sized_def Reply_def MessageReply_def numeral_2_eq_2)
qed

text \<open>
  Claim C34. A stream cut inside a frame never yields a frame.  A cut between the header and
  a non-empty payload is reported as a clean end of the stream, like a cut between two frames;
  any other cut is an unexpected one.
\<close>

theorem Read_truncated:
  assumes "length (Payload f) \<le> 0xffff" and "n < length (frame_bytes f)"
  shows "Read (take n (frame_bytes f)) = Inr (Inl (if n = 0 \<or> n = 12 then EOF else ErrUnexpectedEOF))"
proof (cases "n < 12")
  case True
  moreover have "MarshalBinary (Header (sized f)) \<noteq> []"
    using length_MarshalBinary [of "Header (sized f)"] by (metis list.size(3) zero_neq_numeral)
  ultimately show ?thesis
    by (auto simp: Read_def ReadFull_def HeaderSize_def frame_bytes_def)
next
  case False
  then have "take n (frame_bytes f) = MarshalBinary (Header (sized f)) @ take (n - 12) (Payload f)"
    by (simp add: frame_bytes_def)
  with False assms show ?thesis
    by (auto simp: Read_header ReadFull_def)
qed

theorem Read_truncated_witness:
  "Read (take 12 (frame_bytes (\<lparr>Header = \<lparr>PayloadSize = 0, Component = 9, Command = 7, Error = 0,
     MessageType = 0, MessageID = 1\<rparr>, Payload = [0], TDF = None\<rparr>))) = Inr (Inl EOF)"
  by (subst Read_truncated) simp_all

text \<open>
  \<open>Write\<close> is complete or reports an error: over any writer that keeps the contract of
  \<open>io.Writer\<close> (it accepts a prefix of what it is given), however short its writes, it does not
  panic or spin, and when it reports no error the payload fits its 16-bit length and exactly
  the bytes of the frame were appended to what was written before.
\<close>

lemma Write_complete:
  assumes law: "\<And>w p n w'. wr w p = ((n, None), w') \<Longrightarrow> n \<le> length p \<and> written w' = written w @ take n p"
  shows "\<exists>e w' f'. Write wr w f = Inr ((e, w'), f') \<and> Payload f' = Payload f \<and>
    (e = None \<longrightarrow> length (Payload f) \<le> 0xffff \<and> written w' = written w @ frame_bytes f)"
  using write_loop_total [of wr written w "frame_bytes f", OF law] by (auto simp: Write_def)

lemma Write_complete_witness:
  "\<exists>e w' f'. Write (\<lambda>w p. ((min 5 (length p), None), w @ take (min 5 (length p)) p)) [] \<lparr>Header = \<lparr>PayloadSize = 0,
     Component = 9, Command = 7, Error = 0, MessageType = 0, MessageID = 1\<rparr>, Payload = [0], TDF = None\<rparr> =
       Inr ((e, w'), f') \<and> Payload f' = [0] \<and>
    (e = None \<longrightarrow> 1 \<le> (0xffff::nat) \<and> w' = [0, 1, 0, 9, 0, 7, 0, 0, 0, 0, 0, 1, 0])"
proof -
  let ?f = "\<lparr>Header = \<lparr>PayloadSize = 0, Component = 9, Command = 7, Error = 0, MessageType = 0,
     MessageID = 1\<rparr>, Payload = [0], TDF = None\<rparr>"
  have "frame_bytes ?f = [0, 1, 0, 9, 0, 7, 0, 0, 0, 0, 0, 1, 0]"
    by (simp add: frame_bytes_def sized_def MarshalBinary_def put_u16_def)
  then show ?thesis
    using Write_complete [of "\<lambda>w p. ((min 5 (length p), None), w @ take (min 5 (length p)) p)" "\<lambda>w. w" "[]" ?f] by simp
qed

end
