(* ===== verification/Logging.thy ===== *)
theory Logging
  imports Fire2 Legacy_Fire
begin

text \<open>
  The rendering of payloads for the log (Fire2Logging.go), the text \<open>Fire2Decoder\<close> returns beside a packet, and
  the text of a frame header (legacyfire/frame.go), with what they use of \<open>fmt\<close> and \<open>strconv\<close>.
\<close>

section \<open>Hexadecimal numbers\<close>

definition hex_digit :: "nat \<Rightarrow> nat \<Rightarrow> char" where
  "hex_digit ten d = (if d < 10 then digit_char d else char_of (ten + (d - 10)))"

text \<open>\<open>ten\<close> is the code of the digit ten: that of \<open>A\<close> for \<open>%X\<close>, that of \<open>a\<close> for \<open>%x\<close>.\<close>

fun nat_hex :: "nat \<Rightarrow> nat \<Rightarrow> string" where
  "nat_hex ten n = (if n < 16 then [hex_digit ten n] else nat_hex ten (n div 16) @ [hex_digit ten (n mod 16)])"

declare nat_hex.simps [simp del]

definition zero_pad :: "nat \<Rightarrow> string \<Rightarrow> string" where
  "zero_pad n s = replicate (n - length s) (CHR ''0'') @ s"

definition HEX :: "nat \<Rightarrow> nat \<Rightarrow> string" where
  "HEX width n = zero_pad width (nat_hex 65 n)"

definition hex :: "nat \<Rightarrow> nat \<Rightarrow> string" where
  "hex width n = zero_pad width (nat_hex 97 n)"

section \<open>Quoted strings\<close>

text \<open>
  What the texts depend on beyond this file: which runes beyond Latin-1 Unicode calls printable, and the order
  in which \<open>fmt\<close> lists the entries of a \<open>map[interface{}]interface{}\<close>: it sorts by key, keys of
  different types by the addresses of their types.  An entry is its key and its text.
\<close>

record Printer =
  printable :: "nat \<Rightarrow> bool"
  map_order :: "(tdf \<times> string) list \<Rightarrow> (tdf \<times> string) list"

definition IsPrint :: "Printer \<Rightarrow> nat \<Rightarrow> bool" where
  "IsPrint P r \<longleftrightarrow>
     (if r \<le> 0xff then (0x20 \<le> r \<and> r < 0x7f) \<or> (0xa1 \<le> r \<and> r \<noteq> 0xad) else printable P r)"

definition RuneError :: nat where "RuneError = 0xfffd"

definition continues :: "nat \<Rightarrow> bool" where
  "continues b \<longleftrightarrow> 0x80 \<le> b \<and> b < 0xc0"

text \<open>
  \<open>utf8.DecodeRuneInString\<close> on a non-empty string: the rune and its width.  A byte that is not there is no
  continuation byte, as the zero.
\<close>

definition decode_rune :: "nat list \<Rightarrow> nat \<times> nat" where
  "decode_rune s =
     (let get_at = (\<lambda>i. if i < length s then s ! i else 0);
          a = get_at 0; b = get_at 1; c = get_at 2; d = get_at 3 in
      if a < 0x80 then (a, 1)
      else if 0xc2 \<le> a \<and> a < 0xe0 \<and> continues b then ((a - 0xc0) * 64 + (b - 0x80), 2)
      else if 0xe0 \<le> a \<and> a < 0xf0 \<and> continues b \<and> continues c \<and>
              (a = 0xe0 \<longrightarrow> 0xa0 \<le> b) \<and> (a = 0xed \<longrightarrow> b < 0xa0)
      then (((a - 0xe0) * 64 + (b - 0x80)) * 64 + (c - 0x80), 3)
      else if 0xf0 \<le> a \<and> a \<le> 0xf4 \<and> continues b \<and> continues c \<and> continues d \<and>
              (a = 0xf0 \<longrightarrow> 0x90 \<le> b) \<and> (a = 0xf4 \<longrightarrow> b < 0x90)
      then ((((a - 0xf0) * 64 + (b - 0x80)) * 64 + (c - 0x80)) * 64 + (d - 0x80), 4)
      else (RuneError, 1))"

text \<open>\<open>appendEscapedRune\<close>; \<open>raw\<close> is the encoding of the rune \<open>r\<close>.\<close>

definition escaped_rune :: "Printer \<Rightarrow> nat \<Rightarrow> string \<Rightarrow> string" where
  "escaped_rune P r raw =
     (if r = 0x22 \<or> r = 0x5c then CHR 0x5C # raw
      else if IsPrint P r then raw
      else CHR 0x5C #
        (if r = 7 then ''a'' else if r = 8 then ''b'' else if r = 12 then ''f'' else if r = 10 then ''n''
         else if r = 13 then ''r'' else if r = 9 then ''t'' else if r = 11 then ''v''
         else if r < 0x20 \<or> r = 0x7f then CHR ''x'' # hex 2 r
         else if r < 0x10000 then CHR ''u'' # hex 4 r
         else CHR ''U'' # hex 8 r))"

fun quote_body :: "Printer \<Rightarrow> string \<Rightarrow> string" where
  "quote_body P [] = []"
| "quote_body P (ch # rest) =
     (let (r, width) = decode_rune (map of_char (ch # rest)) in
      (if width = 1 \<and> r = RuneError then CHR 0x5C # CHR ''x'' # hex 2 (of_char ch)
       else escaped_rune P r (take width (ch # rest))) @
      quote_body P (drop (width - 1) rest))"

definition quote :: "Printer \<Rightarrow> string \<Rightarrow> string" where
  "quote P s = CHR 0x22 # quote_body P s @ [CHR 0x22]"

section \<open>Values as \<open>%v\<close> prints them\<close>

fun spaced :: "string list \<Rightarrow> string" where
  "spaced [] = []"
| "spaced [x] = x"
| "spaced (x # xs) = x @ CHR '' '' # spaced xs"

text \<open>The parts of a value are smaller.\<close>

lemma size_elem: "x \<in> set xs \<Longrightarrow> size x < Suc (size_list size xs)"
  by (induction xs) auto

lemma size_field: "(t, v) \<in> set fs \<Longrightarrow> size v < Suc (size_list (size_prod (\<lambda>_. 0) size) fs)"
  by (induction fs) auto

lemma size_entry:
  "(k, v) \<in> set m \<Longrightarrow> size k < Suc (size_list (size_prod size size) m)"
  "(k, v) \<in> set m \<Longrightarrow> size v < Suc (size_list (size_prod size size) m)"
  by (induction m) auto

lemmas size_parts = size_elem size_field size_entry

function (sequential) fmt_print :: "Printer \<Rightarrow> tdf \<Rightarrow> string" where
  "fmt_print P (TBlob b) = ''['' @ spaced (map (\<lambda>x. nat_dec (unat x)) b) @ '']''"
| "fmt_print P (TStruct fs) =
     ''map['' @ spaced (map (\<lambda>(t, v). t @ '':'' @ fmt_print P v) (sortedKeys fs)) @ '']''"
| "fmt_print P (TArmed a fs) =
     ''{'' @ nat_dec (unat a) @ '' map['' @
       spaced (map (\<lambda>(t, v). t @ '':'' @ fmt_print P v) (sortedKeys fs)) @ '']}''"
| "fmt_print P (TList xs) = ''['' @ spaced (map (fmt_print P) xs) @ '']''"
| "fmt_print P (TTyped t xs) =
     ''{'' @ nat_dec (unat t) @ '' ['' @ spaced (map (fmt_print P) xs) @ '']}''"
| "fmt_print P (TMap m) =
     ''map['' @ spaced (map snd (map_order P
       (map (\<lambda>(k, v). (k, fmt_print P k @ '':'' @ fmt_print P v)) m))) @ '']''"
| "fmt_print P (TUnion a f v) = ''{'' @ nat_dec (unat a) @ '' '' @ f @ '' '' @ fmt_print P v @ ''}''"
| "fmt_print P (TVar i f v) = ''{'' @ nat_dec (unat i) @ '' '' @ f @ '' '' @ fmt_print P v @ ''}''"
| "fmt_print P v = fmt_v v"
  by pat_completeness auto

termination by (relation "measure (size \<circ> snd)") (auto simp: size_parts)

declare fmt_print.simps [simp del]

section \<open>The rendering\<close>

definition scalar :: "Printer \<Rightarrow> tdf \<Rightarrow> string" where
  "scalar P v =
     (case v of
        TInt x \<Rightarrow> int_dec (sint x) @ '' (0x'' @ HEX 4 (unat x) @ '')''
      | TStr x \<Rightarrow> quote P x
      | TBlob x \<Rightarrow> ''0x'' @ concat (map (\<lambda>b. HEX 2 (unat b)) x)
      | TFloat x \<Rightarrow> fmt_f32 x
      | _ \<Rightarrow> fmt_print P v)"

definition indentation :: "nat \<Rightarrow> string" where
  "indentation n = concat (replicate n ''  '')"

definition newline :: string where
  "newline = [CHR 0x0A]"

text \<open>What \<open>writeValue\<close> appends to the builder.\<close>

function (sequential) writeValue :: "Printer \<Rightarrow> tdf \<Rightarrow> nat \<Rightarrow> string" where
  "writeValue P (TStruct fs) indent =
     ''{'' @ newline @
     concat (map (\<lambda>(t, v). indentation indent @ ''  '' @ t @ '' = '' @ writeValue P v (indent + 1) @ newline)
       (sortedKeys fs)) @
     indentation indent @ ''}''"
| "writeValue P (TList xs) indent =
     ''['' @ newline @
     concat (map (\<lambda>(i, v). indentation indent @ ''  ['' @ nat_dec i @ ''] = '' @ writeValue P v (indent + 1) @ newline)
       (enumerate 0 xs)) @
     indentation indent @ '']''"
| "writeValue P (TMap m) indent =
     ''['' @ newline @
     concat (map (\<lambda>k. indentation indent @ ''  ('' @ scalar P k @ '', '' @ writeValue P (map_get m k) (indent + 1) @
         '')'' @ newline) (sortedMapKeys m)) @
     indentation indent @ '']''"
| "writeValue P v indent = scalar P v"
  by pat_completeness auto

termination
  by (relation "measure (\<lambda>(_, v, _). depth v)")
    (auto simp: less_Suc_eq_le depth_in depth_map_get le_max_iff_disj in_set_enumerate_eq simp del: set_sortedMapKeys)

declare writeValue.simps(1-3) [simp del]

definition formatPayload :: "Printer \<Rightarrow> tdf \<Rightarrow> string" where
  "formatPayload P payload = ''BlazePayload '' @ writeValue P payload 0"

text \<open>Both results of \<open>Fire2Decoder\<close>; a nil payload is printed as the empty struct.\<close>

definition Fire2Decoder_log :: "Printer \<Rightarrow> bytes \<Rightarrow> (Packet option \<times> string) go" where
  "Fire2Decoder_log P buffer =
     go_bind (Fire2Decoder buffer) (\<lambda>r.
       Inr (r, case r of None \<Rightarrow> '''' | Some p \<Rightarrow> formatPayload P (TStruct (fields_of (Packet.Payload p)))))"

text \<open>\<open>Header.String\<close> of a legacy frame.\<close>

definition Header_String :: "Legacy_Fire.Header \<Rightarrow> string" where
  "Header_String h =
     ''component='' @ nat_dec (unat (Legacy_Fire.Component h)) @ '' command=0x'' @ hex 4 (unat (Command h)) @
     '' error=0x'' @ hex 4 (unat (Legacy_Fire.Error h)) @ '' type=0x'' @ hex 4 (unat (Legacy_Fire.MessageType h)) @
     '' id='' @ nat_dec (unat (MessageID h)) @ '' payload='' @ nat_dec (unat (Legacy_Fire.PayloadSize h))"

section \<open>The text of a Go value\<close>

text \<open>The documented behaviour of \<open>fmt\<close>: a map is printed in the order of its keys, however it is represented.\<close>

definition key_sorted :: "Printer \<Rightarrow> bool" where
  "key_sorted P \<longleftrightarrow> (\<forall>es es'. mset es = mset es' \<longrightarrow> distinct (map fst es) \<longrightarrow>
     map snd (map_order P es) = map snd (map_order P es'))"

definition same_text :: "Printer \<Rightarrow> tdf \<Rightarrow> tdf \<Rightarrow> bool" where
  "same_text P v w \<longleftrightarrow> fmt_print P v = fmt_print P w \<and> scalar P v = scalar P w \<and> writeValue P v = writeValue P w"

lemma struct_texts_eq:
  assumes "same_entries (same_text P) fs gs" and "\<And>k v w. same_text P v w \<Longrightarrow> f (k, v) = f (k, w)"
  shows "map f (sortedKeys fs) = map f (sortedKeys gs)"
  by (rule map_list_all2 [OF same_sorted_struct [OF assms(1)]]) (auto intro: assms(2))

lemma map_texts_eq:
  assumes "same_entries (same_text P) m m'"
  shows "sortedMapKeys m = sortedMapKeys m'" and "writeValue P (map_get m k) = writeValue P (map_get m' k)"
  using same_sorted_keys [OF assms] same_get [OF assms, of k] by (auto simp: same_text_def)

lemma elem_texts_eq:
  assumes "list_all2 (same_text P) xs ys" and "\<And>i v w. same_text P v w \<Longrightarrow> f (i, v) = f (i, w)"
  shows "map f (enumerate n xs) = map f (enumerate n ys)"
  using assms by (induction xs ys arbitrary: n rule: list_all2_induct) auto

lemma entry_texts_eq:
  assumes "same_entries (same_text P) m m'"
  shows "map (\<lambda>(k, v). (k, fmt_print P k @ '':'' @ fmt_print P v)) m =
    map (\<lambda>(k, v). (k, fmt_print P k @ '':'' @ fmt_print P v)) m'"
  by (rule map_list_all2 [OF assms]) (auto simp: same_text_def)

lemma reordered_print:
  assumes "key_sorted P" and "mset m = mset m'" and "distinct_texts m"
  shows "fmt_print P (TMap m) = fmt_print P (TMap m')"
proof -
  let ?t = "\<lambda>(k, v). (k, fmt_print P k @ '':'' @ fmt_print P v)"
  have "mset (map ?t m) = mset (map ?t m')" using assms(2) by simp
  moreover have "distinct (map fst (map ?t m))"
    using assms(3) by (auto simp: distinct_texts_def distinct_map inj_on_def case_prod_unfold)
  ultimately have "map snd (map_order P (map ?t m)) = map snd (map_order P (map ?t m'))"
    using assms(1) unfolding key_sorted_def by blast
  then show ?thesis by (simp add: fmt_print.simps)
qed

text \<open>Values that are printed by \<open>%v\<close> as a whole.\<close>

lemma same_text_print:
  assumes "fmt_print P v = fmt_print P w"
    and "\<And>u. u \<in> {v, w} \<Longrightarrow> (\<exists>a fs. u = TArmed a fs) \<or> (\<exists>t xs. u = TTyped t xs) \<or> (\<exists>a f x. u = TUnion a f x) \<or> (\<exists>i f x. u = TVar i f x)"
  shows "same_text P v w"
  using assms(1) assms(2) [of v] assms(2) [of w] by (auto simp: same_text_def scalar_def fun_eq_iff)

text \<open>Values that \<open>writeValue\<close> lays out over lines.\<close>

lemma same_text_lines:
  assumes "fmt_print P v = fmt_print P w" and "writeValue P v = writeValue P w"
    and "\<And>u. u \<in> {v, w} \<Longrightarrow> (\<exists>fs. u = TStruct fs) \<or> (\<exists>xs. u = TList xs) \<or> (\<exists>m. u = TMap m)"
  shows "same_text P v w"
  using assms(1,2) assms(3) [of v] assms(3) [of w] by (auto simp: same_text_def scalar_def)

lemma same_value_text:
  assumes "key_sorted P" and "same_value distinct_texts v w"
  shows "same_text P v w"
  using assms(2)
proof (induction rule: same_value.induct)
  case (same_trans u v w)
  then show ?case by (simp add: same_text_def)
next
  case (reorder_struct fs gs)
  then show ?case
    by (intro same_text_lines) (auto simp: fmt_print.simps writeValue.simps fun_eq_iff reordered_struct)
next
  case (reorder_armed fs gs a)
  then show ?case by (intro same_text_print) (auto simp: fmt_print.simps reordered_struct)
next
  case (reorder_map m m')
  then show ?case
    by (intro same_text_lines reordered_print [OF assms(1)]) (auto simp: writeValue.simps fun_eq_iff reordered_keys reordered_get)
next
  case (in_struct fs gs)
  note e = struct_texts_eq [OF list_all2_mono [OF in_struct]]
  show ?case
    by (intro same_text_lines) (auto simp: fmt_print.simps writeValue.simps fun_eq_iff same_text_def intro!: arg_cong [of _ _ spaced] arg_cong [of _ _ concat] e)
next
  case (in_armed fs gs a)
  show ?case
    by (intro same_text_print) (auto simp: fmt_print.simps same_text_def intro!: arg_cong [of _ _ spaced] struct_texts_eq [OF list_all2_mono [OF in_armed]])
next
  case (in_map m m')
  have m: "same_entries (same_text P) m m'" by (rule list_all2_mono [OF in_map]) simp
  have "fmt_print P (TMap m) = fmt_print P (TMap m')" by (simp only: fmt_print.simps entry_texts_eq [OF m])
  then show ?case
    by (intro same_text_lines) (auto simp: writeValue.simps fun_eq_iff map_texts_eq [OF m])
next
  case (in_list xs ys)
  have l: "list_all2 (same_text P) xs ys" by (rule list_all2_mono [OF in_list]) simp
  have "map (fmt_print P) xs = map (fmt_print P) ys" by (rule map_list_all2 [OF l]) (simp add: same_text_def)
  then show ?case
    by (intro same_text_lines) (auto simp: fmt_print.simps writeValue.simps fun_eq_iff same_text_def intro!: arg_cong [of _ _ concat] elem_texts_eq [OF l])
next
  case (in_typed xs ys t)
  have l: "list_all2 (same_text P) xs ys" by (rule list_all2_mono [OF in_typed]) simp
  have "map (fmt_print P) xs = map (fmt_print P) ys" by (rule map_list_all2 [OF l]) (simp add: same_text_def)
  then show ?case by (intro same_text_print) (auto simp: fmt_print.simps)
next
  case (in_union v w a f)
  then show ?case by (intro same_text_print) (auto simp: fmt_print.simps same_text_def)
next
  case (in_variable v w i f)
  then show ?case by (intro same_text_print) (auto simp: fmt_print.simps same_text_def)
qed (simp add: same_text_def)

text \<open>
  The log text of a payload does not depend on how its Go maps list their entries, at any depth, where
  no two keys of a map have the same text.
\<close>

lemma log_text_canonical:
  assumes "key_sorted P" and "same_value distinct_texts v w"
  shows "formatPayload P v = formatPayload P w"
  using same_value_text [OF assms] by (simp add: same_text_def formatPayload_def)

section \<open>Lines\<close>

abbreviation LF :: char where "LF \<equiv> CHR 0x0A"

lemma of_char_LF: "c = LF \<longleftrightarrow> (of_char c :: nat) = 10"
proof
  assume "(of_char c :: nat) = 10"
  then have "(of_char c :: nat) = of_char LF" by simp
  then show "c = LF" by (simp only: of_char_eq_iff)
qed simp

lemma char_of_LF: "char_of (n :: nat) = LF \<longleftrightarrow> n mod 256 = 10"
  by (simp add: of_char_LF of_char_of)

lemma nat_dec_no_LF [simp]: "LF \<notin> set (nat_dec n)"
proof (induction n rule: nat_dec.induct)
  case (1 n)
  have "digit_char (n mod 10) \<noteq> LF" by (simp add: digit_char_def char_of_LF)
  then show ?case
    using 1 by (cases "n < 10") (simp_all add: nat_dec.simps [of n] not_sym)
qed

lemma int_dec_no_LF [simp]: "LF \<notin> set (int_dec i)"
  by (simp add: int_dec_def)

lemma hex_digit_no_LF: "d < 16 \<Longrightarrow> ten \<in> {65, 97} \<Longrightarrow> hex_digit ten d \<noteq> LF"
  by (auto simp: hex_digit_def digit_char_def char_of_LF)

lemma nat_hex_no_LF: "ten \<in> {65, 97} \<Longrightarrow> LF \<notin> set (nat_hex ten n)"
proof (induction n rule: nat_hex.induct)
  case (1 ten n)
  then show ?case by (cases "n < 16") (simp_all add: nat_hex.simps [of ten n] hex_digit_no_LF [symmetric])
qed

lemma hex_no_LF [simp]: "LF \<notin> set (HEX w n)" "LF \<notin> set (hex w n)"
  by (simp_all add: HEX_def hex_def zero_pad_def nat_hex_no_LF)

lemma f32_short_ge: "n \<le> snd (f32_short fuel n dp w)"
proof (induction fuel arbitrary: n)
  case (Suc fuel)
  then show ?case using Suc_leD by (fastforce simp: Let_def)
qed simp

lemma f32_text_no_LF: "LF \<notin> set ds \<Longrightarrow> ds \<noteq> [] \<Longrightarrow> LF \<notin> set (f32_text ds dp)"
  by (cases ds) (auto simp: f32_text_def Let_def dest: in_set_takeD in_set_dropD)

lemma fmt_f32_no_LF [simp]: "LF \<notin> set (fmt_f32 w)"
proof -
  let ?dp = "f32_point 85 (- 45) (f32_value w)"
  obtain d n where dn: "f32_short 10 1 ?dp w = (d, n)" by fastforce
  then have n: "1 \<le> n" using f32_short_ge [of 1 10 ?dp w] by simp
  have "LF \<notin> set (f32_text (take n (nat_dec d)) (?dp + 1))"
    using n by (intro f32_text_no_LF) (auto dest: in_set_takeD)
  moreover have "LF \<notin> set (f32_text (nat_dec d) ?dp)" by (simp add: f32_text_no_LF)
  ultimately show ?thesis unfolding fmt_f32_def Let_def dn by simp
qed

text \<open>A rune is one byte below 0x80, one byte that is not UTF-8, or bytes from 0x80 on.\<close>

lemma decode_rune_raw:
  assumes "decode_rune (map of_char (ch # rest)) = (r, width)"
  shows "r = of_char ch \<and> width = 1 \<and> r < 0x80 \<or> r = RuneError \<and> width = 1 \<or>
    (\<forall>c \<in> set (take width (ch # rest)). 0x80 \<le> (of_char c :: nat))"
proof -
  define at where "at i = (if i < length (ch # rest) then of_char ((ch # rest) ! i) else (0 :: nat))" for i
  have get: "(if i < length (map of_char (ch # rest)) then map of_char (ch # rest) ! i else 0) = at i" for i
    by (cases i) (auto simp: at_def)
  have take: "\<forall>c \<in> set (take width (ch # rest)). 0x80 \<le> (of_char c :: nat)" if a: "\<forall>i < width. 0x80 \<le> at i"
  proof
    fix c assume "c \<in> set (take width (ch # rest))"
    then obtain i where i: "i < width" "i < length (ch # rest)" "c = (ch # rest) ! i" by (auto simp: in_set_conv_nth)
    then have "at i = of_char c" by (simp add: at_def)
    with a i(1) show "0x80 \<le> (of_char c :: nat)" by metis
  qed
  consider "r = at 0" "width = 1" "at 0 < 0x80" | "width = 2" "0x80 \<le> at 0" "0x80 \<le> at 1"
    | "width = 3" "0x80 \<le> at 0" "0x80 \<le> at 1" "0x80 \<le> at 2"
    | "width = 4" "0x80 \<le> at 0" "0x80 \<le> at 1" "0x80 \<le> at 2" "0x80 \<le> at 3"
    | "r = RuneError" "width = 1"
    using assms unfolding decode_rune_def get Let_def by (auto simp: continues_def split: if_splits)
  then show ?thesis
  proof cases
    case 1
    then show ?thesis by (simp add: at_def)
  next
    case 2
    then show ?thesis using take by (auto simp: less_2_cases_iff)
  next
    case 3
    then have "\<forall>i < width. 0x80 \<le> at i" by (auto simp: less_Suc_eq numeral_3_eq_3 numeral_2_eq_2)
    then show ?thesis using take by blast
  next
    case 4
    then have "\<forall>i < width. 0x80 \<le> at i" by (auto simp: less_Suc_eq eval_nat_numeral)
    then show ?thesis using take by blast
  qed simp
qed

lemma escaped_no_LF: "LF \<notin> set raw \<or> r = 10 \<Longrightarrow> LF \<notin> set (escaped_rune P r raw)"
  by (auto simp: escaped_rune_def IsPrint_def)

lemma quote_body_no_LF: "LF \<notin> set (quote_body P s)"
proof (induction P s rule: quote_body.induct)
  case (2 P ch rest)
  obtain r width where d: "decode_rune (map of_char (ch # rest)) = (r, width)" by fastforce
  have "LF \<notin> set (escaped_rune P r (take width (ch # rest)))" if "\<not> (width = 1 \<and> r = RuneError)"
  proof (rule escaped_no_LF)
    show "LF \<notin> set (take width (ch # rest)) \<or> r = 10"
      using decode_rune_raw [OF d] that by (auto simp: of_char_LF eq_commute [of LF])
  qed
  moreover have "LF \<notin> set (quote_body P (drop (width - 1) rest))" by (rule 2 [OF d [symmetric] refl])
  ultimately show ?case unfolding quote_body.simps d Let_def prod.case by auto
qed simp

lemma quote_no_LF [simp]: "LF \<notin> set (quote P s)"
  by (simp add: quote_def quote_body_no_LF)

text \<open>Values whose text is one line, and values that are laid out over lines down to such ones.\<close>

fun one_line :: "tdf \<Rightarrow> bool" where
  "one_line TNil = True"
| "one_line (TInt _) = True"
| "one_line (TBool _) = True"
| "one_line (TStr _) = True"
| "one_line (TBlob _) = True"
| "one_line (TFloat _) = True"
| "one_line (TObjType _ _) = True"
| "one_line (TObjId _ _ _) = True"
| "one_line _ = False"

fun laid_out :: "tdf \<Rightarrow> bool" where
  "laid_out (TStruct fs) = (\<forall>(t, v) \<in> set fs. LF \<notin> set t \<and> laid_out v)"
| "laid_out (TList xs) = (\<forall>x \<in> set xs. laid_out x)"
| "laid_out (TMap m) = (\<forall>(k, v) \<in> set m. one_line k \<and> laid_out v)"
| "laid_out v = one_line v"

text \<open>
  One line break behind the bracket and one behind every part, where the parts of a map are its keys with the
  values found under them.
\<close>

function (sequential) line_breaks :: "tdf \<Rightarrow> nat" where
  "line_breaks (TStruct fs) = 1 + (\<Sum>(t, v) \<leftarrow> fs. line_breaks v + 1)"
| "line_breaks (TList xs) = 1 + (\<Sum>x \<leftarrow> xs. line_breaks x + 1)"
| "line_breaks (TMap m) = 1 + (\<Sum>k \<leftarrow> sortedMapKeys m. line_breaks (map_get m k) + 1)"
| "line_breaks _ = 0"
  by pat_completeness auto

termination
  by (relation "measure depth")
    (auto simp: less_Suc_eq_le depth_in depth_map_get le_max_iff_disj simp del: set_sortedMapKeys)

declare line_breaks.simps(3) [simp del]

lemma laid_out_get: "laid_out (TMap m) \<Longrightarrow> laid_out (map_get m k)"
  using map_get_cases [of m k] by auto

lemma scalar_no_LF: "one_line v \<Longrightarrow> LF \<notin> set (scalar P v)"
  by (cases v) (auto simp: scalar_def fmt_print.simps)

lemma indentation_no_LF [simp]: "LF \<notin> set (indentation n)"
  by (auto simp: indentation_def)

lemma count_concat: "count_list (concat xss) x = (\<Sum>xs \<leftarrow> xss. count_list xs x)"
  by (induction xss) auto

lemma count_clean: "LF \<notin> set s \<Longrightarrow> count_list s LF = 0"
  by (simp add: count_list_0_iff)

lemma sum_list_mset: "mset xs = mset ys \<Longrightarrow> sum_list (map f xs) = sum_list (map f ys :: nat list)"
  by (metis mset_map sum_mset_sum_list)

lemmas clean_text = count_clean scalar_no_LF newline_def

lemma count_writeValue: "laid_out v \<Longrightarrow> count_list (writeValue P v n) LF = line_breaks v"
proof (induction P v n rule: writeValue.induct)
  case (1 P fs n)
  let ?t = "\<lambda>(t, v). indentation n @ ''  '' @ t @ '' = '' @ writeValue P v (n + 1) @ newline"
  have "count_list (?t tv) LF = (case tv of (t, v) \<Rightarrow> line_breaks v + 1)" if "tv \<in> set (sortedKeys fs)" for tv
    using 1 that by (cases tv) (auto simp: clean_text)
  then have "(\<Sum>tv \<leftarrow> sortedKeys fs. count_list (?t tv) LF) = (\<Sum>(t, v) \<leftarrow> sortedKeys fs. line_breaks v + 1)"
    by (intro arg_cong [of _ _ sum_list] map_cong) auto
  also have "\<dots> = (\<Sum>(t, v) \<leftarrow> fs. line_breaks v + 1)" by (rule sum_list_mset) simp
  finally show ?case by (simp add: writeValue.simps clean_text count_concat o_def)
next
  case (2 P xs n)
  let ?t = "\<lambda>(i, v). indentation n @ ''  ['' @ nat_dec i @ ''] = '' @ writeValue P v (n + 1) @ newline"
  have "count_list (?t iv) LF = line_breaks (snd iv) + 1" if "iv \<in> set (enumerate 0 xs)" for iv
    using 2 that by (cases iv) (auto simp: clean_text in_set_enumerate_eq)
  then have "(\<Sum>iv \<leftarrow> enumerate 0 xs. count_list (?t iv) LF) = (\<Sum>iv \<leftarrow> enumerate 0 xs. line_breaks (snd iv) + 1)"
    by (intro arg_cong [of _ _ sum_list] map_cong) auto
  also have "\<dots> = (\<Sum>x \<leftarrow> map snd (enumerate 0 xs). line_breaks x + 1)" by (simp only: map_map o_def)
  finally show ?case by (simp add: writeValue.simps clean_text count_concat o_def)
next
  case (3 P m n)
  let ?t = "\<lambda>k. indentation n @ ''  ('' @ scalar P k @ '', '' @ writeValue P (map_get m k) (n + 1) @ '')'' @ newline"
  have "count_list (?t k) LF = line_breaks (map_get m k) + 1" if "k \<in> set (sortedMapKeys m)" for k
  proof -
    have "one_line k" using 3(2) that by auto
    moreover have "count_list (writeValue P (map_get m k) (n + 1)) LF = line_breaks (map_get m k)"
      using 3(1) [OF that laid_out_get [OF 3(2)]] by simp
    ultimately show ?thesis by (simp add: clean_text)
  qed
  then have "(\<Sum>k \<leftarrow> sortedMapKeys m. count_list (?t k) LF) = (\<Sum>k \<leftarrow> sortedMapKeys m. line_breaks (map_get m k) + 1)"
    by (intro arg_cong [of _ _ sum_list] map_cong) auto
  then show ?case by (simp add: writeValue.simps line_breaks.simps clean_text count_concat o_def)
qed (auto simp: clean_text)

text \<open>
  Claim C38. What a client puts into a string cannot break the layout of the log: a payload of structs, lists, maps
  and plain values is rendered on exactly as many lines as its structure has, whatever the texts,
  blobs and numbers in it are.  The parts of a map are its keys with what is found under them (nil under a
  NaN, a single line).
\<close>

theorem log_layout:
  assumes "laid_out v"
  shows "count_list (formatPayload P v) LF = line_breaks v"
  using count_writeValue [OF assms, of P 0] by (simp add: formatPayload_def)

text \<open>The packet is the same with its text, and a short one has no text.\<close>

lemma Fire2Decoder_log_packet:
  "Fire2Decoder_log P b = Inr (r, text_of) \<Longrightarrow> Fire2Decoder b = Inr r \<and> (r = None \<longrightarrow> text_of = '''')"
  by (auto simp: Fire2Decoder_log_def go_bind_Inr_iff)

theorem log_layout_witness:
  "\<forall>P. count_list (formatPayload P (TStruct [(''NAME'', TStr [LF, CHR 0x22, LF]), (''LIST'', TList [TInt 5, TStr [LF]])])) LF = 6"
proof
  fix P
  show "count_list (formatPayload P (TStruct [(''NAME'', TStr [LF, CHR 0x22, LF]), (''LIST'', TList [TInt 5, TStr [LF]])])) LF = 6"
    by (subst log_layout) simp_all
qed

end
