(* ===== verification/Tdf_Canonical.thy ===== *)
theory Tdf_Canonical
  imports Tdf_Encode
begin

text \<open>
  The encoder does not depend on the order in which Go maps are listed, at any depth.  It takes the type of
  the values of a map from one of them, and for a nested map from the first one its iteration happens to
  give (\<open>leafType\<close>), so the values of a map must agree on that type; and it sorts keys by their texts.
\<close>

definition uniform_map :: "tmap \<Rightarrow> bool" where
  "uniform_map m \<longleftrightarrow> distinct_texts m \<and> (\<forall>v \<in> snd ` set m. \<forall>w \<in> snd ` set m. leafType v = leafType w)"

definition same_enc :: "tdf \<Rightarrow> tdf \<Rightarrow> bool" where
  "same_enc v w \<longleftrightarrow> encodeValue v = encodeValue w \<and> leafType v = leafType w \<and>
     isEmptyCollection v = isEmptyCollection w \<and> (v = TNil \<longleftrightarrow> w = TNil)"

lemma same_encI:
  "encodeValue v = encodeValue w \<Longrightarrow> leafType v = leafType w \<Longrightarrow> isEmptyCollection v = isEmptyCollection w \<Longrightarrow>
   (v = TNil \<longleftrightarrow> w = TNil) \<Longrightarrow> same_enc v w"
  by (simp add: same_enc_def)

lemma same_enc_fields: "same_entries same_enc fs gs \<Longrightarrow> encodeFields fs = encodeFields gs"
  by (induction fs gs rule: list_all2_induct) (auto simp: same_enc_def encodeFields.simps)

lemma same_enc_struct: "same_entries same_enc fs gs \<Longrightarrow> encodeStruct fs root = encodeStruct gs root"
  using same_enc_fields [OF same_sorted_struct] by (simp add: encodeStruct.simps)

lemma same_enc_elems: "list_all2 same_enc xs ys \<Longrightarrow> encodeElems xs = encodeElems ys \<and> length xs = length ys"
  by (induction xs ys rule: list_all2_induct) (auto simp: same_enc_def)

lemma same_enc_entries:
  "(\<And>k. same_enc (map_get m k) (map_get m' k)) \<Longrightarrow> encodeEntries m ks = encodeEntries m' ks"
  by (induction ks) (simp_all add: same_enc_def)

lemma same_enc_map:
  assumes "sortedMapKeys m = sortedMapKeys m'" and "\<And>k. same_enc (map_get m k) (map_get m' k)"
  shows "encodeValue (TMap m) = encodeValue (TMap m')"
proof -
  have "length m = length m'" using arg_cong [where f = length, OF assms(1)] by simp
  moreover have "encodeEntries m = encodeEntries m'" using same_enc_entries [OF assms(2)] by blast
  ultimately show ?thesis
    using assms by (simp add: encodeValue.simps(9) same_enc_def del: encodeValue_map split: list.split)
qed

lemma uniform_leaf:
  assumes "mset m = mset m'" and "uniform_map m"
  shows "leafType (TMap m) = leafType (TMap m')"
proof (cases m)
  case Nil
  then show ?thesis using assms(1) by simp
next
  case (Cons kv r)
  obtain kv' r' where m': "m' = kv' # r'" using assms(1) Cons by (cases m') auto
  have s: "set m = set m'" by (rule mset_eq_setD [OF assms(1)])
  have "kv \<in> set m" "kv' \<in> set m" by (simp add: Cons) (simp add: s m')
  then have "leafType (snd kv) = leafType (snd kv')" using assms(2) unfolding uniform_map_def by blast
  moreover have "leafType (TMap m) = leafType (snd kv)" "leafType (TMap m') = leafType (snd kv')"
    by (cases kv; simp add: Cons) (cases kv'; simp add: m')
  ultimately show ?thesis by simp
qed

lemma same_value_enc: "same_value uniform_map v w \<Longrightarrow> same_enc v w"
proof (induction rule: same_value.induct)
  case (same_trans u v w)
  then show ?case by (simp add: same_enc_def)
next
  case (reorder_struct fs gs)
  then show ?case by (intro same_encI) (simp_all add: encodeStruct.simps reordered_struct)
next
  case (reorder_armed fs gs a)
  then show ?case by (intro same_encI) (simp_all add: encodeStruct.simps reordered_struct)
next
  case (reorder_map m m')
  then have "sortedMapKeys m = sortedMapKeys m'" by (intro reordered_keys) (simp_all add: uniform_map_def)
  moreover have "map_get m k = map_get m' k" for k using reorder_map by (intro reordered_get)
  ultimately have "encodeValue (TMap m) = encodeValue (TMap m')" by (intro same_enc_map) (simp_all add: same_enc_def)
  moreover have "m = [] \<longleftrightarrow> m' = []" using reorder_map by auto
  ultimately show ?case using uniform_leaf [of m m'] reorder_map by (intro same_encI) simp_all
next
  case (in_struct fs gs)
  have "same_entries same_enc fs gs" by (rule list_all2_mono [OF in_struct]) simp
  then show ?case by (intro same_encI) (simp_all add: same_enc_struct)
next
  case (in_armed fs gs a)
  have "same_entries same_enc fs gs" by (rule list_all2_mono [OF in_armed]) simp
  then show ?case by (intro same_encI) (simp_all add: same_enc_struct)
next
  case (in_map m m')
  have s: "same_entries same_enc m m'" by (rule list_all2_mono [OF in_map]) simp
  have "same_enc (map_get m k) (map_get m' k)" for k using same_get [OF s, of k] by (auto simp: same_enc_def)
  with same_sorted_keys [OF s] have "encodeValue (TMap m) = encodeValue (TMap m')" by (intro same_enc_map)
  then show ?case using s
    by (intro same_encI) (cases m; cases m'; force simp: same_enc_def simp del: encodeValue_map)+
next
  case (in_list xs ys)
  have s: "list_all2 same_enc xs ys" by (rule list_all2_mono [OF in_list]) simp
  then show ?case using same_enc_elems [OF s]
    by (intro same_encI) (cases xs; cases ys; force simp: same_enc_def simp del: encodeElems.simps)+
next
  case (in_typed xs ys t)
  have s: "list_all2 same_enc xs ys" by (rule list_all2_mono [OF in_typed]) simp
  then show ?case using same_enc_elems [OF s] by (intro same_encI) simp_all
next
  case (in_union v w a f)
  then show ?case by (intro same_encI) (simp_all add: same_enc_def)
next
  case (in_variable v w i f)
  then show ?case by (intro same_encI) (simp_all add: same_enc_def)
qed (simp add: same_enc_def)

text \<open>
  Claim C31. Encoding is canonical: however the Go maps of a message list their entries, its root, its nested
  structs and its maps alike, the bytes are the same, where the keys of a map have different texts and
  its values the same leaf type (the code leaves the bytes open otherwise).
\<close>

theorem EncodeTDF_canonical:
  assumes "same_value uniform_map (TStruct fs) (TStruct gs)"
  shows "EncodeTDF fs = EncodeTDF gs"
proof -
  have "encodeStruct fs False = encodeStruct gs False"
    using same_value_enc [OF assms] by (auto simp: same_enc_def go_bind_def split: sum.splits)
  then show ?thesis by (auto simp: EncodeTDF_def encodeStruct.simps go_bind_def split: sum.splits)
qed

theorem EncodeTDF_canonical_witness:
  "EncodeTDF [(''B'', TMap [(TStr ''x'', TInt 1), (TStr ''w'', TInt 2)]), (''A'', TInt 3)] =
   EncodeTDF [(''A'', TInt 3), (''B'', TMap [(TStr ''w'', TInt 2), (TStr ''x'', TInt 1)])]"
proof (rule EncodeTDF_canonical)
  let ?m = "[(TStr ''x'', TInt 1), (TStr ''w'', TInt 2)]" and ?m' = "[(TStr ''w'', TInt 2), (TStr ''x'', TInt 1)]"
  have "same_value uniform_map (TMap ?m) (TMap ?m')"
    by (rule reorder_map) (simp_all add: add_mset_commute uniform_map_def distinct_texts_def)
  then have "same_value uniform_map (TStruct [(''B'', TMap ?m), (''A'', TInt 3)]) (TStruct [(''B'', TMap ?m'), (''A'', TInt 3)])"
    by (intro in_struct) (auto intro: same_refl)
  moreover have "same_value uniform_map (TStruct [(''B'', TMap ?m'), (''A'', TInt 3)]) (TStruct [(''A'', TInt 3), (''B'', TMap ?m')])"
    by (rule reorder_struct) (simp_all add: add_mset_commute)
  ultimately show "same_value uniform_map (TStruct [(''B'', TMap ?m), (''A'', TInt 3)]) (TStruct [(''A'', TInt 3), (''B'', TMap ?m')])"
    by (rule same_trans)
qed

end
