(* ===== verification/Session.thy ===== *)
theory Session
  imports Legacy_Fire
begin

text \<open>
  Sessions (hpserver/session.go, hpserver/types.go): the state of one connection, its queue of
  outgoing frames, the notifications held back until the reply is queued, and the user data
  published about it.  Component and command numbers are those of hpserver/handlers.go.

  A session is mutable and shared by reference, so it lives in a heap and is known by its
  handle; equality of handles is the pointer equality of the code.
\<close>

section \<open>Protocol numbers\<close>

definition ComponentAuthentication :: u16 where "ComponentAuthentication = 1"
definition ComponentGameManager :: u16 where "ComponentGameManager = 4"
definition ComponentRedirector :: u16 where "ComponentRedirector = 5"
definition ComponentUtility :: u16 where "ComponentUtility = 9"
definition ComponentAssociation :: u16 where "ComponentAssociation = 25"
definition ComponentGameReporting :: u16 where "ComponentGameReporting = 28"
definition ComponentAutolog :: u16 where "ComponentAutolog = 0x0801"
definition ComponentUserSessions :: u16 where "ComponentUserSessions = 0x7802"

definition NotifyExtendedData :: u16 where "NotifyExtendedData = 0x01"
definition NotifyUserAdded :: u16 where "NotifyUserAdded = 0x02"
definition NotifyGameSetup :: u16 where "NotifyGameSetup = 0x14"
definition NotifyGameRemoved :: u16 where "NotifyGameRemoved = 0x10"
definition NotifyPlayerJoining :: u16 where "NotifyPlayerJoining = 0x15"
definition NotifyPlayerJoined :: u16 where "NotifyPlayerJoined = 0x1e"
definition NotifyPlayerRemoved :: u16 where "NotifyPlayerRemoved = 0x28"
definition NotifyPlatformHost :: u16 where "NotifyPlatformHost = 0x47"
definition NotifyGameAttrs :: u16 where "NotifyGameAttrs = 0x50"
definition NotifyPlayerAttrs :: u16 where "NotifyPlayerAttrs = 0x5a"
definition NotifyGameState :: u16 where "NotifyGameState = 0x64"
definition NotifyGameSettings :: u16 where "NotifyGameSettings = 0x6e"
definition NotifyGameCapacity :: u16 where "NotifyGameCapacity = 0x6f"

section \<open>State\<close>

type_synonym handle = nat

text \<open>\<open>net.Addr\<close>: a TCP address by its IP bytes (empty for a nil IP), or any other address.\<close>

datatype remote_addr = TCPAddr bytes | OtherAddr

record outboundFrame =
  frame :: Frame
  delay :: int  \<comment> \<open>milliseconds\<close>

text \<open>
  \<open>outbound\<close> is \<open>None\<close> for the nil channel, and else everything sent on the channel that the
  write loop has not taken yet; \<open>closed\<close> is the closed \<open>done\<close> channel.
\<close>

record Session =
  RemoteAddr :: remote_addr
  AccountID :: i64
  PersonaID :: i64
  SessionID :: i64
  Persona :: string
  Notifications :: "Frame list"
  NotificationDelay :: int
  PendingMatchmakingGame :: i64
  NetworkAddress :: "fields option"
  NetworkQOS :: "fields option"
  GameID :: i64
  QueuedMatchID :: i64
  outbound :: "outboundFrame list option"
  closed :: bool

definition newSession :: "remote_addr \<Rightarrow> Session" where
  "newSession remote =
     \<lparr>RemoteAddr = remote, AccountID = 0, PersonaID = 0, SessionID = 0, Persona = '''',
      Notifications = [], NotificationDelay = 0, PendingMatchmakingGame = 0,
      NetworkAddress = None, NetworkQOS = None, GameID = 0, QueuedMatchID = 0,
      outbound = Some [], closed = False\<rparr>"

definition notification :: "u16 \<Rightarrow> u16 \<Rightarrow> bytes \<Rightarrow> Frame" where
  "notification component command payload =
     \<lparr>Header = \<lparr>PayloadSize = 0, Component = component, Command = command, Error = 0,
        MessageType = MessageNotify, MessageID = 0\<rparr>, Payload = payload, TDF = None\<rparr>"

section \<open>Outgoing frames\<close>

text \<open>
  \<open>enqueue\<close> reports whether the frame was queued.  The channel is taken to have room: the
  blocking of a sender on a full channel is not modelled.  On a session that is both closed
  and has room the code may choose either case of its \<open>select\<close>; nothing reads the channel of a
  closed session, and the model drops the frame.
\<close>

definition enqueue :: "outboundFrame \<Rightarrow> Session \<Rightarrow> bool \<times> Session" where
  "enqueue item s =
     (case outbound s of
        None \<Rightarrow> (False, s)
      | Some q \<Rightarrow> if closed s then (False, s) else (True, s\<lparr>outbound := Some (q @ [item])\<rparr>))"

definition notify :: "Frame \<Rightarrow> Session \<Rightarrow> Session" where
  "notify f s =
     (if outbound s \<noteq> None then snd (enqueue \<lparr>frame = f, delay = 0\<rparr> s)
      else s\<lparr>Notifications := Notifications s @ [f]\<rparr>)"

text \<open>The loop of \<open>flushNotifications\<close>; \<open>d\<close> is the delay of the first frame.\<close>

fun flush_loop :: "int \<Rightarrow> Frame list \<Rightarrow> Session \<Rightarrow> Session" where
  "flush_loop d [] s = s"
| "flush_loop d (f # fs) s =
     (case enqueue \<lparr>frame = f, delay = d\<rparr> s of
        (False, s') \<Rightarrow> s'
      | (True, s') \<Rightarrow> flush_loop 0 fs s')"

definition flushNotifications :: "Session \<Rightarrow> Session" where
  "flushNotifications s =
     flush_loop (NotificationDelay s) (Notifications s) (s\<lparr>Notifications := [], NotificationDelay := 0\<rparr>)"

definition close :: "Session \<Rightarrow> Session" where
  "close s = s\<lparr>closed := True\<rparr>"

text \<open>Holding a notification back until the reply has been queued.\<close>

definition hold :: "Frame list \<Rightarrow> Session \<Rightarrow> Session" where
  "hold fs s = s\<lparr>Notifications := Notifications s @ fs\<rparr>"

section \<open>Names\<close>

definition personaTokenPrefix :: string where
  "personaTokenPrefix = ''LOCAL-PC-TOKEN|PNAM=''"

text \<open>The Unicode white space \<open>strings.TrimSpace\<close> removes, in UTF-8.\<close>

definition spaces :: "bytes list" where
  "spaces = [[0x09], [0x0a], [0x0b], [0x0c], [0x0d], [0x20], [0xc2, 0x85], [0xc2, 0xa0],
     [0xe1, 0x9a, 0x80], [0xe2, 0x80, 0x80], [0xe2, 0x80, 0x81], [0xe2, 0x80, 0x82],
     [0xe2, 0x80, 0x83], [0xe2, 0x80, 0x84], [0xe2, 0x80, 0x85], [0xe2, 0x80, 0x86],
     [0xe2, 0x80, 0x87], [0xe2, 0x80, 0x88], [0xe2, 0x80, 0x89], [0xe2, 0x80, 0x8a],
     [0xe2, 0x80, 0xa8], [0xe2, 0x80, 0xa9], [0xe2, 0x80, 0xaf], [0xe2, 0x81, 0x9f],
     [0xe3, 0x80, 0x80]]"

definition starts_with :: "bytes \<Rightarrow> bytes \<Rightarrow> bool" where
  "starts_with p b \<longleftrightarrow> take (length p) b = p"

text \<open>\<open>trim ws b\<close> strips the sequences of \<open>ws\<close> off the front, from the left.\<close>

function trim :: "bytes list \<Rightarrow> bytes \<Rightarrow> bytes" where
  "trim ws b =
     (case List.find (\<lambda>w. w \<noteq> [] \<and> starts_with w b) ws of
        None \<Rightarrow> b
      | Some w \<Rightarrow> trim ws (drop (length w) b))"
  by pat_completeness auto

termination
proof (relation "measure (\<lambda>(_, b). length b)", goal_cases)
  case (2 ws b w)
  then have "w \<noteq> []" and "take (length w) b = w"
    by (auto simp: find_Some_iff starts_with_def)
  moreover from this have "b \<noteq> []" by auto
  ultimately show ?case by simp
qed simp

declare trim.simps [simp del]

definition TrimSpace :: "bytes \<Rightarrow> bytes" where
  "TrimSpace b = rev (trim (map rev spaces) (rev (trim spaces b)))"

text \<open>\<open>utf8.ValidString\<close>.\<close>

definition cont :: "u8 \<Rightarrow> bool" where
  "cont b \<longleftrightarrow> 0x80 \<le> b \<and> b \<le> 0xbf"

fun valid_utf8 :: "bytes \<Rightarrow> bool" where
  "valid_utf8 [] = True"
| "valid_utf8 (a # r) =
     (if a < 0x80 then valid_utf8 r
      else if 0xc2 \<le> a \<and> a \<le> 0xdf
      then (case r of b # r' \<Rightarrow> cont b \<and> valid_utf8 r' | _ \<Rightarrow> False)
      else if 0xe0 \<le> a \<and> a \<le> 0xef
      then (case r of
              b # c # r' \<Rightarrow> cont b \<and> cont c \<and> (a = 0xe0 \<longrightarrow> 0xa0 \<le> b) \<and> (a = 0xed \<longrightarrow> b \<le> 0x9f) \<and>
                valid_utf8 r'
            | _ \<Rightarrow> False)
      else if 0xf0 \<le> a \<and> a \<le> 0xf4
      then (case r of
              b # c # d # r' \<Rightarrow> cont b \<and> cont c \<and> cont d \<and> (a = 0xf0 \<longrightarrow> 0x90 \<le> b) \<and>
                (a = 0xf4 \<longrightarrow> b \<le> 0x8f) \<and> valid_utf8 r'
            | _ \<Rightarrow> False)
      else False)"

definition personaNameFromToken :: "string \<Rightarrow> string" where
  "personaNameFromToken token =
     (if take (length personaTokenPrefix) token \<noteq> personaTokenPrefix then ''''
      else let name = TrimSpace (str_bytes (drop (length personaTokenPrefix) token)) in
        if name = [] \<or> 32 < length name \<or> \<not> valid_utf8 name then ''''
        else if \<exists>value \<in> set name. value < 0x20 \<or> value = 0x7f then ''''
        else bytes_str name)"

definition personaName :: "i64 \<Rightarrow> string" where
  "personaName personaID =
     (if sint personaID \<le> 1 then ''Player'' else ''Player'' @ int_dec (sint personaID))"

definition userSessionID :: "Session \<Rightarrow> i64" where
  "userSessionID session = (if SessionID session \<noteq> 0 then SessionID session else PersonaID session)"

definition canonicalPlayerID :: "Session \<Rightarrow> i64" where
  "canonicalPlayerID player = PersonaID player"

definition playerName :: "Session \<Rightarrow> string" where
  "playerName player =
     (if Persona player \<noteq> '''' then Persona player else personaName (PersonaID player))"

section \<open>Published user data\<close>

definition emptyQOS :: fields where
  "emptyQOS = [(''DBPS'', TInt 0), (''NATT'', TInt 0), (''UBPS'', TInt 0)]"

definition syntheticUserSessionExtendedData :: fields where
  "syntheticUserSessionExtendedData =
     [(''ADDR'', TUnion 0x7f '''' TNil),
      (''BPS'', TStr ''''),
      (''CTY'', TStr ''US''),
      (''CVAR'', TVar 0 '''' TNil),
      (''HWFG'', TInt 0),
      (''PSLM'', TTyped 0 []),
      (''QDAT'', TStruct emptyQOS),
      (''UATT'', TInt 0),
      (''ULST'', TTyped 9 [])]"

definition sessionQOS :: "Session \<Rightarrow> fields" where
  "sessionQOS session = (case NetworkQOS session of Some qos \<Rightarrow> qos | None \<Rightarrow> emptyQOS)"

text \<open>\<open>net.IP.To4\<close>.\<close>

definition To4 :: "bytes \<Rightarrow> bytes option" where
  "To4 ip =
     (if length ip = 4 then Some ip
      else if length ip = 16 \<and> take 10 ip = replicate 10 0 \<and> ip ! 10 = 0xff \<and> ip ! 11 = 0xff
      then Some (drop 12 ip) else None)"

definition sessionIPPair :: "Session \<Rightarrow> fields" where
  "sessionIPPair session =
     (case NetworkAddress session of
        Some address \<Rightarrow> address
      | None \<Rightarrow>
          (let ip = (case RemoteAddr session of
                 TCPAddr a \<Rightarrow> if a \<noteq> [] then a else [127, 0, 0, 1]
               | OtherAddr \<Rightarrow> [127, 0, 0, 1]);
               numeric = (case To4 ip of Some ip4 \<Rightarrow> ucast (get_u32 ip4) | None \<Rightarrow> 0x7f000001)
           in [(''EXIP'', TStruct [(''IP'', TInt 0), (''PORT'', TInt 0)]),
               (''INIP'', TStruct [(''IP'', TInt numeric), (''PORT'', TInt 3659)])]))"

definition userNotificationsFor :: "Session \<Rightarrow> Frame list go" where
  "userNotificationsFor player =
     (let playerID = canonicalPlayerID player;
          data = AList.update ''QDAT'' (TStruct (sessionQOS player))
            (AList.update ''ADDR'' (TUnion 2 ''VALU'' (TStruct (sessionIPPair player)))
              syntheticUserSessionExtendedData)
      in
      go_bind (EncodeTDF
        [(''DATA'', TStruct data),
         (''USER'', TStruct
           [(''AID'', TInt (AccountID player)), (''ALOC'', TInt 0), (''EXBB'', TBlob []),
            (''EXID'', TInt 0), (''ID'', TInt playerID), (''NAME'', TStr (playerName player))])])
        (\<lambda>added.
      go_bind (EncodeTDF [(''DATA'', TStruct data), (''USID'', TInt (userSessionID player))])
        (\<lambda>extended.
      Inr [notification ComponentUserSessions NotifyUserAdded added,
           notification ComponentUserSessions NotifyExtendedData extended])))"

end
