(* ===== verification/Game.thy ===== *)
theory Game
  imports Session
begin

text \<open>
  Games (hpserver/game.go): membership, slots, the per-player state, the peer-to-peer mesh and
  the setup that is published.  Members are session handles; \<open>H\<close> is the heap of sessions and
  \<open>now\<close> the Unix time \<open>time.Now().Unix()\<close>.  The Go maps of a game are association lists; a nil
  map reads as the empty one.
\<close>

record Game =
  ID :: i64
  Host :: handle
  Members :: "handle list"
  Attrs :: tmap
  Capacity :: i64
  Topology :: i64
  State :: i64
  Settings :: i64
  Slots :: "(i64 \<times> i64) list"
  JoinedAt :: "(i64 \<times> i64) list"
  PlayerAttrs :: "(i64 \<times> tmap) list"
  PlayerStates :: "(i64 \<times> i64) list"
  Mesh :: "(i64 \<times> (i64 \<times> i64) list) list"
  MeshReady :: "(i64 \<times> bool) list"

record matchRequest =
  session :: handle
  attrs :: tmap
  cap :: i64
  topology :: i64
  msid :: i64

text \<open>Reading a Go map yields the zero value for an absent key.\<close>

definition get :: "'v \<Rightarrow> ('k \<times> 'v) list \<Rightarrow> 'k \<Rightarrow> 'v" where
  "get zero m k = (case map_of m k of Some v \<Rightarrow> v | None \<Rightarrow> zero)"

definition has :: "('k \<times> 'v) list \<Rightarrow> 'k \<Rightarrow> bool" where
  "has m k \<longleftrightarrow> map_of m k \<noteq> None"

section \<open>Membership\<close>

text \<open>The loop of \<open>ensureMembershipState\<close> over the members, with the index of the first one.\<close>

definition ensure_member :: "(handle \<Rightarrow> Session) \<Rightarrow> i64 \<Rightarrow> nat \<Rightarrow> handle \<Rightarrow> Game \<Rightarrow> Game" where
  "ensure_member H now index member game =
     (let pid = PersonaID (H member);
          g1 = (if has (Slots game) pid then game
                else game\<lparr>Slots := AList.update pid (of_nat index) (Slots game)\<rparr>);
          g2 = (if get 0 (JoinedAt g1) pid = 0
                then g1\<lparr>JoinedAt := AList.update pid now (JoinedAt g1)\<rparr> else g1)
      in if has (PlayerStates g2) pid then g2
         else g2\<lparr>PlayerStates := AList.update pid 4 (PlayerStates g2)\<rparr>)"

fun ensure_loop :: "(handle \<Rightarrow> Session) \<Rightarrow> i64 \<Rightarrow> nat \<Rightarrow> handle list \<Rightarrow> Game \<Rightarrow> Game" where
  "ensure_loop H now index [] game = game"
| "ensure_loop H now index (member # rest) game =
     ensure_loop H now (Suc index) rest (ensure_member H now index member game)"

definition ensureMembershipState :: "(handle \<Rightarrow> Session) \<Rightarrow> i64 \<Rightarrow> Game \<Rightarrow> Game" where
  "ensureMembershipState H now game = ensure_loop H now 0 (Members game) game"

text \<open>
  The loop \<open>for used[slot] { slot++ }\<close>, with fuel for as many rounds as there are entries
  (\<open>free_slot_least\<close> shows that this is enough).
\<close>

fun free_slot :: "nat \<Rightarrow> i64 list \<Rightarrow> i64 \<Rightarrow> i64" where
  "free_slot 0 used slot = slot"
| "free_slot (Suc n) used slot = (if slot \<in> set used then free_slot n used (slot + 1) else slot)"

definition addMember :: "(handle \<Rightarrow> Session) \<Rightarrow> i64 \<Rightarrow> handle \<Rightarrow> Game \<Rightarrow> (i64 \<times> bool) \<times> Game" where
  "addMember H now s game0 =
     (let game = ensureMembershipState H now game0; pid = PersonaID (H s) in
      case List.find (\<lambda>member. member = s \<or> PersonaID (H member) = pid) (Members game) of
        Some member \<Rightarrow> ((get 0 (Slots game) (PersonaID (H member)), False), game)
      | None \<Rightarrow>
          if 0 < sint (Capacity game) \<and> sint (Capacity game) \<le> int (length (Members game))
          then ((- 1, False), game)
          else
            let used = map snd (Slots game); slot = free_slot (length used) used 0 in
            ((slot, True),
             game\<lparr>Members := Members game @ [s],
               Slots := AList.update pid slot (Slots game),
               JoinedAt := AList.update pid now (JoinedAt game),
               PlayerAttrs := AList.update pid [] (PlayerAttrs game),
               PlayerStates := AList.update pid 4 (PlayerStates game)\<rparr>))"

definition newGame ::
  "(handle \<Rightarrow> Session) \<Rightarrow> i64 \<Rightarrow> i64 \<Rightarrow> handle \<Rightarrow> handle list \<Rightarrow> tmap \<Rightarrow> i64 \<Rightarrow> i64 \<Rightarrow> i64 \<Rightarrow> Game" where
  "newGame H now gid host members ats capacity topo state =
     fold (\<lambda>member game. snd (addMember H now member game)) members
       \<lparr>ID = gid, Host = host, Members = [], Attrs = ats, Capacity = capacity, Topology = topo,
        State = state, Settings = 284, Slots = [], JoinedAt = [], PlayerAttrs = [],
        PlayerStates = [], Mesh = [], MeshReady = []\<rparr>"

definition removeMember :: "(handle \<Rightarrow> Session) \<Rightarrow> handle \<Rightarrow> Game \<Rightarrow> bool \<times> Game" where
  "removeMember H s game =
     (if s \<in> set (Members game)
      then
        let pid = PersonaID (H s) in
        (True,
         game\<lparr>Members := remove1 s (Members game),
           Slots := AList.delete pid (Slots game),
           JoinedAt := AList.delete pid (JoinedAt game),
           PlayerAttrs := AList.delete pid (PlayerAttrs game),
           PlayerStates := AList.delete pid (PlayerStates game),
           Mesh := map (\<lambda>(k, connections). (k, AList.delete pid connections))
             (AList.delete pid (Mesh game)),
           MeshReady := AList.delete pid (MeshReady game)\<rparr>)
      else (False, game))"

definition sessionForPlayerID :: "(handle \<Rightarrow> Session) \<Rightarrow> Game \<Rightarrow> i64 \<Rightarrow> handle option" where
  "sessionForPlayerID H game playerID =
     List.find (\<lambda>member. canonicalPlayerID (H member) = playerID) (Members game)"

section \<open>Compatibility\<close>

definition match_keys :: "string list" where
  "match_keys = [''playlist'', ''cartier'', ''event'', ''visibility'']"

text \<open>The loop of \<open>isCompatibleGame\<close>.  Comparing two values of an uncomparable type panics.\<close>

fun game_keys :: "string list \<Rightarrow> tmap \<Rightarrow> tmap \<Rightarrow> bool go" where
  "game_keys [] req act = Inr True"
| "game_keys (k # ks) req act =
     (case map_of req (TStr k) of
        None \<Rightarrow> game_keys ks req act
      | Some requested \<Rightarrow>
          (case map_of act (TStr k) of
             None \<Rightarrow> Inr False
           | Some actual \<Rightarrow>
               go_bind (go_eq requested actual) (\<lambda>same.
                 if same then game_keys ks req act else Inr False)))"

definition isCompatibleGame :: "Game \<Rightarrow> matchRequest \<Rightarrow> bool go" where
  "isCompatibleGame game request =
     (if Host game = session request \<or> sint (Capacity game) \<le> int (length (Members game)) \<or>
         (0 < sint (cap request) \<and> sint (cap request) < sint (Capacity game)) \<or>
         Topology game \<noteq> topology request
      then Inr False else game_keys match_keys (attrs request) (Attrs game))"

section \<open>Mesh\<close>

definition mesh_status :: "Game \<Rightarrow> i64 \<Rightarrow> i64 \<Rightarrow> i64" where
  "mesh_status game p q = get 0 (get [] (Mesh game) p) q"

definition meshReadyForPlayer :: "(handle \<Rightarrow> Session) \<Rightarrow> Game \<Rightarrow> handle \<Rightarrow> bool" where
  "meshReadyForPlayer H game player =
     list_all (\<lambda>member. member = player \<or>
       (mesh_status game (PersonaID (H player)) (PersonaID (H member)) = 2 \<and>
        mesh_status game (PersonaID (H member)) (PersonaID (H player)) = 2)) (Members game)"

definition refreshMeshReadiness :: "(handle \<Rightarrow> Session) \<Rightarrow> Game \<Rightarrow> Game" where
  "refreshMeshReadiness H game =
     fold (\<lambda>player g. g\<lparr>MeshReady :=
       AList.update (PersonaID (H player)) (meshReadyForPlayer H g player) (MeshReady g)\<rparr>)
       (Members game) game"

section \<open>Published game data\<close>

definition replicatedGamePlayer :: "(handle \<Rightarrow> Session) \<Rightarrow> i64 \<Rightarrow> Game \<Rightarrow> handle \<Rightarrow> fields \<times> Game" where
  "replicatedGamePlayer H now game0 p =
     (let game = ensureMembershipState H now game0; player = H p; pid = PersonaID player in
      ([(''BLOB'', TBlob []), (''EXID'', TInt 0), (''GID'', TInt (ID game)), (''LOC'', TInt 0),
        (''NAME'', TStr (playerName player)), (''PID'', TInt (canonicalPlayerID player)),
        (''NQOS'', TStruct (sessionQOS player)),
        (''PATT'', TMap (get [] (PlayerAttrs game) pid)),
        (''PNET'', TUnion 2 ''VALU'' (TStruct (sessionIPPair player))),
        (''SID'', TInt (get 0 (Slots game) pid)), (''SLOT'', TInt 0),
        (''STAT'', TInt (get 0 (PlayerStates game) pid)),
        (''TEAM'', TInt (- 1)), (''TIDX'', TInt (- 1)),
        (''TIME'', TInt (get 0 (JoinedAt game) pid)),
        (''UGID'', TObjId 0 0 0), (''UID'', TInt (userSessionID player))],
       game))"

fun replicate_players :: "(handle \<Rightarrow> Session) \<Rightarrow> i64 \<Rightarrow> handle list \<Rightarrow> Game \<Rightarrow> tdf list \<times> Game" where
  "replicate_players H now [] game = ([], game)"
| "replicate_players H now (m # ms) game =
     (let (p, g1) = replicatedGamePlayer H now game m; (ps, g2) = replicate_players H now ms g1
      in (TStruct p # ps, g2))"

definition gameSetup :: "(handle \<Rightarrow> Session) \<Rightarrow> i64 \<Rightarrow> Game \<Rightarrow> fields \<times> Game" where
  "gameSetup H now game0 =
     (let reg = ensureMembershipState H now game0;
          host = H (Host reg);
          personaID = canonicalPlayerID host;
          hostInfo = TStruct [(''HPID'', TInt personaID), (''HSLT'', TInt 0)];
          game =
            [(''ATTR'', TMap (Attrs reg)),
             (''CAP'', TTyped 0 [TInt (Capacity reg), TInt 0]),
             (''GID'', TInt (ID reg)),
             (''GNAM'', TStr (playerName host)),
             (''GPVH'', TInt 0),
             (''GSET'', TInt (Settings reg)),
             (''GSID'', TInt (ID reg)),
             (''GSTA'', TInt (State reg)),
             (''GTYP'', TStr ''''),
             (''HNET'', TTyped 3 [TArmed 2 (sessionIPPair host)]),
             (''HSES'', TInt (userSessionID host)),
             (''IGNO'', TBool False),
             (''MCAP'', TInt (Capacity reg)),
             (''NQOS'', TStruct (sessionQOS host)),
             (''NTOP'', TInt (Topology reg)),
             (''PHST'', hostInfo),
             (''PSAS'', TStr ''''),
             (''QCAP'', TInt 0),
             (''SEED'', TInt 1),
             (''THST'', hostInfo),
             (''UUID'', TStr (''LOCAL-GAME-'' @ int_dec (sint (ID reg)))),
             (''VOIP'', TInt 0),
             (''VSTR'', TStr ''Retail-0.2''),
             (''ADMN'', TTyped 0 [TInt personaID])];
          (players, reg') = replicate_players H now (Members reg) reg
      in ([(''GAME'', TStruct game),
           (''PROS'', TTyped 3 players),
           (''REAS'', TUnion 1 ''VALU'' (TStruct [(''ERR'', TInt 0)]))],
          reg'))"

section \<open>Slots\<close>

lemma get_simps [simp]:
  "get z [] k = z"
  "get z (AList.update k v m) k' = (if k' = k then v else get z m k')"
  "get z (AList.delete k m) k' = (if k' = k then z else get z m k')"
  by (simp_all add: get_def update_conv' delete_conv' AList.map_of_delete)

lemma has_simps [simp]:
  "has [] k = False"
  "has (AList.update k v m) k' = (k' = k \<or> has m k')"
  "has (AList.delete k m) k' = (k' \<noteq> k \<and> has m k')"
  by (simp_all add: has_def update_conv' delete_conv')

lemma has_iff: "has m k \<longleftrightarrow> k \<in> fst ` set m"
  by (force simp: has_def map_of_eq_None_iff)

lemma free_slot_run:
  "\<exists>m. free_slot n used (of_nat j) = of_nat m \<and> j \<le> m \<and> m \<le> j + n \<and>
     (\<forall>i. j \<le> i \<and> i < m \<longrightarrow> of_nat i \<in> set used) \<and> (m = j + n \<or> of_nat m \<notin> set used)"
proof (induction n arbitrary: j)
  case 0
  then show ?case by (intro exI [of _ j]) auto
next
  case (Suc n)
  show ?case
  proof (cases "(of_nat j :: i64) \<in> set used")
    case True
    obtain m where m: "free_slot n used (of_nat (Suc j)) = of_nat m" "Suc j \<le> m" "m \<le> Suc j + n"
      "\<forall>i. Suc j \<le> i \<and> i < m \<longrightarrow> (of_nat i :: i64) \<in> set used" "m = Suc j + n \<or> (of_nat m :: i64) \<notin> set used"
      using Suc.IH [of "Suc j"] by blast
    have "free_slot (Suc n) used (of_nat j) = of_nat m" using True m(1) by (simp add: add.commute)
    moreover have "\<forall>i. j \<le> i \<and> i < m \<longrightarrow> (of_nat i :: i64) \<in> set used"
      using m(4) True by (metis Suc_leI le_neq_implies_less)
    ultimately show ?thesis using m by (intro exI [of _ m]) auto
  next
    case False
    then show ?thesis by (intro exI [of _ j]) auto
  qed
qed

lemma inj_of_nat_word: "inj_on (of_nat :: nat \<Rightarrow> i64) {..< 2 ^ 64}"
proof (rule inj_onI)
  fix x y :: nat assume "x \<in> {..< 2 ^ 64}" "y \<in> {..< 2 ^ 64}" "(of_nat x :: i64) = of_nat y"
  then have "unat (of_nat x :: i64) = unat (of_nat y :: i64)" "x < 2 ^ 64" "y < 2 ^ 64" by simp_all
  then show "x = y" by (simp add: unat_of_nat)
qed

text \<open>The slot found is free, and every smaller one is used.\<close>

lemma free_slot_least:
  assumes "length used < 2 ^ 64"
  shows "\<exists>m. free_slot (length used) used 0 = of_nat m \<and> m \<le> length used \<and>
    of_nat m \<notin> set used \<and> (\<forall>i < m. of_nat i \<in> set used)"
proof -
  obtain m where m: "free_slot (length used) used (of_nat 0) = of_nat m" "m \<le> length used"
    "\<forall>i < m. (of_nat i :: i64) \<in> set used" "m = length used \<or> (of_nat m :: i64) \<notin> set used"
    using free_slot_run [of "length used" used 0] by auto
  have "(of_nat m :: i64) \<notin> set used"
  proof
    assume u: "(of_nat m :: i64) \<in> set used"
    then have "m = length used" using m(4) by simp
    then have "of_nat ` {..m} \<subseteq> set used" using m(3) u by (auto simp: le_less)
    then have "card ((of_nat :: nat \<Rightarrow> i64) ` {..m}) \<le> card (set used)" by (intro card_mono) auto
    moreover have "card ((of_nat :: nat \<Rightarrow> i64) ` {..m}) = Suc m"
      using assms \<open>m = length used\<close> by (subst card_image) (auto intro: inj_on_subset [OF inj_of_nat_word])
    ultimately show False using card_length [of used] \<open>m = length used\<close> by simp
  qed
  with m show ?thesis by auto
qed

section \<open>Membership\<close>

lemma ensure_member_keeps [simp]:
  "Members (ensure_member H now i m g) = Members g" "ID (ensure_member H now i m g) = ID g"
  "Host (ensure_member H now i m g) = Host g" "Attrs (ensure_member H now i m g) = Attrs g"
  "Capacity (ensure_member H now i m g) = Capacity g" "Topology (ensure_member H now i m g) = Topology g"
  "State (ensure_member H now i m g) = State g" "Settings (ensure_member H now i m g) = Settings g"
  "PlayerAttrs (ensure_member H now i m g) = PlayerAttrs g" "Mesh (ensure_member H now i m g) = Mesh g"
  "MeshReady (ensure_member H now i m g) = MeshReady g"
  by (simp_all add: ensure_member_def Let_def)

lemma ensure_loop_keeps [simp]:
  "Members (ensure_loop H now i ms g) = Members g" "ID (ensure_loop H now i ms g) = ID g"
  "Host (ensure_loop H now i ms g) = Host g" "Attrs (ensure_loop H now i ms g) = Attrs g"
  "Capacity (ensure_loop H now i ms g) = Capacity g" "Topology (ensure_loop H now i ms g) = Topology g"
  "State (ensure_loop H now i ms g) = State g" "Settings (ensure_loop H now i ms g) = Settings g"
  "PlayerAttrs (ensure_loop H now i ms g) = PlayerAttrs g" "Mesh (ensure_loop H now i ms g) = Mesh g"
  "MeshReady (ensure_loop H now i ms g) = MeshReady g"
  by (induction ms arbitrary: i g) simp_all

lemma ensure_keeps [simp]:
  "Members (ensureMembershipState H now g) = Members g" "ID (ensureMembershipState H now g) = ID g"
  "Host (ensureMembershipState H now g) = Host g" "Attrs (ensureMembershipState H now g) = Attrs g"
  "Capacity (ensureMembershipState H now g) = Capacity g" "Topology (ensureMembershipState H now g) = Topology g"
  "State (ensureMembershipState H now g) = State g" "Settings (ensureMembershipState H now g) = Settings g"
  "PlayerAttrs (ensureMembershipState H now g) = PlayerAttrs g" "Mesh (ensureMembershipState H now g) = Mesh g"
  "MeshReady (ensureMembershipState H now g) = MeshReady g"
  by (simp_all add: ensureMembershipState_def)

lemma ensure_loop_Slots:
  "(\<forall>m \<in> set ms. has (Slots g) (PersonaID (H m))) \<Longrightarrow> Slots (ensure_loop H now i ms g) = Slots g"
  by (induction ms arbitrary: i g) (simp_all add: ensure_member_def Let_def)

text \<open>
  A well-formed game: no two members share a persona, exactly the members have a slot, and no
  two share one.
\<close>

definition game_ok :: "(handle \<Rightarrow> Session) \<Rightarrow> Game \<Rightarrow> bool" where
  "game_ok H g \<longleftrightarrow>
     distinct (map (\<lambda>m. PersonaID (H m)) (Members g)) \<and>
     distinct (map fst (Slots g)) \<and> distinct (map snd (Slots g)) \<and>
     fst ` set (Slots g) = (\<lambda>m. PersonaID (H m)) ` set (Members g)"

lemma ensure_Slots [simp]: "game_ok H g \<Longrightarrow> Slots (ensureMembershipState H now g) = Slots g"
  unfolding ensureMembershipState_def by (rule ensure_loop_Slots) (auto simp: game_ok_def has_iff)

lemma game_ok_ensure [simp]: "game_ok H g \<Longrightarrow> game_ok H (ensureMembershipState H now g)"
  by (simp add: game_ok_def [of H "ensureMembershipState H now g"]) (simp add: game_ok_def)

lemma game_ok_distinct: "game_ok H g \<Longrightarrow> distinct (Members g)"
  by (auto simp: game_ok_def distinct_map)

lemma game_ok_length:
  assumes "game_ok H g"
  shows "length (Slots g) = length (Members g)"
proof -
  let ?P = "\<lambda>m. PersonaID (H m)"
  have "card (set (map fst (Slots g))) = length (map fst (Slots g))"
    and "card (set (map ?P (Members g))) = length (map ?P (Members g))"
    using assms unfolding game_ok_def by (simp_all only: distinct_card)
  moreover have "set (map fst (Slots g)) = set (map ?P (Members g))"
    using assms by (simp add: game_ok_def)
  ultimately show ?thesis by simp
qed

lemma snd_update_new:
  "k \<notin> fst ` set m \<Longrightarrow> AList.update k v m = m @ [(k, v)]"
  by (rule update_fresh)

lemma addMember_known:
  assumes "m \<in> set (Members g)" and "m = s \<or> PersonaID (H m) = PersonaID (H s)"
  shows "\<exists>slot. addMember H now s g = ((slot, False), ensureMembershipState H now g)"
proof -
  have "List.find (\<lambda>member. member = s \<or> PersonaID (H member) = PersonaID (H s)) (Members g) \<noteq> None"
    using assms by (auto simp: find_None_iff)
  then show ?thesis by (auto simp: addMember_def Let_def)
qed

lemma addMember_full:
  assumes "\<forall>m \<in> set (Members g). m \<noteq> s \<and> PersonaID (H m) \<noteq> PersonaID (H s)"
    and "0 < sint (Capacity g)" and "sint (Capacity g) \<le> int (length (Members g))"
  shows "addMember H now s g = ((- 1, False), ensureMembershipState H now g)"
proof -
  have "List.find (\<lambda>member. member = s \<or> PersonaID (H member) = PersonaID (H s)) (Members g) = None"
    using assms by (auto simp: find_None_iff)
  with assms show ?thesis by (simp add: addMember_def Let_def)
qed

definition joined :: "(handle \<Rightarrow> Session) \<Rightarrow> i64 \<Rightarrow> handle \<Rightarrow> i64 \<Rightarrow> Game \<Rightarrow> Game" where
  "joined H now s slot g0 =
     (let g = ensureMembershipState H now g0; pid = PersonaID (H s) in
      g\<lparr>Members := Members g @ [s], Slots := AList.update pid slot (Slots g),
        JoinedAt := AList.update pid now (JoinedAt g),
        PlayerAttrs := AList.update pid [] (PlayerAttrs g),
        PlayerStates := AList.update pid 4 (PlayerStates g)\<rparr>)"

lemma joined_keeps [simp]:
  "Members (joined H now s slot g) = Members g @ [s]" "ID (joined H now s slot g) = ID g"
  "Host (joined H now s slot g) = Host g" "Attrs (joined H now s slot g) = Attrs g"
  "Capacity (joined H now s slot g) = Capacity g" "Topology (joined H now s slot g) = Topology g"
  "State (joined H now s slot g) = State g" "Settings (joined H now s slot g) = Settings g"
  "Mesh (joined H now s slot g) = Mesh g" "MeshReady (joined H now s slot g) = MeshReady g"
  "game_ok H g \<Longrightarrow> Slots (joined H now s slot g) = AList.update (PersonaID (H s)) slot (Slots g)"
  by (simp_all add: joined_def Let_def)

lemma addMember_new:
  assumes ok: "game_ok H g"
    and new: "\<forall>m \<in> set (Members g). m \<noteq> s \<and> PersonaID (H m) \<noteq> PersonaID (H s)"
    and room: "sint (Capacity g) \<le> 0 \<or> int (length (Members g)) < sint (Capacity g)"
  shows "\<exists>n. addMember H now s g = ((of_nat n, True), joined H now s (of_nat n) g) \<and>
    n \<le> length (Members g) \<and> of_nat n \<notin> snd ` set (Slots g) \<and>
    (\<forall>i < n. of_nat i \<in> snd ` set (Slots g)) \<and> game_ok H (joined H now s (of_nat n) g)"
proof -
  let ?P = "\<lambda>m. PersonaID (H m)"
  have "length (Members g) = card (?P ` set (Members g))"
    using ok unfolding game_ok_def by (metis distinct_card length_map list.set_map)
  also have "\<dots> < card (UNIV :: i64 set)"
  proof (rule psubset_card_mono)
    have "?P s \<notin> ?P ` set (Members g)" using new by force
    then show "?P ` set (Members g) \<subset> UNIV" by blast
  qed simp
  finally have "length (Members g) < 2 ^ 64" by (simp add: card_word)
  then have "length (map snd (Slots g)) < 2 ^ 64" using game_ok_length [OF ok] by simp
  from free_slot_least [OF this] obtain n where n: "free_slot (length (Slots g)) (map snd (Slots g)) 0 = of_nat n"
    "n \<le> length (Members g)" "of_nat n \<notin> snd ` set (Slots g)" "\<forall>i < n. of_nat i \<in> snd ` set (Slots g)"
    using game_ok_length [OF ok] by auto
  have "List.find (\<lambda>member. member = s \<or> PersonaID (H member) = PersonaID (H s)) (Members g) = None"
    using new by (auto simp: find_None_iff)
  then have "addMember H now s g = ((of_nat n, True), joined H now s (of_nat n) g)"
    using room ok n(1) by (auto simp: addMember_def joined_def Let_def)
  moreover have "?P s \<notin> fst ` set (Slots g)" using ok new by (force simp: game_ok_def)
  then have "Slots (joined H now s (of_nat n) g) = Slots g @ [(?P s, of_nat n)]"
    using ok by (simp add: snd_update_new)
  then have "game_ok H (joined H now s (of_nat n) g)"
    using ok new n(3) \<open>?P s \<notin> fst ` set (Slots g)\<close> by (simp add: game_ok_def)
  ultimately show ?thesis using n by blast
qed

definition left :: "(handle \<Rightarrow> Session) \<Rightarrow> handle \<Rightarrow> Game \<Rightarrow> Game" where
  "left H s g = snd (removeMember H s g)"

lemma left_keeps [simp]:
  "ID (left H s g) = ID g" "Host (left H s g) = Host g" "Attrs (left H s g) = Attrs g"
  "Capacity (left H s g) = Capacity g" "Topology (left H s g) = Topology g"
  "State (left H s g) = State g" "Settings (left H s g) = Settings g"
  "Members (left H s g) = remove1 s (Members g)"
  by (simp_all add: left_def removeMember_def Let_def remove1_idem)

lemma distinct_snd_delete: "distinct (map snd m) \<Longrightarrow> distinct (map snd (AList.delete k m))"
  by (induction m) (auto simp: AList.delete_eq)

lemma fst_set_delete: "fst ` set (AList.delete k m) = fst ` set m - {k}"
  by (metis delete_keys list.set_map set_removeAll)

lemma game_ok_left:
  assumes "game_ok H g"
  shows "game_ok H (left H s g)"
proof (cases "s \<in> set (Members g)")
  case False
  then show ?thesis using assms by (simp add: left_def removeMember_def)
next
  case True
  let ?P = "\<lambda>m. PersonaID (H m)"
  have d: "distinct (map ?P (Members g))" and dm: "distinct (Members g)"
    using assms by (auto simp: game_ok_def distinct_map)
  have "?P ` set (remove1 s (Members g)) = ?P ` set (Members g) - {?P s}"
    using d dm True by (auto simp: distinct_map inj_on_def)
  moreover have "Slots (left H s g) = AList.delete (?P s) (Slots g)"
    using True by (simp add: left_def removeMember_def Let_def)
  moreover have "distinct (map ?P (remove1 s (Members g)))"
    using d dm by (auto simp: distinct_map intro: inj_on_subset)
  ultimately show ?thesis
    using assms by (simp add: game_ok_def distinct_snd_delete delete_keys distinct_removeAll fst_set_delete)
qed

lemma game_ok_new:
  "game_ok H \<lparr>ID = i, Host = h, Members = [], Attrs = a, Capacity = c, Topology = t, State = st,
     Settings = se, Slots = [], JoinedAt = j, PlayerAttrs = p, PlayerStates = ps, Mesh = m, MeshReady = r\<rparr>"
  by (simp add: game_ok_def)

lemma game_ok_cong:
  "game_ok H g \<Longrightarrow> Members g' = Members g \<Longrightarrow> Slots g' = Slots g \<Longrightarrow>
   (\<And>m. m \<in> set (Members g) \<Longrightarrow> PersonaID (H' m) = PersonaID (H m)) \<Longrightarrow> game_ok H' g'"
  unfolding game_ok_def by (metis (mono_tags, lifting) image_cong map_cong)

section \<open>Mesh readiness\<close>

lemma refresh_loop:
  "fold (\<lambda>player g. g\<lparr>MeshReady := AList.update (PersonaID (H player)) (meshReadyForPlayer H g player) (MeshReady g)\<rparr>) ms g =
   g\<lparr>MeshReady := fold (\<lambda>player r. AList.update (PersonaID (H player)) (meshReadyForPlayer H g player) r) ms (MeshReady g)\<rparr>"
proof (induction ms arbitrary: g)
  case (Cons m ms)
  have "meshReadyForPlayer H (g\<lparr>MeshReady := r\<rparr>) p = meshReadyForPlayer H g p" for r p
    by (simp add: meshReadyForPlayer_def mesh_status_def)
  then show ?case by (simp add: Cons)
qed simp

lemma refresh_keeps [simp]:
  "Members (refreshMeshReadiness H g) = Members g" "ID (refreshMeshReadiness H g) = ID g"
  "Host (refreshMeshReadiness H g) = Host g" "Slots (refreshMeshReadiness H g) = Slots g"
  "Mesh (refreshMeshReadiness H g) = Mesh g" "Capacity (refreshMeshReadiness H g) = Capacity g"
  "Attrs (refreshMeshReadiness H g) = Attrs g" "State (refreshMeshReadiness H g) = State g"
  "Topology (refreshMeshReadiness H g) = Topology g"
  by (simp_all add: refreshMeshReadiness_def refresh_loop)

lemma find_snoc: "List.find P (xs @ [x]) = (case List.find P xs of Some y \<Rightarrow> Some y | None \<Rightarrow> if P x then Some x else None)"
  by (induction xs) auto

lemma get_fold_update:
  "get z (fold (\<lambda>x r. AList.update (k x) (f x) r) xs m) q =
     (case List.find (\<lambda>x. k x = q) (rev xs) of Some x \<Rightarrow> f x | None \<Rightarrow> get z m q)"
  by (induction xs arbitrary: m) (auto simp: find_snoc split: option.splits)

lemma refresh_ready:
  assumes "game_ok H g" and "p \<in> set (Members g)"
  shows "get False (MeshReady (refreshMeshReadiness H g)) (PersonaID (H p)) = meshReadyForPlayer H g p"
proof -
  have inj: "inj_on (\<lambda>m. PersonaID (H m)) (set (Members g))"
    using assms(1) by (simp add: game_ok_def distinct_map)
  have "List.find (\<lambda>x. PersonaID (H x) = PersonaID (H p)) (rev (Members g)) \<noteq> None"
    using assms(2) by (auto simp: find_None_iff)
  then obtain x where x: "List.find (\<lambda>x. PersonaID (H x) = PersonaID (H p)) (rev (Members g)) = Some x"
    by blast
  then obtain i where "i < length (rev (Members g))" "rev (Members g) ! i = x" "PersonaID (H x) = PersonaID (H p)"
    by (auto simp: find_Some_iff)
  then have "x \<in> set (Members g)" by (metis nth_mem set_rev)
  then have "x = p" using inj_onD [OF inj \<open>PersonaID (H x) = PersonaID (H p)\<close>] assms(2) by simp
  with x show ?thesis by (simp add: refreshMeshReadiness_def refresh_loop get_fold_update)
qed

section \<open>Properties\<close>

lemma left_absent: "s \<notin> set (Members g) \<Longrightarrow> left H s g = g"
  by (simp add: left_def removeMember_def)

lemma addMember_ok:
  assumes "game_ok H g"
  shows "game_ok H (snd (addMember H now s g)) \<and>
    Members (snd (addMember H now s g)) =
      (if snd (fst (addMember H now s g)) then Members g @ [s] else Members g)"
proof (cases "\<exists>m \<in> set (Members g). m = s \<or> PersonaID (H m) = PersonaID (H s)")
  case True
  then obtain slot where "addMember H now s g = ((slot, False), ensureMembershipState H now g)"
    using addMember_known by blast
  with assms show ?thesis by simp
next
  case False
  then have new: "\<forall>m \<in> set (Members g). m \<noteq> s \<and> PersonaID (H m) \<noteq> PersonaID (H s)" by blast
  show ?thesis
  proof (cases "0 < sint (Capacity g) \<and> sint (Capacity g) \<le> int (length (Members g))")
    case True
    with addMember_full [OF new] assms show ?thesis by simp
  next
    case False
    then have "sint (Capacity g) \<le> 0 \<or> int (length (Members g)) < sint (Capacity g)" by linarith
    from addMember_new [OF assms new this, of now] assms show ?thesis by auto
  qed
qed

lemma newGame_ok: "game_ok H (newGame H now i h ms a c t st)"
proof -
  have "game_ok H (fold (\<lambda>m g. snd (addMember H now m g)) ms g)" if "game_ok H g" for g
    using that by (induction ms arbitrary: g) (simp_all add: addMember_ok)
  then show ?thesis by (simp add: newGame_def game_ok_new)
qed

text \<open>
  Claim C13. Membership keeps a game well formed (no two members with one persona, exactly the
  members have a slot, no two share one): a new game is well formed, and adding or removing any
  session keeps it so, whatever the capacity, the clock and the order of the calls.
\<close>

theorem membership_invariant:
  "game_ok H (newGame H now i h ms a c t st) \<and>
   (game_ok H g \<longrightarrow> game_ok H (snd (addMember H now s g)) \<and> game_ok H (snd (removeMember H s g)))"
  using newGame_ok addMember_ok game_ok_left by (simp add: left_def [symmetric])

definition demo_heap :: "handle \<Rightarrow> Session" where
  "demo_heap h = (newSession OtherAddr)\<lparr>PersonaID := of_nat (h + 10)\<rparr>"

theorem membership_invariant_witness:
  "game_ok demo_heap (newGame demo_heap 5 1 1 [1, 2] [] 4 130 1) \<and>
   game_ok demo_heap (snd (addMember demo_heap 6 3 (newGame demo_heap 5 1 1 [1, 2] [] 4 130 1))) \<and>
   game_ok demo_heap (snd (removeMember demo_heap 1 (newGame demo_heap 5 1 1 [1, 2] [] 4 130 1)))"
proof -
  let ?g = "newGame demo_heap 5 1 1 [1, 2] [] 4 130 1"
  have g: "game_ok demo_heap ?g" using membership_invariant by blast
  then show ?thesis
    using membership_invariant [where g = ?g and s = 3] membership_invariant [where g = ?g and s = 1] by blast
qed

text \<open>
  Claim C28. \<open>addMember\<close> admits a new player exactly when there is room: a full game returns slot
  -1 and keeps its members; otherwise the player is appended and gets the least slot nobody
  has, which is below the capacity, and nobody else's slot changes.
\<close>

theorem addMember_least_slot:
  assumes ok: "game_ok H g"
    and new: "\<forall>m \<in> set (Members g). m \<noteq> s \<and> PersonaID (H m) \<noteq> PersonaID (H s)"
  shows "if 0 < sint (Capacity g) \<and> sint (Capacity g) \<le> int (length (Members g))
    then fst (addMember H now s g) = (- 1, False) \<and> Members (snd (addMember H now s g)) = Members g
    else \<exists>n. fst (addMember H now s g) = (of_nat n, True) \<and>
      Members (snd (addMember H now s g)) = Members g @ [s] \<and>
      of_nat n \<notin> snd ` set (Slots g) \<and> (\<forall>i < n. of_nat i \<in> snd ` set (Slots g)) \<and>
      (0 < sint (Capacity g) \<longrightarrow> int n < sint (Capacity g)) \<and>
      (\<forall>p. get 0 (Slots (snd (addMember H now s g))) p =
         (if p = PersonaID (H s) then of_nat n else get 0 (Slots g) p))"
proof (cases "0 < sint (Capacity g) \<and> sint (Capacity g) \<le> int (length (Members g))")
  case True
  with addMember_full [OF new] show ?thesis by simp
next
  case False
  then have r: "sint (Capacity g) \<le> 0 \<or> int (length (Members g)) < sint (Capacity g)" by linarith
  from addMember_new [OF ok new r, of now] obtain n
    where a: "addMember H now s g = ((of_nat n, True), joined H now s (of_nat n) g)"
      and "n \<le> length (Members g)" "of_nat n \<notin> snd ` set (Slots g)"
      "\<forall>i < n. of_nat i \<in> snd ` set (Slots g)" by blast
  with False ok show ?thesis by (intro if_not_P [THEN iffD2, OF False] exI [of _ n]) auto
qed

theorem addMember_least_slot_witness:
  "fst (addMember demo_heap 6 4 (snd (removeMember demo_heap 2 (newGame demo_heap 5 1 2 [2, 3] [] 4 130 1)))) = (0, True)"
proof -
  define g where "g = snd (removeMember demo_heap 2 (newGame demo_heap 5 1 2 [2, 3] [] 4 130 1))"
  have ev: "Members g = [3]" "Slots g = [(13, 1)]" "Capacity g = 4"
    by (simp_all add: g_def newGame_def addMember_def ensureMembershipState_def ensure_member_def demo_heap_def
        newSession_def has_def get_def removeMember_def Let_def)
  then have "game_ok demo_heap g" "\<forall>m \<in> set (Members g). m \<noteq> 4 \<and> PersonaID (demo_heap m) \<noteq> PersonaID (demo_heap 4)"
    by (simp_all add: game_ok_def demo_heap_def newSession_def)
  from addMember_least_slot [OF this, of 6] obtain n where
    "fst (addMember demo_heap 6 4 g) = (of_nat n, True)" "\<forall>i < n. of_nat i \<in> snd ` set (Slots g)"
    by (auto simp: ev)
  moreover from this have "n = 0" by (cases n) (auto simp: ev dest: spec [of _ 0])
  ultimately show ?thesis by (simp add: g_def)
qed

text \<open>
  Claim C27. Mesh readiness is exactly the full mesh in both directions: after a refresh a member
  is ready if and only if it and every other member have reported each other connected.
\<close>

theorem mesh_ready_iff_full:
  assumes "game_ok H g" and "p \<in> set (Members g)"
  shows "get False (MeshReady (refreshMeshReadiness H g)) (PersonaID (H p)) \<longleftrightarrow>
    (\<forall>q \<in> set (Members g). q \<noteq> p \<longrightarrow>
      mesh_status g (PersonaID (H p)) (PersonaID (H q)) = 2 \<and>
      mesh_status g (PersonaID (H q)) (PersonaID (H p)) = 2)"
  unfolding refresh_ready [OF assms] meshReadyForPlayer_def list_all_iff by auto

theorem mesh_ready_iff_full_witness:
  "\<not> get False (MeshReady (refreshMeshReadiness demo_heap (newGame demo_heap 5 1 2 [2, 3] [] 4 130 1))) 12"
proof -
  let ?g = "newGame demo_heap 5 1 2 [2, 3] [] 4 130 1"
  have ev: "Members ?g = [2, 3]" "Mesh ?g = []"
    by (simp_all add: newGame_def addMember_def ensureMembershipState_def ensure_member_def demo_heap_def
        newSession_def has_def get_def Let_def)
  have "game_ok demo_heap ?g" by (rule newGame_ok)
  from mesh_ready_iff_full [OF this, of 2] show ?thesis
    by (simp add: ev mesh_status_def demo_heap_def)
qed

text \<open>
  A removed player leaves no connection behind: no status to or from its persona
  remains, so after rejoining it cannot be ready before new reports arrive, while the statuses
  between the others are kept.
\<close>

theorem removed_player_forgotten:
  assumes "s \<in> set (Members g)"
  shows "mesh_status (snd (removeMember H s g)) (PersonaID (H s)) q = 0 \<and>
    mesh_status (snd (removeMember H s g)) q (PersonaID (H s)) = 0 \<and>
    (p \<noteq> PersonaID (H s) \<and> q \<noteq> PersonaID (H s) \<longrightarrow>
      mesh_status (snd (removeMember H s g)) p q = mesh_status g p q)"
proof -
  let ?d = "PersonaID (H s)"
  have m: "get [] (map (\<lambda>(k, c). (k, AList.delete ?d c)) m) p = AList.delete ?d (get [] m p)"
    for m :: "(i64 \<times> (i64 \<times> i64) list) list" and p
    by (induction m) (auto simp: get_def)
  show ?thesis
    using assms by (simp add: removeMember_def Let_def mesh_status_def m)
qed

theorem removed_player_forgotten_witness:
  "mesh_status (snd (removeMember demo_heap 2 ((newGame demo_heap 5 1 2 [2, 3] [] 4 130 1)
     \<lparr>Mesh := [(12, [(13, 2)]), (13, [(12, 2)])]\<rparr>))) 13 12 = 0"
proof -
  let ?g = "(newGame demo_heap 5 1 2 [2, 3] [] 4 130 1)\<lparr>Mesh := [(12, [(13, 2)]), (13, [(12, 2)])]\<rparr>"
  have "2 \<in> set (Members ?g)"
    by (simp add: newGame_def addMember_def ensureMembershipState_def ensure_member_def demo_heap_def
        newSession_def has_def get_def Let_def)
  from removed_player_forgotten [OF this, of demo_heap 13 13] show ?thesis
    by (simp add: demo_heap_def)
qed

text \<open>
  Comparing a joiner with a game can end the process: when both carry a list (or any
  other uncomparable value) under one of the four matching keys, the comparison panics.
\<close>

lemma isCompatibleGame_panics:
  assumes "Host g \<noteq> session r" and "int (length (Members g)) < sint (Capacity g)"
    and "sint (cap r) \<le> 0 \<or> sint (Capacity g) \<le> sint (cap r)" and "Topology g = topology r"
    and "map_of (attrs r) (TStr ''playlist'') = Some (TList xs)"
    and "map_of (Attrs g) (TStr ''playlist'') = Some (TList ys)"
  shows "isCompatibleGame g r = Inl Uncomparable"
  using assms by (auto simp: isCompatibleGame_def match_keys_def)

lemma isCompatibleGame_panics_witness:
  "isCompatibleGame (newGame demo_heap 5 1 1 [1] [(TStr ''playlist'', TList [TInt 1])] 4 130 1)
     \<lparr>session = 2, attrs = [(TStr ''playlist'', TList [TInt 1])], cap = 4, topology = 130, msid = 1\<rparr>
   = Inl Uncomparable"
  by (rule isCompatibleGame_panics [where xs = "[TInt 1]" and ys = "[TInt 1]"])
    (simp_all add: newGame_def addMember_def ensureMembershipState_def demo_heap_def newSession_def Let_def)

end
