(* ===== verification/Server.thy ===== *)
theory Server
  imports Game
begin

text \<open>
  The server state and the operations on it (hpserver/server.go): authentication, removal,
  broadcasts, matchmaking and mesh updates.  Each operation is split where the code releases
  \<open>Server.mu\<close>: the \<open>_locked\<close> part is one critical section on the registries and the heap of
  sessions, the rest only queues frames.
\<close>

record UserIdentity =
  userAccountID :: i64
  userPersonaID :: i64
  Name :: string

record Server =
  AutologBase :: string
  nextUserID :: i64
  nextSessionID :: i64
  nextGameID :: i64
  nextMatchID :: i64
  users :: "(i64 \<times> UserIdentity) list"
  sessions :: "(i64 \<times> handle) list"
  activePersonas :: "(i64 \<times> handle) list"
  games :: "(i64 \<times> Game) list"
  matchQueue :: "matchRequest list"
  heap :: "handle \<Rightarrow> Session"

definition New :: "Server" where
  "New = \<lparr>AutologBase = ''http://127.0.0.1:18080'', nextUserID = 1, nextSessionID = 1, nextGameID = 1,
     nextMatchID = 1, users = [], sessions = [], activePersonas = [], games = [], matchQueue = [],
     heap = (\<lambda>_. newSession OtherAddr)\<rparr>"

text \<open>Writing through a session pointer.\<close>

definition upd :: "handle \<Rightarrow> (Session \<Rightarrow> Session) \<Rightarrow> Server \<Rightarrow> Server" where
  "upd h f w = w\<lparr>heap := (heap w)(h := f (heap w h))\<rparr>"

definition put_game :: "Game \<Rightarrow> i64 \<Rightarrow> Server \<Rightarrow> Server" where
  "put_game g gid w = w\<lparr>games := AList.update gid g (games w)\<rparr>"

definition deliver :: "Frame \<Rightarrow> handle \<Rightarrow> Server \<Rightarrow> Server" where
  "deliver f h w = upd h (notify f) w"

definition deliver_all :: "Frame list \<Rightarrow> handle \<Rightarrow> Server \<Rightarrow> Server" where
  "deliver_all fs h w = fold (\<lambda>f. deliver f h) fs w"

section \<open>Notifications\<close>

definition game_notification :: "u16 \<Rightarrow> fields \<Rightarrow> Frame go" where
  "game_notification command fs =
     go_bind (EncodeTDF fs) (\<lambda>payload. Inr (notification ComponentGameManager command payload))"

definition playerRemovedNotification :: "i64 \<Rightarrow> i64 \<Rightarrow> i64 \<Rightarrow> i64 \<Rightarrow> Frame go" where
  "playerRemovedNotification gameID playerID contextValue reason =
     game_notification NotifyPlayerRemoved
       [(''CNTX'', TInt contextValue), (''GID'', TInt gameID), (''PID'', TInt playerID),
        (''REAS'', TInt reason)]"

definition gameRemovedNotification :: "i64 \<Rightarrow> i64 \<Rightarrow> Frame go" where
  "gameRemovedNotification gameID reason =
     game_notification NotifyGameRemoved [(''GID'', TInt gameID), (''REAS'', TInt reason)]"

definition playerJoinCompletedNotification :: "i64 \<Rightarrow> i64 \<Rightarrow> Frame go" where
  "playerJoinCompletedNotification gameID playerID =
     game_notification NotifyPlayerJoined [(''GID'', TInt gameID), (''PID'', TInt playerID)]"

definition getMatchmakingReason :: "i64 \<Rightarrow> i64 \<Rightarrow> i64 \<Rightarrow> tdf" where
  "getMatchmakingReason ms result userID =
     TUnion 3 ''VALU'' (TStruct [(''FIT'', TInt 100), (''MAXF'', TInt 100), (''MSID'', TInt ms),
       (''RSLT'', TInt result), (''USID'', TInt userID)])"

section \<open>Authentication\<close>

definition taken :: "Server \<Rightarrow> i64 \<Rightarrow> bool" where
  "taken w p \<longleftrightarrow> map_of (activePersonas w) p \<noteq> None \<or>
     (case map_of (users w) p of Some u \<Rightarrow> userPersonaID u \<noteq> 0 | None \<Rightarrow> False)"

text \<open>
  The loop that looks for an unused persona.  Every round passes a registered persona, so as
  much fuel as there are registrations is enough (\<open>persona_loop_fresh\<close>).
\<close>

fun persona_loop :: "nat \<Rightarrow> Server \<Rightarrow> i64 \<Rightarrow> i64" where
  "persona_loop 0 w p = p"
| "persona_loop (Suc n) w p = (if taken w p then persona_loop n w (p + 1) else p)"

definition choosePersona :: "i64 \<Rightarrow> Server \<Rightarrow> i64" where
  "choosePersona requested w =
     (if sint requested \<le> 0 \<or> map_of (activePersonas w) requested \<noteq> None
      then persona_loop (length (activePersonas w) + length (users w)) w (nextUserID w)
      else requested)"

definition authenticateSessionNamed :: "handle \<Rightarrow> i64 \<Rightarrow> string \<Rightarrow> Server \<Rightarrow> Server" where
  "authenticateSessionNamed h requestedPersonaID requestedName w =
     (if PersonaID (heap w h) \<noteq> 0 then w
      else
        let personaID = choosePersona requestedPersonaID w;
            identity0 = (case map_of (users w) personaID of
               Some u \<Rightarrow> u
             | None \<Rightarrow> \<lparr>userAccountID = personaID, userPersonaID = personaID, Name = personaName personaID\<rparr>);
            identity = (if requestedName \<noteq> '''' then identity0\<lparr>Name := requestedName\<rparr> else identity0);
            sid = nextSessionID w;
            w1 = w\<lparr>users := AList.update personaID identity (users w),
                   nextUserID := (if sint (nextUserID w) \<le> sint personaID then personaID + 1 else nextUserID w)\<rparr>;
            w2 = upd h (\<lambda>s. s\<lparr>AccountID := userAccountID identity, PersonaID := userPersonaID identity,
                   SessionID := sid, Persona := Name identity\<rparr>) w1
        in w2\<lparr>nextSessionID := sid + 1,
              sessions := AList.update sid h (sessions w2),
              activePersonas := AList.update (userPersonaID identity) h (activePersonas w2)\<rparr>)"

definition authenticateSessionAs :: "handle \<Rightarrow> i64 \<Rightarrow> Server \<Rightarrow> Server" where
  "authenticateSessionAs h requestedPersonaID w = authenticateSessionNamed h requestedPersonaID '''' w"

definition authenticateSession :: "handle \<Rightarrow> Server \<Rightarrow> Server" where
  "authenticateSession h w = authenticateSessionAs h 0 w"

section \<open>Removal\<close>

definition removeQueuedSessionLocked :: "handle \<Rightarrow> Server \<Rightarrow> Server" where
  "removeQueuedSessionLocked h w =
     upd h (\<lambda>s. s\<lparr>QueuedMatchID := 0\<rparr>) (w\<lparr>matchQueue := filter (\<lambda>r. session r \<noteq> h) (matchQueue w)\<rparr>)"

text \<open>The members of a game whose host left lose it.\<close>

definition release_member :: "handle \<Rightarrow> Server \<Rightarrow> Server" where
  "release_member m w = upd m (\<lambda>s. s\<lparr>GameID := 0, PendingMatchmakingGame := 0, QueuedMatchID := 0\<rparr>) w"

text \<open>
  The search over all games of \<open>removeSession\<close> ranges over a Go map in an unspecified order;
  the model takes the first binding of the representation.
\<close>

definition member_game :: "handle \<Rightarrow> Server \<Rightarrow> Game option" where
  "member_game h w =
     map_option snd (List.find (\<lambda>(_, g). sessionForPlayerID (heap w) g (PersonaID (heap w h)) = Some h)
       (AList.clearjunk (games w)))"

definition removeSession_locked :: "handle \<Rightarrow> Server \<Rightarrow> (Game option \<times> handle list \<times> bool) \<times> Server" where
  "removeSession_locked h w0 =
     (let sess = heap w0 h;
          w1 = w0\<lparr>sessions := AList.delete (SessionID sess) (sessions w0),
                  activePersonas := (if map_of (activePersonas w0) (PersonaID sess) = Some h
                     then AList.delete (PersonaID sess) (activePersonas w0) else activePersonas w0)\<rparr>;
          w2 = removeQueuedSessionLocked h w1;
          gameID = GameID sess;
          w3 = upd h (\<lambda>s. s\<lparr>GameID := 0, PendingMatchmakingGame := 0, QueuedMatchID := 0\<rparr>) w2
      in
      case (case map_of (games w3) gameID of Some g \<Rightarrow> Some g | None \<Rightarrow> member_game h w3) of
        None \<Rightarrow> ((None, [], False), w3)
      | Some game0 \<Rightarrow>
          let game = snd (removeMember (heap w3) h game0); remaining = Members game in
          if Host game = h
          then ((Some game, remaining, True),
                fold release_member remaining (w3\<lparr>games := AList.delete (ID game) (games w3)\<rparr>))
          else
            let game' = refreshMeshReadiness (heap w3) game in
            ((Some game', remaining, False), put_game game' (ID game') w3))"

definition notify_removed :: "i64 \<Rightarrow> i64 \<Rightarrow> i64 \<Rightarrow> i64 \<Rightarrow> bool \<Rightarrow> handle \<Rightarrow> Server \<Rightarrow> Server go" where
  "notify_removed gameID playerID contextValue reason hostLeft m w =
     go_bind (playerRemovedNotification gameID playerID contextValue reason) (\<lambda>f1.
     if hostLeft
     then go_bind (gameRemovedNotification gameID 2) (\<lambda>f2. Inr (deliver f2 m (deliver f1 m w)))
     else Inr (deliver f1 m w))"

fun each :: "('a \<Rightarrow> Server \<Rightarrow> Server go) \<Rightarrow> 'a list \<Rightarrow> Server \<Rightarrow> Server go" where
  "each f [] w = Inr w"
| "each f (x # xs) w = go_bind (f x w) (each f xs)"

definition removeSession :: "handle \<Rightarrow> Server \<Rightarrow> Server go" where
  "removeSession h w =
     (case removeSession_locked h (upd h close w) of
        ((None, _, _), w') \<Rightarrow> Inr w'
      | ((Some game, remaining, hostLeft), w') \<Rightarrow>
          each (notify_removed (ID game) (PersonaID (heap w' h)) 0 1 hostLeft) remaining w')"

section \<open>Broadcasts\<close>

definition broadcast :: "handle \<Rightarrow> i64 \<Rightarrow> Frame \<Rightarrow> Server \<Rightarrow> Server" where
  "broadcast sender gameID f w =
     (let members = (case map_of (games w) gameID of Some g \<Rightarrow> Members g | None \<Rightarrow> [])
      in if members = [] then deliver f sender w else fold (deliver f) members w)"

definition setPlayerAttrs_locked ::
  "i64 \<Rightarrow> handle \<Rightarrow> i64 \<Rightarrow> i64 \<Rightarrow> tmap \<Rightarrow> Server \<Rightarrow> (handle \<times> handle list) option \<times> Server" where
  "setPlayerAttrs_locked now sender gameID requestPlayerID attributes w =
     (case map_of (games w) gameID of
        None \<Rightarrow> (None, w)
      | Some game0 \<Rightarrow>
          (case (sessionForPlayerID (heap w) game0 requestPlayerID,
                 sessionForPlayerID (heap w) game0 (PersonaID (heap w sender))) of
             (Some player, Some caller) \<Rightarrow>
               if player \<noteq> sender \<and> Host game0 \<noteq> sender then (None, w)
               else
                 let game = ensureMembershipState (heap w) now game0;
                     pid = PersonaID (heap w player);
                     merged = fold (\<lambda>(k, v). tmap_put k v) attributes (get [] (PlayerAttrs game) pid)
                 in (Some (player, Members game),
                     put_game (game\<lparr>PlayerAttrs := AList.update pid merged (PlayerAttrs game)\<rparr>) gameID w)
           | _ \<Rightarrow> (None, w)))"

definition broadcastPlayerAttributes :: "i64 \<Rightarrow> handle \<Rightarrow> i64 \<Rightarrow> i64 \<Rightarrow> tmap \<Rightarrow> Server \<Rightarrow> Server go" where
  "broadcastPlayerAttributes now sender gameID requestPlayerID attributes w =
     (case map_of (games w) gameID of
        None \<Rightarrow>
          go_bind (game_notification NotifyPlayerAttrs
            [(''ATTR'', TMap attributes), (''GID'', TInt gameID), (''PID'', TInt requestPlayerID)])
            (\<lambda>f. Inr (deliver f sender w))
      | Some _ \<Rightarrow>
          (case setPlayerAttrs_locked now sender gameID requestPlayerID attributes w of
             (None, w') \<Rightarrow> Inr w'
           | (Some (player, members), w') \<Rightarrow>
               each (\<lambda>m w. go_bind (game_notification NotifyPlayerAttrs
                 [(''ATTR'', TMap attributes), (''GID'', TInt gameID),
                  (''PID'', TInt (canonicalPlayerID (heap w player)))]) (\<lambda>f. Inr (deliver f m w)))
                 members w'))"

section \<open>Authentication hands out unused personas\<close>

lemma persona_loop_run:
  "\<exists>m \<le> n. persona_loop n w p = p + of_nat m \<and> (\<forall>i < m. taken w (p + of_nat i)) \<and>
     (m = n \<or> \<not> taken w (p + of_nat m))"
proof (induction n arbitrary: p)
  case (Suc n)
  show ?case
  proof (cases "taken w p")
    case True
    obtain m where m: "m \<le> n" "persona_loop n w (p + 1) = p + 1 + of_nat m"
      "\<forall>i < m. taken w (p + 1 + of_nat i)" "m = n \<or> \<not> taken w (p + 1 + of_nat m)"
      using Suc.IH [of "p + 1"] by blast
    have "\<forall>i < Suc m. taken w (p + of_nat i)"
    proof (intro allI impI)
      fix i assume "i < Suc m"
      then show "taken w (p + of_nat i)" using True m(3) by (cases i) (auto simp: add.assoc)
    qed
    with m True show ?thesis by (intro exI [of _ "Suc m"]) (auto simp: add.assoc)
  next
    case False
    then show ?thesis by (intro exI [of _ 0]) auto
  qed
qed simp

lemma taken_keys: "taken w p \<Longrightarrow> p \<in> fst ` set (activePersonas w) \<union> fst ` set (users w)"
  by (force simp: taken_def split: option.splits dest: map_of_SomeD)

lemma persona_loop_fresh:
  assumes "length (activePersonas w) + length (users w) < 2 ^ 64"
  shows "\<not> taken w (persona_loop (length (activePersonas w) + length (users w)) w p)"
proof
  let ?n = "length (activePersonas w) + length (users w)"
  let ?K = "fst ` set (activePersonas w) \<union> fst ` set (users w)"
  let ?f = "\<lambda>i. p + (of_nat i :: i64)"
  assume t: "taken w (persona_loop ?n w p)"
  obtain m where m: "m \<le> ?n" "persona_loop ?n w p = ?f m" "\<forall>i < m. taken w (?f i)"
    "m = ?n \<or> \<not> taken w (?f m)" using persona_loop_run by blast
  with t have "m = ?n" by simp
  with m t have "\<forall>i \<le> ?n. taken w (?f i)" by (auto simp: le_less)
  then have sub: "?f ` {..?n} \<subseteq> ?K" using taken_keys by blast
  have inj: "inj_on ?f {..?n}"
  proof (rule inj_onI)
    fix x y assume "x \<in> {..?n}" "y \<in> {..?n}" "?f x = ?f y"
    with assms show "x = y" using inj_onD [OF inj_of_nat_word, of x y] by simp
  qed
  have "card (?f ` {..?n}) = Suc ?n" by (simp add: card_image [OF inj])
  moreover have "card ?K \<le> ?n"
    by (meson List.finite_set add_mono card_Un_le card_image_le card_length finite_imageI le_trans)
  moreover have "card (?f ` {..?n}) \<le> card ?K" by (rule card_mono [OF _ sub]) simp
  ultimately show False by simp
qed

text \<open>The registries of identities agree with the sessions.\<close>

definition auth_ok :: "Server \<Rightarrow> bool" where
  "auth_ok w \<longleftrightarrow>
     (\<forall>p h. map_of (activePersonas w) p = Some h \<longrightarrow> PersonaID (heap w h) = p \<and> p \<noteq> 0) \<and>
     (\<forall>p u. map_of (users w) p = Some u \<longrightarrow> userPersonaID u = p)"

definition roomy :: "Server \<Rightarrow> bool" where
  "roomy w \<longleftrightarrow> length (activePersonas w) + length (users w) < 2 ^ 63"

lemma choosePersona_free:
  assumes "roomy w"
  shows "map_of (activePersonas w) (choosePersona requested w) = None"
  using assms persona_loop_fresh [of w "nextUserID w"]
  by (auto simp: choosePersona_def roomy_def taken_def)

definition login_identity :: "i64 \<Rightarrow> string \<Rightarrow> Server \<Rightarrow> UserIdentity" where
  "login_identity p requestedName w =
     (let u = (case map_of (users w) p of Some u \<Rightarrow> u
         | None \<Rightarrow> \<lparr>userAccountID = p, userPersonaID = p, Name = personaName p\<rparr>)
      in if requestedName \<noteq> '''' then u\<lparr>Name := requestedName\<rparr> else u)"

lemma login_persona: "auth_ok w \<Longrightarrow> userPersonaID (login_identity p n w) = p"
  by (auto simp: login_identity_def auth_ok_def Let_def split: option.splits)

lemma authenticate_known: "PersonaID (heap w h) \<noteq> 0 \<Longrightarrow> authenticateSessionNamed h r n w = w"
  by (simp add: authenticateSessionNamed_def)

lemma authenticate_new:
  assumes "PersonaID (heap w h) = 0" and "auth_ok w"
  shows "authenticateSessionNamed h r n w =
    (let p = choosePersona r w; u = login_identity p n w in
     w\<lparr>users := AList.update p u (users w),
       nextUserID := (if sint (nextUserID w) \<le> sint p then p + 1 else nextUserID w),
       heap := (heap w)(h := (heap w h)\<lparr>AccountID := userAccountID u, PersonaID := p,
          SessionID := nextSessionID w, Persona := Name u\<rparr>),
       nextSessionID := nextSessionID w + 1,
       sessions := AList.update (nextSessionID w) h (sessions w),
       activePersonas := AList.update p h (activePersonas w)\<rparr>)"
proof -
  define p where "p = choosePersona r w"
  define u where "u = login_identity p n w"
  have u: "(if n \<noteq> '''' then (case map_of (users w) p of Some u \<Rightarrow> u
       | None \<Rightarrow> \<lparr>userAccountID = p, userPersonaID = p, Name = personaName p\<rparr>)\<lparr>Name := n\<rparr>
     else (case map_of (users w) p of Some u \<Rightarrow> u
       | None \<Rightarrow> \<lparr>userAccountID = p, userPersonaID = p, Name = personaName p\<rparr>)) = u"
    by (simp add: u_def login_identity_def Let_def)
  have up: "userPersonaID u = p" by (simp add: u_def login_persona [OF assms(2)])
  show ?thesis
    unfolding authenticateSessionNamed_def
    by (simp add: assms(1) Let_def p_def [symmetric] u u_def [symmetric] up upd_def)
qed

lemma auth_ok_authenticate:
  assumes ok: "auth_ok w" and room: "roomy w" and p: "choosePersona r w \<noteq> 0"
  shows "auth_ok (authenticateSessionNamed h r n w)"
proof (cases "PersonaID (heap w h) = 0")
  case True
  have ne: "k \<noteq> h" if "map_of (activePersonas w) q = Some k" for q k
    using ok that True by (auto simp: auth_ok_def)
  show ?thesis
    unfolding authenticate_new [OF True ok]
    using ok p choosePersona_free [OF room, of r] ne login_persona [OF ok, of "choosePersona r w" n]
    by (auto simp: auth_ok_def Let_def update_conv')
qed (simp add: ok authenticate_known)

end
