(* ===== verification/Matchmaking.thy ===== *)
theory Matchmaking
  imports Server
begin

text \<open>
  Quick-match matchmaking and the mesh updates (\<open>queueMatch\<close>, \<open>cancelQueuedMatch\<close>,
  \<open>notifyMatchedGame\<close> and \<open>updateMeshConnection\<close> of hpserver/server.go).
\<close>

definition frame_fields :: "Frame \<Rightarrow> fields" where
  "frame_fields req = (case TDF req of Some fs \<Rightarrow> fs | None \<Rightarrow> [])"

definition getMatchmakingCapacity :: "Frame \<Rightarrow> i64" where
  "getMatchmakingCapacity req =
     (let fs = frame_fields req in
      case list_field fs ''PCAP'' of
        TInt capacity # _ \<Rightarrow> capacity
      | _ \<Rightarrow>
          if 0 < sint (int_field fs ''PMAX'') then int_field fs ''PMAX''
          else (case as_int (map_of fs ''MCAP'') of Some capacity \<Rightarrow> capacity | None \<Rightarrow> 8))"

definition getMatchmakingTopology :: "Frame \<Rightarrow> i64" where
  "getMatchmakingTopology req =
     (let t = int_field (frame_fields req) ''NTOP'' in if t = 132 then 130 else t)"

section \<open>Compatibility of two requests\<close>

fun match_attrs :: "string list \<Rightarrow> tmap \<Rightarrow> tmap \<Rightarrow> bool go" where
  "match_attrs [] a b = Inr True"
| "match_attrs (k # ks) a b =
     (case (map_of a (TStr k), map_of b (TStr k)) of
        (None, None) \<Rightarrow> match_attrs ks a b
      | (Some av, Some bv) \<Rightarrow>
          go_bind (go_eq av bv) (\<lambda>same. if same then match_attrs ks a b else Inr False)
      | _ \<Rightarrow> Inr False)"

definition isCompatibleMatch :: "matchRequest \<Rightarrow> matchRequest \<Rightarrow> bool go" where
  "isCompatibleMatch a b =
     (if sint (cap a) < 2 \<or> sint (cap b) < 2 \<or> cap a \<noteq> cap b \<or> topology a \<noteq> topology b
      then Inr False else match_attrs match_keys (attrs a) (attrs b))"

section \<open>Queueing\<close>

text \<open>
  The loop over the games in increasing order of their ids: the first compatible game that
  takes the session.  A game that was asked keeps the membership state \<open>addMember\<close> filled in.
\<close>

fun join_loop :: "i64 \<Rightarrow> matchRequest \<Rightarrow> i64 list \<Rightarrow> Server \<Rightarrow> (Game option \<times> Server) go" where
  "join_loop now candidate [] w = Inr (None, w)"
| "join_loop now candidate (gameID # ids) w =
     (case map_of (games w) gameID of
        None \<Rightarrow> join_loop now candidate ids w
      | Some game \<Rightarrow>
          go_bind (isCompatibleGame game candidate) (\<lambda>compatible.
            if \<not> compatible then join_loop now candidate ids w
            else (case addMember (heap w) now (session candidate) game of
                    ((_, added), game') \<Rightarrow>
                      if added then Inr (Some game', put_game game' gameID w)
                      else join_loop now candidate ids (put_game game' gameID w))))"

fun find_match :: "matchRequest list \<Rightarrow> matchRequest \<Rightarrow> nat \<Rightarrow> nat option go" where
  "find_match [] candidate i = Inr None"
| "find_match (queued # rest) candidate i =
     (if session queued = session candidate then find_match rest candidate (Suc i)
      else go_bind (isCompatibleMatch queued candidate) (\<lambda>compatible.
             if compatible then Inr (Some i) else find_match rest candidate (Suc i)))"

text \<open>What the critical section of \<open>queueMatch\<close> decided, with the payloads it built.\<close>

datatype match_outcome =
    InGame                                       \<comment> \<open>ignored: already an active member\<close>
  | Joined Game matchRequest bytes bytes         \<comment> \<open>joined a game; joining and setup payload\<close>
  | Queued
  | Paired matchRequest Game bytes bytes         \<comment> \<open>new game; host and joiner setup payload\<close>

definition join_game :: "i64 \<Rightarrow> matchRequest \<Rightarrow> Game \<Rightarrow> Server \<Rightarrow> (match_outcome \<times> Server) go" where
  "join_game now candidate game0 w0 =
     (let h = session candidate;
          w = upd h (\<lambda>s. s\<lparr>GameID := ID game0, PendingMatchmakingGame := ID game0, QueuedMatchID := 0\<rparr>) w0;
          (joiningPlayer, game1) = replicatedGamePlayer (heap w) now game0 h
      in
      go_bind (EncodeTDF [(''GID'', TInt (ID game1)),
        (''PDAT'', TStruct (AList.update ''STAT'' (TInt 2) joiningPlayer))]) (\<lambda>joiningPayload.
      let (joinSetup, game2) = gameSetup (heap w) now game1 in
      go_bind (EncodeTDF (AList.update ''REAS''
        (getMatchmakingReason (msid candidate) 1 (userSessionID (heap w h))) joinSetup)) (\<lambda>joinSetupPayload.
      Inr (Joined game2 candidate joiningPayload joinSetupPayload, put_game game2 (ID game2) w))))"

definition start_member :: "i64 \<Rightarrow> handle \<Rightarrow> Server \<Rightarrow> Server" where
  "start_member gameID m w =
     upd m (\<lambda>s. s\<lparr>GameID := gameID, PendingMatchmakingGame := gameID, QueuedMatchID := 0\<rparr>) w"

definition pair_up :: "i64 \<Rightarrow> matchRequest \<Rightarrow> nat \<Rightarrow> Server \<Rightarrow> (match_outcome \<times> Server) go" where
  "pair_up now candidate matchIndex w0 =
     (let h = session candidate;
          hostRequest = matchQueue w0 ! matchIndex;
          gameID = nextGameID w0;
          game0 = newGame (heap w0) now gameID (session hostRequest) [session hostRequest, h]
            (attrs hostRequest) (cap hostRequest) (topology hostRequest) 1;
          w1 = w0\<lparr>matchQueue := take matchIndex (matchQueue w0) @ drop (Suc matchIndex) (matchQueue w0),
                  nextGameID := gameID + 1,
                  games := AList.update gameID game0 (games w0)\<rparr>;
          w = fold (start_member gameID) (Members game0) w1;
          (hostSetup, game1) = gameSetup (heap w) now game0;
          (joinSetup, game2) = gameSetup (heap w) now game1
      in
      go_bind (EncodeTDF (AList.update ''REAS''
        (getMatchmakingReason (msid hostRequest) 0 (userSessionID (heap w (session hostRequest)))) hostSetup))
        (\<lambda>hostSetupPayload.
      go_bind (EncodeTDF (AList.update ''REAS''
        (getMatchmakingReason (msid candidate) 1 (userSessionID (heap w h))) joinSetup))
        (\<lambda>joinSetupPayload.
      Inr (Paired hostRequest game2 hostSetupPayload joinSetupPayload, put_game game2 gameID w))))"

definition queueMatch_locked ::
  "i64 \<Rightarrow> handle \<Rightarrow> Frame \<Rightarrow> Server \<Rightarrow> ((i64 \<times> match_outcome) \<times> Server) go" where
  "queueMatch_locked now h req w0 =
     (let ms = nextMatchID w0;
          w1 = w0\<lparr>nextMatchID := ms + 1\<rparr>;
          active = (GameID (heap w1 h) \<noteq> 0 \<and>
            (case map_of (games w1) (GameID (heap w1 h)) of
               Some game \<Rightarrow> sessionForPlayerID (heap w1) game (PersonaID (heap w1 h)) = Some h
             | None \<Rightarrow> False))
      in
      if active then Inr ((ms, InGame), w1)
      else
        let w2 = removeQueuedSessionLocked h (upd h (\<lambda>s. s\<lparr>GameID := 0\<rparr>) w1);
            candidate = \<lparr>session = h, attrs = map_field (frame_fields req) ''ATTR'',
              cap = getMatchmakingCapacity req, topology = getMatchmakingTopology req, msid = ms\<rparr>
        in
        go_bind (join_loop now candidate (sort_key sint (map fst (games w2))) w2) (\<lambda>(joined, w3).
          case joined of
            Some game \<Rightarrow> go_bind (join_game now candidate game w3) (\<lambda>(out, w4). Inr ((ms, out), w4))
          | None \<Rightarrow>
              go_bind (find_match (matchQueue w3) candidate 0) (\<lambda>matchIndex.
                case matchIndex of
                  None \<Rightarrow>
                    Inr ((ms, Queued),
                      upd h (\<lambda>s. s\<lparr>QueuedMatchID := ms\<rparr>) (w3\<lparr>matchQueue := matchQueue w3 @ [candidate]\<rparr>))
                | Some i \<Rightarrow> go_bind (pair_up now candidate i w3) (\<lambda>(out, w4). Inr ((ms, out), w4)))))"

text \<open>\<open>notifyMatchedGame\<close>, without its log lines.\<close>

definition notify_joining :: "handle \<Rightarrow> bytes \<Rightarrow> handle \<Rightarrow> Server \<Rightarrow> Server go" where
  "notify_joining h joiningPayload member w =
     (if member = h then Inr w
      else go_bind (userNotificationsFor (heap w h)) (\<lambda>fs.
        Inr (deliver (notification ComponentGameManager NotifyPlayerJoining joiningPayload) member
          (deliver_all fs member w))))"

definition hold_user :: "handle \<Rightarrow> handle \<Rightarrow> Server \<Rightarrow> Server go" where
  "hold_user h member w =
     (if member = h then Inr w
      else go_bind (userNotificationsFor (heap w member)) (\<lambda>fs. Inr (upd h (hold fs) w)))"

definition hold_setup :: "handle \<Rightarrow> bytes \<Rightarrow> Server \<Rightarrow> Server" where
  "hold_setup h payload w =
     upd h (\<lambda>s. (hold [notification ComponentGameManager NotifyGameSetup payload] s)\<lparr>NotificationDelay := 250\<rparr>) w"

definition notifyMatchedGame :: "handle list \<Rightarrow> matchRequest \<Rightarrow> bytes \<Rightarrow> bytes \<Rightarrow> Server \<Rightarrow> Server go" where
  "notifyMatchedGame members request joiningPayload joinSetupPayload w =
     (let h = session request in
      go_bind (each (notify_joining h joiningPayload) members w) (\<lambda>w1.
      go_bind (each (hold_user h) members w1) (\<lambda>w2.
      Inr (hold_setup h joinSetupPayload w2))))"

definition notifyPaired :: "handle \<Rightarrow> matchRequest \<Rightarrow> bytes \<Rightarrow> bytes \<Rightarrow> Server \<Rightarrow> Server go" where
  "notifyPaired h hostRequest hostSetupPayload joinSetupPayload w =
     (let host = session hostRequest in
      go_bind (userNotificationsFor (heap w h)) (\<lambda>fs.
      let w1 = upd host (\<lambda>s. snd (enqueue
            \<lparr>frame = notification ComponentGameManager NotifyGameSetup hostSetupPayload, delay = 250\<rparr> s))
            (deliver_all fs host w)
      in
      go_bind (userNotificationsFor (heap w1 host)) (\<lambda>fs2.
      Inr (hold_setup h joinSetupPayload (upd h (hold fs2) w1)))))"

definition queueMatch :: "i64 \<Rightarrow> handle \<Rightarrow> Frame \<Rightarrow> Server \<Rightarrow> (i64 \<times> Server) go" where
  "queueMatch now h req w =
     go_bind (queueMatch_locked now h req w) (\<lambda>((ms, out), w1).
       case out of
         Joined game request joiningPayload joinSetupPayload \<Rightarrow>
           go_bind (notifyMatchedGame (Members game) request joiningPayload joinSetupPayload w1)
             (\<lambda>w2. Inr (ms, w2))
       | Paired hostRequest game hostSetupPayload joinSetupPayload \<Rightarrow>
           go_bind (notifyPaired h hostRequest hostSetupPayload joinSetupPayload w1) (\<lambda>w2. Inr (ms, w2))
       | _ \<Rightarrow> Inr (ms, w1))"

definition cancelQueuedMatch :: "handle \<Rightarrow> i64 \<Rightarrow> Server \<Rightarrow> bool \<times> Server" where
  "cancelQueuedMatch h matchmakingSessionID w =
     (if sint matchmakingSessionID \<le> 0 \<or> QueuedMatchID (heap w h) \<noteq> matchmakingSessionID then (False, w)
      else (case List.extract (\<lambda>r. session r = h \<and> msid r = matchmakingSessionID) (matchQueue w) of
              None \<Rightarrow> (False, w)
            | Some (before, _, after) \<Rightarrow>
                (True, upd h (\<lambda>s. s\<lparr>QueuedMatchID := 0\<rparr>) (w\<lparr>matchQueue := before @ after\<rparr>))))"

section \<open>Mesh updates\<close>

text \<open>The loop over the reported targets; the flag is \<open>meshChanged\<close>.\<close>

fun mesh_loop :: "(handle \<Rightarrow> Session) \<Rightarrow> handle \<Rightarrow> tdf list \<Rightarrow> bool \<Rightarrow> Game \<Rightarrow> bool \<times> Game" where
  "mesh_loop H h [] changed game = (changed, game)"
| "mesh_loop H h (value # rest) changed game =
     (case value of
        TStruct target \<Rightarrow>
          (case sessionForPlayerID H game (int_field target ''PID'') of
             Some peer \<Rightarrow>
               if peer = h then mesh_loop H h rest changed game
               else
                 let p = PersonaID (H h) in
                 mesh_loop H h rest True
                   (game\<lparr>Mesh := AList.update p
                      (AList.update (PersonaID (H peer)) (int_field target ''STAT'') (get [] (Mesh game) p))
                      (Mesh game)\<rparr>)
           | None \<Rightarrow> mesh_loop H h rest changed game)
      | _ \<Rightarrow> mesh_loop H h rest changed game)"

text \<open>The players whose pending matchmaking game is this one and whose mesh is ready.\<close>

definition completes :: "Server \<Rightarrow> Game \<Rightarrow> handle \<Rightarrow> bool" where
  "completes w game player \<longleftrightarrow>
     get False (MeshReady game) (PersonaID (heap w player)) \<and>
     PendingMatchmakingGame (heap w player) = ID game"

fun complete_loop :: "Game \<Rightarrow> handle list \<Rightarrow> Server \<Rightarrow> handle list \<times> Server" where
  "complete_loop game [] w = ([], w)"
| "complete_loop game (player # rest) w =
     (if completes w game player
      then (let (cs, w') = complete_loop game rest (upd player (\<lambda>s. s\<lparr>PendingMatchmakingGame := 0\<rparr>) w)
            in (player # cs, w'))
      else complete_loop game rest w)"

definition updateMesh_locked ::
  "i64 \<Rightarrow> handle \<Rightarrow> i64 \<Rightarrow> tdf list \<Rightarrow> Server \<Rightarrow> (handle list \<times> handle list) \<times> Server" where
  "updateMesh_locked now h gameID targets w =
     (case map_of (games w) gameID of
        None \<Rightarrow> (([], []), w)
      | Some game0 \<Rightarrow>
          if sessionForPlayerID (heap w) game0 (PersonaID (heap w h)) \<noteq> Some h then (([], []), w)
          else
            let p = PersonaID (heap w h);
                game1 = ensureMembershipState (heap w) now game0;
                game2 = (if has (Mesh game1) p then game1
                         else game1\<lparr>Mesh := AList.update p [] (Mesh game1)\<rparr>);
                (meshChanged, game3) = mesh_loop (heap w) h targets False game2
            in
            if \<not> meshChanged then (([], []), put_game game3 gameID w)
            else
              let game = refreshMeshReadiness (heap w) game3;
                  (completed, w') = complete_loop game (Members game) (put_game game gameID w)
              in ((completed, if completed \<noteq> [] then Members game else []), w'))"

definition notify_completed :: "handle \<Rightarrow> i64 \<Rightarrow> handle \<Rightarrow> handle \<Rightarrow> Server \<Rightarrow> Server go" where
  "notify_completed h gameID player recipient w =
     go_bind (playerJoinCompletedNotification gameID (PersonaID (heap w player))) (\<lambda>note.
       Inr (if recipient = h then upd recipient (hold [note]) w else deliver note recipient w))"

definition updateMeshConnection :: "i64 \<Rightarrow> handle \<Rightarrow> i64 \<Rightarrow> tdf list \<Rightarrow> Server \<Rightarrow> Server go" where
  "updateMeshConnection now h gameID targets w =
     (case updateMesh_locked now h gameID targets w of
        ((completed, recipients), w') \<Rightarrow>
          each (\<lambda>player. each (notify_completed h gameID player) recipients) completed w')"

end
