(* ===== verification/Handlers.thy ===== *)
theory Handlers
  imports Matchmaking
begin

text \<open>
  The request handlers of hpserver/handlers.go and the dispatch of one request by \<open>serveConn\<close>
  (hpserver/server.go).  A handler takes the time, the session, the request and the server, and
  returns the reply and the new server; no handler of the source returns an error or no reply.
  Log lines are left out.
\<close>

section \<open>Command numbers\<close>

definition CommandLogin :: u16 where "CommandLogin = 0x28"
definition CommandSilentLogin :: u16 where "CommandSilentLogin = 0x32"
definition CommandLogout :: u16 where "CommandLogout = 0x46"
definition CommandPostAuth :: u16 where "CommandPostAuth = 0x08"
definition CommandUserSettingsLoad :: u16 where "CommandUserSettingsLoad = 0x0a"
definition CommandSetMetrics :: u16 where "CommandSetMetrics = 0x16"
definition CommandUpdateNetworkInfo :: u16 where "CommandUpdateNetworkInfo = 0x14"
definition CommandUpdateHardware :: u16 where "CommandUpdateHardware = 0x08"
definition CommandGetTelemetry :: u16 where "CommandGetTelemetry = 0x05"
definition CommandCreateWalSession :: u16 where "CommandCreateWalSession = 0xe6"
definition CommandGetAccount :: u16 where "CommandGetAccount = 0x1e"
definition CommandListEntitlements :: u16 where "CommandListEntitlements = 0x20"
definition CommandGetLists :: u16 where "CommandGetLists = 0x06"
definition CommandGetBestScores :: u16 where "CommandGetBestScores = 0x0b"
definition CommandSubmitGameReport :: u16 where "CommandSubmitGameReport = 0x01"
definition CommandSubmitOfflineGame :: u16 where "CommandSubmitOfflineGame = 0x02"
definition CommandAdvanceGameState :: u16 where "CommandAdvanceGameState = 0x03"
definition CommandSetGameSettings :: u16 where "CommandSetGameSettings = 0x04"
definition CommandSetPlayerCapacity :: u16 where "CommandSetPlayerCapacity = 0x05"
definition CommandSetGameAttrs :: u16 where "CommandSetGameAttrs = 0x07"
definition CommandSetPlayerAttrs :: u16 where "CommandSetPlayerAttrs = 0x08"
definition CommandRemovePlayer :: u16 where "CommandRemovePlayer = 0x0b"
definition CommandStartMatchmaking :: u16 where "CommandStartMatchmaking = 0x0d"
definition CommandCancelMatchmaking :: u16 where "CommandCancelMatchmaking = 0x0e"
definition CommandFinalizeGame :: u16 where "CommandFinalizeGame = 0x0f"
definition CommandReplayGame :: u16 where "CommandReplayGame = 0x13"
definition CommandResetDedicated :: u16 where "CommandResetDedicated = 0x19"
definition CommandUpdateMesh :: u16 where "CommandUpdateMesh = 0x1d"

definition AuthInvalidPassword :: u16 where "AuthInvalidPassword = 0x0c"

definition key :: "u16 \<Rightarrow> u16 \<Rightarrow> u32" where
  "key component command = push_bit 16 (ucast component) OR ucast command"

section \<open>Captured replies\<close>

definition hex_digit :: "char \<Rightarrow> u8 option" where
  "hex_digit c =
     (let b = byte_of c in
      if 0x30 \<le> b \<and> b \<le> 0x39 then Some (b - 0x30)
      else if 0x61 \<le> b \<and> b \<le> 0x66 then Some (b - 0x57)
      else if 0x41 \<le> b \<and> b \<le> 0x46 then Some (b - 0x37) else None)"

fun hex_decode :: "string \<Rightarrow> bytes option" where
  "hex_decode [] = Some []"
| "hex_decode (a # b # rest) =
     (case (hex_digit a, hex_digit b, hex_decode rest) of
        (Some x, Some y, Some r) \<Rightarrow> Some ((push_bit 4 x OR y) # r)
      | _ \<Rightarrow> None)"
| "hex_decode [_] = None"

definition mustHex :: "string \<Rightarrow> bytes go" where
  "mustHex value =
     (case hex_decode (filter (\<lambda>c. c \<noteq> CHR '' '') value) of Some b \<Rightarrow> Inr b | None \<Rightarrow> Inl BadHex)"

definition redirectorHex :: string where
  "redirectorHex =
     ''8649320600da1b3503a2fcf4011b6e667368702d7072642d6d702d6170702d30312e65612e636f6d00a70000'' @
     ''00a998caf913c2fcb4009d9c0100ce58f50001d33dae010100e24bb30000''"

definition preAuthHex :: string where
  "preAuthHex =
     ''8e993304001001812019041b1c07090a80e0030f81e00382e00383e0031485e0038efba6038efba605010103'' @
     ''0b70696e67506572696f6400043135730016766f697048656164736574557064617465526174650005313030'' @
     ''30001a786c7370436f6e6e656374696f6e49646c6554696d656f757400043330300000c6fcf3038b7c330300'' @
     ''00b2ec00000ab34c3305010300cf6a640085a088d40800cf6972011f426c617a6520332e30352e30312e3720'' @
     ''28434c232031393033393432290a00''"

definition utilityGameHex :: string where
  "utilityGameHex =
     ''8efba6050101051045787069727954696d657374616d70000b31323839333437323031000a647368744c696d'' @
     ''6974000232000e73686966745f747261696c6572000230000a737368744c696d6974000233000b746f735f62'' @
     ''7566666572000731343030303000''"

definition loginRejectedHex :: string where
  "loginRejectedHex =
     ''c2e86d010100d699000000''"

section \<open>Handlers\<close>

type_synonym handler = "i64 \<Rightarrow> handle \<Rightarrow> Frame \<Rightarrow> Server \<Rightarrow> (Frame \<times> Server) go"

definition reply_hex :: "string \<Rightarrow> handler" where
  "reply_hex s now h req w = go_bind (mustHex s) (\<lambda>payload. Inr (Reply req payload, w))"

definition reply_fields :: "fields \<Rightarrow> handler" where
  "reply_fields fs now h req w = go_bind (EncodeTDF fs) (\<lambda>payload. Inr (Reply req payload, w))"

text \<open>The handlers that only acknowledge, among them the game reports, whose fields are only logged.\<close>

definition acknowledge :: handler where
  "acknowledge now h req w = Inr (Reply req [], w)"

definition ping :: handler where
  "ping now h req w =
     go_bind (mustHex ''cf4a6d00'') (\<lambda>payload. Inr (Reply req (payload @ EncodeVarsizeInteger now), w))"

definition postAuth :: handler where
  "postAuth = reply_fields
     [(''PSS'', TStruct []), (''TELE'', TStruct []), (''TICK'', TStruct []), (''UROP'', TStruct [])]"

definition userSettingsLoad :: handler where
  "userSettingsLoad now h req w =
     (let settingKey = str_field (frame_fields req) ''KEY'';
          settingValue = (if settingKey = ''SHARE_USAGE'' then ''TRUE'' else '''')
      in reply_fields [(''DATA'', TStr settingValue), (''KEY'', TStr settingKey)] now h req w)"

definition networkAddress :: "tdf option \<Rightarrow> fields option" where
  "networkAddress value =
     (case value of Some (TUnion _ _ v) \<Rightarrow> as_struct (Some v) | _ \<Rightarrow> as_struct value)"

definition updateNetworkInfo :: handler where
  "updateNetworkInfo now h req w =
     (let fs = frame_fields req;
          w1 = (case networkAddress (map_of fs ''ADDR'') of
             Some address \<Rightarrow> upd h (\<lambda>s. s\<lparr>NetworkAddress := Some address\<rparr>) w | None \<Rightarrow> w);
          w2 = (case as_struct (map_of fs ''NQOS'') of
             Some qos \<Rightarrow> upd h (\<lambda>s. s\<lparr>NetworkQOS := Some qos\<rparr>) w1 | None \<Rightarrow> w1)
      in Inr (Reply req [], w2))"

definition getBestScores :: handler where
  "getBestScores = reply_fields [(''SCRS'', TTyped 3 [])]"

text \<open>The critical section of \<open>resetDedicatedServer\<close>: the game and, for a new one, its setup.\<close>

definition resetDedicated_locked ::
  "i64 \<Rightarrow> handle \<Rightarrow> Frame \<Rightarrow> Server \<Rightarrow> ((i64 \<times> bytes option) \<times> Server) go" where
  "resetDedicated_locked now h req w =
     (let ats = map_field (frame_fields req) ''ATTR'' in
      case (case map_of (games w) (GameID (heap w h)) of
              Some existing \<Rightarrow>
                if sessionForPlayerID (heap w) existing (PersonaID (heap w h)) = Some h then Some existing else None
            | None \<Rightarrow> None) of
        Some existing \<Rightarrow> Inr ((ID existing, None), w)
      | None \<Rightarrow>
          let w1 = removeQueuedSessionLocked h (upd h (\<lambda>s. s\<lparr>GameID := 0\<rparr>) w);
              gameID = nextGameID w1;
              game = newGame (heap w1) now gameID h [h] ats (getMatchmakingCapacity req)
                (getMatchmakingTopology req) 1;
              w2 = upd h (\<lambda>s. s\<lparr>GameID := gameID\<rparr>)
                (w1\<lparr>nextGameID := gameID + 1, games := AList.update gameID game (games w1)\<rparr>);
              (setup, game') = gameSetup (heap w2) now game
          in go_bind (EncodeTDF setup) (\<lambda>payload.
               Inr ((gameID, Some payload), put_game game' gameID w2)))"

definition resetDedicated :: handler where
  "resetDedicated now h req w =
     go_bind (resetDedicated_locked now h req w) (\<lambda>((gameID, setup), w1).
       let w2 = (case setup of
             Some payload \<Rightarrow> upd h (hold [notification ComponentGameManager NotifyGameSetup payload]) w1
           | None \<Rightarrow> w1)
       in reply_fields [(''GID'', TInt gameID)] now h req w2)"

definition finalizeGame :: handler where
  "finalizeGame now h req w =
     (let s = heap w h;
          gid0 = int_field (frame_fields req) ''GID'';
          gid1 = (if gid0 = 0 then PendingMatchmakingGame s else gid0);
          gameID = (if gid1 = 0 then GameID s else gid1)
      in
      if gameID = 0 then Inr (Reply req [], w)
      else go_bind (game_notification NotifyPlatformHost [(''GID'', TInt gameID), (''PHST'', TInt 0)]) (\<lambda>f.
        Inr (Reply req [], upd h (\<lambda>s. (hold [f] s)\<lparr>PendingMatchmakingGame := 0\<rparr>) w)))"

text \<open>
  The handlers that set a field of a game named by the request and echo it to the members:
  \<open>set_game\<close> is their critical section.
\<close>

definition set_game :: "i64 \<Rightarrow> (Game \<Rightarrow> Game) \<Rightarrow> Server \<Rightarrow> Server" where
  "set_game gameID f w =
     (case map_of (games w) gameID of Some g \<Rightarrow> put_game (f g) gameID w | None \<Rightarrow> w)"

definition set_and_broadcast :: "u16 \<Rightarrow> fields \<Rightarrow> i64 \<Rightarrow> (Game \<Rightarrow> Game) \<Rightarrow> handler" where
  "set_and_broadcast command fs gameID f now h req w =
     (let w1 = set_game gameID f w in
      go_bind (game_notification command fs) (\<lambda>n. Inr (Reply req [], broadcast h gameID n w1)))"

definition advanceGameState :: handler where
  "advanceGameState now h req w =
     (let gameID = int_field (frame_fields req) ''GID''; gameState = int_field (frame_fields req) ''GSTA''
      in set_and_broadcast NotifyGameState [(''GID'', TInt gameID), (''GSTA'', TInt gameState)]
           gameID (\<lambda>g. g\<lparr>State := gameState\<rparr>) now h req w)"

definition setPlayerAttributes :: handler where
  "setPlayerAttributes now h req w =
     (let fs = frame_fields req in
      go_bind (broadcastPlayerAttributes now h (int_field fs ''GID'') (int_field fs ''PID'')
        (map_field fs ''ATTR'') w) (\<lambda>w'. Inr (Reply req [], w')))"

definition setGameAttributes :: handler where
  "setGameAttributes now h req w =
     (let attributes = map_field (frame_fields req) ''ATTR''; gameID = int_field (frame_fields req) ''GID''
      in set_and_broadcast NotifyGameAttrs [(''ATTR'', TMap attributes), (''GID'', TInt gameID)]
           gameID (\<lambda>g. g\<lparr>Attrs := attributes\<rparr>) now h req w)"

definition setGameSettings :: handler where
  "setGameSettings now h req w =
     (let gameID = int_field (frame_fields req) ''GID''; settings = int_field (frame_fields req) ''GSET''
      in set_and_broadcast NotifyGameSettings [(''ATTR'', TInt settings), (''GID'', TInt gameID)]
           gameID (\<lambda>g. g\<lparr>Settings := settings\<rparr>) now h req w)"

definition setPlayerCapacity :: handler where
  "setPlayerCapacity now h req w =
     (let gameID = int_field (frame_fields req) ''GID''; capacities = list_field (frame_fields req) ''PCAP''
      in set_and_broadcast NotifyGameCapacity [(''CAP'', TTyped 0 capacities), (''GID'', TInt gameID)]
           gameID (\<lambda>g. case capacities of TInt c # _ \<Rightarrow> g\<lparr>Capacity := c\<rparr> | _ \<Rightarrow> g) now h req w)"

text \<open>The critical section of \<open>removePlayer\<close>: the game, and for a removal its target and recipients.\<close>

definition removePlayer_locked ::
  "handle \<Rightarrow> i64 \<Rightarrow> i64 \<Rightarrow> Server \<Rightarrow> (bool \<times> (handle \<times> handle list \<times> bool) option) \<times> Server" where
  "removePlayer_locked h gameID playerID w =
     (case map_of (games w) gameID of
        None \<Rightarrow> ((False, None), w)
      | Some game0 \<Rightarrow>
          (case (sessionForPlayerID (heap w) game0 (PersonaID (heap w h)),
                 sessionForPlayerID (heap w) game0 playerID) of
             (Some caller, Some target) \<Rightarrow>
               if target \<noteq> h \<and> h \<noteq> Host game0 then ((True, None), w)
               else
                 let game = snd (removeMember (heap w) target game0);
                     w1 = upd target (\<lambda>s. s\<lparr>GameID := 0, PendingMatchmakingGame := 0\<rparr>)
                       (removeQueuedSessionLocked target w)
                 in
                 if target = Host game
                 then ((True, Some (target, Members game0, True)),
                       fold release_member (Members game) (w1\<lparr>games := AList.delete gameID (games w1)\<rparr>))
                 else ((True, Some (target, Members game0, False)),
                       put_game (refreshMeshReadiness (heap w1) game) gameID w1)
           | _ \<Rightarrow> ((True, None), w)))"

definition removePlayer :: handler where
  "removePlayer now h req w =
     (let fs = frame_fields req;
          contextValue = int_field fs ''CNTX''; gameID = int_field fs ''GID'';
          playerID = int_field fs ''PID''; reason = int_field fs ''REAS''
      in
      case removePlayer_locked h gameID playerID w of
        ((False, _), w1) \<Rightarrow>
          go_bind (playerRemovedNotification gameID playerID contextValue reason) (\<lambda>f.
            Inr (Reply req [], deliver f h w1))
      | ((True, None), w1) \<Rightarrow> Inr (Reply req [], w1)
      | ((True, Some (target, recipients, hostRemoved)), w1) \<Rightarrow>
          go_bind (each (\<lambda>m w. notify_removed gameID (PersonaID (heap w target)) contextValue reason
              (hostRemoved \<and> m \<noteq> target) m w) recipients w1)
            (\<lambda>w2. Inr (Reply req [], w2)))"

definition startMatchmaking :: handler where
  "startMatchmaking now h req w =
     go_bind (queueMatch now h req w) (\<lambda>(ms, w').
       reply_fields [(''MSID'', TInt ms)] now h req w')"

definition cancelMatchmaking :: handler where
  "cancelMatchmaking now h req w =
     Inr (Reply req [], snd (cancelQueuedMatch h (int_field (frame_fields req) ''MSID'') w))"

definition replay_accepted :: "handle \<Rightarrow> i64 \<Rightarrow> Server \<Rightarrow> bool" where
  "replay_accepted h gameID w =
     (case map_of (games w) gameID of
        Some game \<Rightarrow>
          sessionForPlayerID (heap w) game (PersonaID (heap w h)) = Some h \<and> Host game = h
      | None \<Rightarrow> False)"

definition replayGame :: handler where
  "replayGame now h req w =
     (let gameID = int_field (frame_fields req) ''GID'' in
      if replay_accepted h gameID w
      then set_and_broadcast NotifyGameState [(''GID'', TInt gameID), (''GSTA'', TInt 130)]
             gameID (\<lambda>g. g\<lparr>State := 130\<rparr>) now h req w
      else Inr (Reply req [], w))"

definition updateMesh :: handler where
  "updateMesh now h req w =
     (let fs = frame_fields req in
      go_bind (updateMeshConnection now h (int_field fs ''GID'') (list_field fs ''TARG'') w)
        (\<lambda>w'. Inr (Reply req [], w')))"

definition getTelemetry :: handler where
  "getTelemetry = reply_fields
     [(''ADRS'', TStr ''''), (''ANON'', TBool False), (''DISA'', TBool True), (''FILT'', TStr ''''),
      (''LOC'', TInt 0), (''NOOK'', TStr ''''), (''PORT'', TInt 0), (''SDLY'', TInt 0),
      (''SKEY'', TStr ''''), (''SPCT'', TInt 0)]"

definition createWalSession :: handler where
  "createWalSession = reply_fields [(''KEY'', TStr ''LOCAL-WAL-SESSION-KEY'')]"

definition getAccount :: handler where
  "getAccount now h req w = reply_fields
     [(''ASRC'', TStr ''''), (''CO'', TStr ''US''), (''DOB'', TStr ''1980-01-01''),
      (''DTCR'', TStr ''2010-11-16T00:00:00Z''), (''GOPT'', TBool False), (''LATH'', TStr ''''),
      (''LN'', TStr ''en''), (''MAIL'', TStr ''player@localhost''), (''PML'', TStr ''''),
      (''RC'', TInt 1), (''STAS'', TInt 1), (''STAT'', TInt 2), (''TOSV'', TStr ''''),
      (''TPOT'', TBool False), (''UID'', TInt (AccountID (heap w h)))] now h req w"

definition listEntitlements :: handler where
  "listEntitlements now h req w = reply_fields
     [(''NLST'', TTyped 3 [TStruct
        [(''DEVI'', TStr ''''), (''GDAY'', TStr ''2010-11-16T00:00:00Z''), (''GNAM'', TStr ''NFS11HP''),
         (''ID'', TInt 1), (''ISCO'', TBool False), (''PID'', TInt (PersonaID (heap w h))),
         (''PJID'', TStr ''NFS11HP''), (''PRCA'', TInt 1), (''PRID'', TStr ''nfs-2011-pc''),
         (''STAT'', TInt 1), (''STRC'', TInt 1), (''TAG'', TStr ''ONLINE_ACCESS''),
         (''TDAY'', TStr ''''), (''TYPE'', TInt 1), (''UCNT'', TInt 0), (''VER'', TInt 1)]])] now h req w"

definition getLists :: handler where
  "getLists = reply_fields [(''LMAP'', TTyped 3 [])]"

definition utilityConfig :: handler where
  "utilityConfig now h req w =
     (if map_of (frame_fields req) ''CFID'' = Some (TStr ''Game'') then reply_hex utilityGameHex now h req w
      else reply_fields [(''CONF'', TMap
        [(TStr ''autolog_host'', TStr (AutologBase w)),
         (TStr ''autolog_host_secure'', TStr (AutologBase w)),
         (TStr ''content_petition'', TStr ''game/post_content_petition.php''),
         (TStr ''content_rep_hide'', TStr ''hideContent/[sessionkey]''),
         (TStr ''content_rep_show'', TStr ''showContent/[sessionkey]''),
         (TStr ''content_rep_view'', TStr ''viewContent/[sessionkey]''),
         (TStr ''event'', TStr ''game/post_autolog_event.php''),
         (TStr ''friend_upload'', TStr ''game/friend_upload.php''),
         (TStr ''get_photo'', TStr ''game/get_photo.php''),
         (TStr ''layout_bundles'', TStr ''al/%s/bundles/pc/''),
         (TStr ''lua_bundles'', TStr ''al/%s/lua/''),
         (TStr ''page_data'', TStr ''al/%s/pages/''),
         (TStr ''photo_space'', TStr ''game/photo_space_check.php''),
         (TStr ''post_photo'', TStr ''game/post_photo.php''),
         (TStr ''profile_sync'', TStr ''game/profile_sync.php''),
         (TStr ''server_manifest'', TStr ''al/pc-%s.manifest''),
         (TStr ''view_model'', TStr ''_services/json_portal.ws.php'')])] now h req w)"

definition silentLogin :: handler where
  "silentLogin now h req w =
     (let fs = frame_fields req;
          w1 = authenticateSessionNamed h (int_field fs ''PID'') (personaNameFromToken (str_field fs ''PCTK'')) w;
          s = heap w1 h;
          extendedData = TStruct syntheticUserSessionExtendedData
      in
      go_bind (EncodeTDF
        [(''AGUP'', TBool False), (''PCTK'', TStr ''LOCAL-PC-TOKEN''), (''PRIV'', TStr ''''),
         (''SESS'', TStruct
           [(''BUID'', TInt (PersonaID s)), (''FRST'', TBool False), (''KEY'', TStr ''LOCAL-SESSION-KEY''),
            (''LLOG'', TInt 0), (''MAIL'', TStr ''player@localhost''),
            (''PDTL'', TStruct
              [(''DSNM'', TStr (Persona s)), (''LAST'', TInt 0), (''PID'', TInt (PersonaID s)),
               (''XREF'', TInt 0), (''XTYP'', TInt 0)]),
            (''UID'', TInt (AccountID s))]),
         (''SPAM'', TBool False), (''THST'', TStr ''''), (''TURI'', TStr '''')]) (\<lambda>payload.
      go_bind (EncodeTDF
        [(''DATA'', extendedData),
         (''USER'', TStruct
           [(''AID'', TInt (AccountID s)), (''ALOC'', TInt 0), (''EXBB'', TBlob []), (''EXID'', TInt 0),
            (''ID'', TInt (PersonaID s)), (''NAME'', TStr (Persona s))])]) (\<lambda>added.
      go_bind (EncodeTDF [(''DATA'', extendedData), (''USID'', TInt (userSessionID s))]) (\<lambda>extended.
      Inr (Reply req payload,
        upd h (hold [notification ComponentUserSessions NotifyUserAdded added,
                     notification ComponentUserSessions NotifyExtendedData extended]) w1)))))"

definition rejectLogin :: handler where
  "rejectLogin now h req w =
     go_bind (mustHex loginRejectedHex) (\<lambda>payload. Inr (ErrorReply req AuthInvalidPassword payload, w))"

section \<open>Dispatch\<close>

text \<open>\<open>registerDefaultHandlers\<close>: the registrations in the order of the code.\<close>

definition registerDefaultHandlers :: "(u32 \<times> handler) list" where
  "registerDefaultHandlers =
     [(key ComponentRedirector 1, reply_hex redirectorHex),
      (key ComponentUtility 7, reply_hex preAuthHex),
      (key ComponentUtility 2, ping),
      (key ComponentUtility CommandPostAuth, postAuth),
      (key ComponentUtility CommandUserSettingsLoad, userSettingsLoad),
      (key ComponentUtility CommandSetMetrics, acknowledge),
      (key ComponentUserSessions CommandUpdateNetworkInfo, updateNetworkInfo),
      (key ComponentUserSessions CommandUpdateHardware, acknowledge),
      (key ComponentGameReporting CommandSubmitGameReport, acknowledge),
      (key ComponentGameReporting CommandSubmitOfflineGame, acknowledge),
      (key ComponentAutolog CommandGetBestScores, getBestScores),
      (key ComponentGameManager CommandResetDedicated, resetDedicated),
      (key ComponentGameManager CommandFinalizeGame, finalizeGame),
      (key ComponentGameManager CommandAdvanceGameState, advanceGameState),
      (key ComponentGameManager CommandSetPlayerAttrs, setPlayerAttributes),
      (key ComponentGameManager CommandSetGameAttrs, setGameAttributes),
      (key ComponentGameManager CommandSetGameSettings, setGameSettings),
      (key ComponentGameManager CommandSetPlayerCapacity, setPlayerCapacity),
      (key ComponentGameManager CommandRemovePlayer, removePlayer),
      (key ComponentGameManager CommandStartMatchmaking, startMatchmaking),
      (key ComponentGameManager CommandCancelMatchmaking, cancelMatchmaking),
      (key ComponentGameManager CommandReplayGame, replayGame),
      (key ComponentGameManager CommandUpdateMesh, updateMesh),
      (key ComponentUtility CommandGetTelemetry, getTelemetry),
      (key ComponentAuthentication CommandCreateWalSession, createWalSession),
      (key ComponentAuthentication CommandGetAccount, getAccount),
      (key ComponentAuthentication CommandListEntitlements, listEntitlements),
      (key ComponentAssociation CommandGetLists, getLists),
      (key ComponentUtility 1, utilityConfig),
      (key ComponentAuthentication CommandSilentLogin, silentLogin),
      (key ComponentAuthentication CommandLogout, acknowledge),
      (key ComponentAuthentication CommandLogin, rejectLogin)]"

text \<open>The map \<open>Handlers\<close>: a later registration under the same key replaces an earlier one.\<close>

definition Handlers :: "(u32 \<times> handler) list" where
  "Handlers = fold (\<lambda>(k, f) hs. AList.update k f hs) registerDefaultHandlers []"

text \<open>
  One round of the loop of \<open>serveConn\<close> after a frame was read.  The flag is false when the
  connection is closed: for a request without a handler, or when the reply cannot be queued.
\<close>

definition serve_request :: "i64 \<Rightarrow> handle \<Rightarrow> Frame \<Rightarrow> Server \<Rightarrow> (bool \<times> Server) go" where
  "serve_request now h request w =
     (case map_of Handlers (key (Component (Header request)) (Command (Header request))) of
        None \<Rightarrow> Inr (False, w)
      | Some f \<Rightarrow>
          go_bind (f now h request w) (\<lambda>(response, w1).
            case enqueue \<lparr>frame = response, delay = 0\<rparr> (heap w1 h) of
              (False, _) \<Rightarrow> Inr (False, w1)
            | (True, s) \<Rightarrow> Inr (True, upd h (\<lambda>_. flushNotifications s) w1)))"

lemma Read_shorter: "Read stream = Inr (Inr (f, rest)) \<Longrightarrow> length rest < length stream"
  by (auto simp: Read_def ReadFull_def HeaderSize_def Let_def go_bind_Inr_iff split: sum.splits if_splits prod.splits)

end
