(* ===== verification/Lobby.thy ===== *)
theory Lobby
  imports Handlers
begin

text \<open>
  The invariant of the lobby and the elementary changes that keep it.  The code states it in the
  comment of \<open>removeQueuedSessionLocked\<close>: \<open>a connection can be idle, queued, or in one game, never
  present in more than one state\<close>.  Here it relates the fields \<open>GameID\<close> and \<open>QueuedMatchID\<close> of the
  sessions with the rosters of the games, the queue and the registries of the server.

  With \<open>strict\<close> the invariant also says that every game is well formed (\<open>game_ok\<close>), which holds as
  long as no session logs in while it is a member of a game.
\<close>

section \<open>The invariant\<close>

definition live :: "Server \<Rightarrow> handle \<Rightarrow> bool" where
  "live w h \<longleftrightarrow> PersonaID (heap w h) = 0 \<or> map_of (activePersonas w) (PersonaID (heap w h)) = Some h"

definition member_of :: "Server \<Rightarrow> handle \<Rightarrow> i64 \<Rightarrow> bool" where
  "member_of w h k \<longleftrightarrow> (\<exists>g. map_of (games w) k = Some g \<and> h \<in> set (Members g))"

definition queued :: "Server \<Rightarrow> handle \<Rightarrow> i64 \<Rightarrow> bool" where
  "queued w h q \<longleftrightarrow> (\<exists>r \<in> set (matchQueue w). session r = h \<and> msid r = q)"

definition game_in :: "bool \<Rightarrow> Server \<Rightarrow> i64 \<Rightarrow> Game \<Rightarrow> bool" where
  "game_in strict w k g \<longleftrightarrow> ID g = k \<and> 0 < sint k \<and> sint k < sint (nextGameID w) \<and>
     Host g \<in> set (Members g) \<and> distinct (map (\<lambda>m. PersonaID (heap w m)) (Members g)) \<and>
     (strict \<longrightarrow> game_ok (heap w) g)"

definition lobby_ok :: "bool \<Rightarrow> Server \<Rightarrow> bool" where
  "lobby_ok strict w \<longleftrightarrow>
     auth_ok w \<and>
     (\<forall>h k. member_of w h k \<longleftrightarrow> k \<noteq> 0 \<and> GameID (heap w h) = k) \<and>
     (\<forall>k g. map_of (games w) k = Some g \<longrightarrow> game_in strict w k g) \<and>
     distinct (map session (matchQueue w)) \<and>
     (\<forall>h q. queued w h q \<longleftrightarrow> q \<noteq> 0 \<and> QueuedMatchID (heap w h) = q) \<and>
     (\<forall>h. GameID (heap w h) = 0 \<or> QueuedMatchID (heap w h) = 0) \<and>
     (\<forall>h. GameID (heap w h) \<noteq> 0 \<or> QueuedMatchID (heap w h) \<noteq> 0 \<longrightarrow> live w h) \<and>
     0 < sint (nextGameID w) \<and> 0 < sint (nextMatchID w)"

lemma lobby_auth: "lobby_ok s w \<Longrightarrow> auth_ok w"
  and lobby_member: "lobby_ok s w \<Longrightarrow> member_of w h k \<longleftrightarrow> k \<noteq> 0 \<and> GameID (heap w h) = k"
  and lobby_game: "lobby_ok s w \<Longrightarrow> map_of (games w) k = Some g \<Longrightarrow> game_in s w k g"
  and lobby_distinct: "lobby_ok s w \<Longrightarrow> distinct (map session (matchQueue w))"
  and lobby_queued: "lobby_ok s w \<Longrightarrow> queued w h q \<longleftrightarrow> q \<noteq> 0 \<and> QueuedMatchID (heap w h) = q"
  and lobby_one: "lobby_ok s w \<Longrightarrow> GameID (heap w h) = 0 \<or> QueuedMatchID (heap w h) = 0"
  and lobby_live: "lobby_ok s w \<Longrightarrow> GameID (heap w h) \<noteq> 0 \<or> QueuedMatchID (heap w h) \<noteq> 0 \<Longrightarrow> live w h"
  and lobby_next: "lobby_ok s w \<Longrightarrow> 0 < sint (nextGameID w)" "lobby_ok s w \<Longrightarrow> 0 < sint (nextMatchID w)"
  unfolding lobby_ok_def by blast+

lemma game_in_cong:
  assumes "game_in s w k g" and "sint (nextGameID w) \<le> sint (nextGameID w')"
    and "\<And>m. m \<in> set (Members g) \<Longrightarrow> PersonaID (heap w' m) = PersonaID (heap w m)"
  shows "game_in s w' k g"
proof -
  have "distinct (map (\<lambda>m. PersonaID (heap w m)) (Members g)) \<Longrightarrow> distinct (map (\<lambda>m. PersonaID (heap w' m)) (Members g))"
    using assms(3) by (metis (mono_tags, lifting) map_cong)
  moreover have "game_ok (heap w) g \<Longrightarrow> game_ok (heap w') g"
    by (erule game_ok_cong) (simp_all add: assms(3))
  ultimately show ?thesis using assms(1,2) unfolding game_in_def by auto
qed

lemma upd_simps [simp]:
  "heap (upd h f w) = (heap w)(h := f (heap w h))" "games (upd h f w) = games w"
  "matchQueue (upd h f w) = matchQueue w" "activePersonas (upd h f w) = activePersonas w"
  "users (upd h f w) = users w" "nextGameID (upd h f w) = nextGameID w"
  "nextMatchID (upd h f w) = nextMatchID w" "nextUserID (upd h f w) = nextUserID w"
  by (simp_all add: upd_def)

lemma put_game_simps [simp]:
  "heap (put_game g k w) = heap w" "map_of (games (put_game g k w)) = (map_of (games w))(k \<mapsto> g)"
  "matchQueue (put_game g k w) = matchQueue w" "activePersonas (put_game g k w) = activePersonas w"
  "users (put_game g k w) = users w" "nextGameID (put_game g k w) = nextGameID w"
  "nextMatchID (put_game g k w) = nextMatchID w" "nextUserID (put_game g k w) = nextUserID w"
  by (simp_all add: put_game_def update_conv')

text \<open>What the invariant depends on.\<close>

definition same_lobby :: "Server \<Rightarrow> Server \<Rightarrow> bool" where
  "same_lobby w w' \<longleftrightarrow>
     activePersonas w' = activePersonas w \<and> users w' = users w \<and>
     map_of (games w') = map_of (games w) \<and> matchQueue w' = matchQueue w \<and>
     nextGameID w' = nextGameID w \<and> 
     (\<forall>h. PersonaID (heap w' h) = PersonaID (heap w h) \<and> GameID (heap w' h) = GameID (heap w h) \<and>
       QueuedMatchID (heap w' h) = QueuedMatchID (heap w h))"

lemma lobby_ok_same:
  assumes "lobby_ok s w" and "same_lobby w w'" and "0 < sint (nextMatchID w')"
  shows "lobby_ok s w'"
proof -
  have g: "game_in s w' k g" if "game_in s w k g" for k g
    by (rule game_in_cong [OF that]) (use assms(2) in \<open>simp_all add: same_lobby_def\<close>)
  show ?thesis
    using assms g unfolding lobby_ok_def
    by (auto simp: same_lobby_def auth_ok_def member_of_def queued_def live_def)
qed

lemma sessionForPlayerID_iff:
  assumes "distinct (map (\<lambda>m. PersonaID (H m)) (Members g))"
  shows "sessionForPlayerID H g p = Some m \<longleftrightarrow> m \<in> set (Members g) \<and> PersonaID (H m) = p"
proof
  assume "sessionForPlayerID H g p = Some m"
  then show "m \<in> set (Members g) \<and> PersonaID (H m) = p"
    by (auto simp: sessionForPlayerID_def canonicalPlayerID_def find_Some_iff)
next
  assume m: "m \<in> set (Members g) \<and> PersonaID (H m) = p"
  then obtain x where x: "sessionForPlayerID H g p = Some x"
    unfolding sessionForPlayerID_def canonicalPlayerID_def
    by (cases "List.find (\<lambda>member. PersonaID (H member) = p) (Members g)") (auto simp: find_None_iff)
  then have "x \<in> set (Members g) \<and> PersonaID (H x) = p"
    by (auto simp: sessionForPlayerID_def canonicalPlayerID_def find_Some_iff)
  with m assms have "x = m" by (auto simp: distinct_map inj_on_def)
  with x show "sessionForPlayerID H g p = Some m" by simp
qed

text \<open>Two live sessions with one persona are unauthenticated or the same.\<close>

lemma live_unique: "live w a \<Longrightarrow> live w b \<Longrightarrow> PersonaID (heap w a) = PersonaID (heap w b) \<Longrightarrow>
  a = b \<or> PersonaID (heap w a) = 0"
  unfolding live_def by (metis option.inject)

lemma active_iff:
  assumes "lobby_ok s w"
  shows "GameID (heap w h) \<noteq> 0 \<longleftrightarrow>
    (\<exists>g. map_of (games w) (GameID (heap w h)) = Some g \<and> sessionForPlayerID (heap w) g (PersonaID (heap w h)) = Some h)"
    (is "?l \<longleftrightarrow> ?r")
proof
  assume ?l
  then have "member_of w h (GameID (heap w h))" by (simp add: lobby_member [OF assms])
  then obtain g where "map_of (games w) (GameID (heap w h)) = Some g" "h \<in> set (Members g)"
    by (auto simp: member_of_def)
  moreover from this lobby_game [OF assms] have "distinct (map (\<lambda>m. PersonaID (heap w m)) (Members g))"
    by (auto simp: game_in_def)
  ultimately show ?r by (auto simp: sessionForPlayerID_iff)
next
  assume ?r
  then obtain g where "game_in s w (GameID (heap w h)) g" using lobby_game [OF assms] by blast
  then show ?l by (auto simp: game_in_def)
qed

section \<open>The elementary changes of state\<close>

lemma lobby_dequeue:
  assumes "lobby_ok s w"
  shows "lobby_ok s (removeQueuedSessionLocked h w)"
proof -
  let ?w = "removeQueuedSessionLocked h w"
  have w: "activePersonas ?w = activePersonas w" "users ?w = users w" "games ?w = games w"
    "nextGameID ?w = nextGameID w" "nextMatchID ?w = nextMatchID w"
    "heap ?w = (heap w)(h := (heap w h)\<lparr>QueuedMatchID := 0\<rparr>)"
    "matchQueue ?w = filter (\<lambda>r. session r \<noteq> h) (matchQueue w)"
    by (simp_all add: removeQueuedSessionLocked_def)
  have g: "game_in s ?w k g" if "game_in s w k g" for k g
    by (rule game_in_cong [OF that]) (simp_all add: w)
  have q: "queued ?w k q \<longleftrightarrow> k \<noteq> h \<and> queued w k q" for k q by (auto simp: queued_def w)
  show ?thesis
    using assms g unfolding lobby_ok_def q
    by (auto simp: auth_ok_def member_of_def live_def w distinct_map_filter)
qed

lemma lobby_enqueue:
  assumes ok: "lobby_ok s w" and "live w (session r)" and "msid r \<noteq> 0"
    and "GameID (heap w (session r)) = 0" and "QueuedMatchID (heap w (session r)) = 0"
  shows "lobby_ok s (upd (session r) (\<lambda>x. x\<lparr>QueuedMatchID := msid r\<rparr>) (w\<lparr>matchQueue := matchQueue w @ [r]\<rparr>))"
    (is "lobby_ok s ?w")
proof -
  have g: "game_in s ?w k g" if "game_in s w k g" for k g
    by (rule game_in_cong [OF that]) simp_all
  have new: "session r \<notin> session ` set (matchQueue w)"
  proof
    assume "session r \<in> session ` set (matchQueue w)"
    then obtain r' where "r' \<in> set (matchQueue w)" "session r' = session r" by auto
    then have "queued w (session r) (msid r')" by (auto simp: queued_def)
    then show False using assms(5) lobby_queued [OF ok] by simp
  qed
  have q: "queued ?w h q \<longleftrightarrow> queued w h q \<or> (h = session r \<and> q = msid r)" for h q
    by (auto simp: queued_def)
  show ?thesis
    using assms g new unfolding lobby_ok_def q
    by (auto simp: auth_ok_def member_of_def live_def)
qed

text \<open>One game changes: it gets new members, or a new game is registered, or it goes.\<close>

definition roster :: "Game option \<Rightarrow> handle set" where
  "roster X = (case X of Some g \<Rightarrow> set (Members g) | None \<Rightarrow> {})"

definition game_change :: "i64 \<Rightarrow> Game option \<Rightarrow> Server \<Rightarrow> Server \<Rightarrow> bool" where
  "game_change k X w w' \<longleftrightarrow>
     activePersonas w' = activePersonas w \<and> users w' = users w \<and> matchQueue w' = matchQueue w \<and>
     map_of (games w') = (map_of (games w))(k := X) \<and> nextMatchID w' = nextMatchID w \<and>
     (\<forall>h. PersonaID (heap w' h) = PersonaID (heap w h) \<and> QueuedMatchID (heap w' h) = QueuedMatchID (heap w h) \<and>
       GameID (heap w' h) = (if h \<in> roster X then k else if GameID (heap w h) = k then 0 else GameID (heap w h)))"

lemma lobby_game_change:
  assumes ok: "lobby_ok s w" and ch: "game_change k X w w'" and "k \<noteq> 0"
    and mono: "sint (nextGameID w) \<le> sint (nextGameID w')"
    and new: "\<And>g. X = Some g \<Longrightarrow> game_in s w' k g"
    and in_X: "\<And>h. h \<in> roster X \<Longrightarrow> GameID (heap w h) \<in> {0, k} \<and> QueuedMatchID (heap w h) = 0 \<and> live w h"
  shows "lobby_ok s w'"
proof -
  have eq: "PersonaID (heap w' h) = PersonaID (heap w h)" "QueuedMatchID (heap w' h) = QueuedMatchID (heap w h)"
    "GameID (heap w' h) = (if h \<in> roster X then k else if GameID (heap w h) = k then 0 else GameID (heap w h))"
    "activePersonas w' = activePersonas w" "users w' = users w" "matchQueue w' = matchQueue w"
    "map_of (games w') = (map_of (games w))(k := X)" "nextMatchID w' = nextMatchID w" for h
    using ch by (simp_all add: game_change_def)
  have member: "member_of w' h j \<longleftrightarrow> (if j = k then h \<in> roster X else j \<noteq> 0 \<and> GameID (heap w h) = j)" for h j
    using lobby_member [OF ok] by (auto simp: member_of_def eq roster_def split: option.splits)
  have live: "live w' h \<longleftrightarrow> live w h" for h by (simp add: live_def eq)
  have q: "queued w' h j \<longleftrightarrow> queued w h j" for h j by (simp add: queued_def eq)
  have g: "game_in s w' j g" if "map_of (games w) j = Some g" for j g
    by (rule game_in_cong [OF lobby_game [OF ok that] mono]) (simp add: eq)
  have "auth_ok w'" using lobby_auth [OF ok] by (simp add: auth_ok_def eq)
  moreover have "\<forall>h j. member_of w' h j \<longleftrightarrow> j \<noteq> 0 \<and> GameID (heap w' h) = j"
    using in_X \<open>k \<noteq> 0\<close> by (auto simp: member eq)
  moreover have "\<forall>j g. map_of (games w') j = Some g \<longrightarrow> game_in s w' j g"
    using g new by (auto simp: eq)
  moreover have "\<forall>h. GameID (heap w' h) = 0 \<or> QueuedMatchID (heap w' h) = 0"
    using in_X lobby_one [OF ok] by (auto simp: eq)
  moreover have "\<forall>h. GameID (heap w' h) \<noteq> 0 \<or> QueuedMatchID (heap w' h) \<noteq> 0 \<longrightarrow> live w' h"
    using in_X lobby_live [OF ok] by (auto simp: eq live)
  ultimately show ?thesis
    using lobby_queued [OF ok] lobby_distinct [OF ok] lobby_next [OF ok] mono
    unfolding lobby_ok_def by (simp add: q eq)
qed

lemma lobby_roster:
  assumes "lobby_ok s w" and "map_of (games w) k = Some g"
  shows "k \<noteq> 0" and "h \<in> set (Members g) \<longleftrightarrow> GameID (heap w h) = k"
proof -
  show k: "k \<noteq> 0" using lobby_game [OF assms] by (auto simp: game_in_def)
  show "h \<in> set (Members g) \<longleftrightarrow> GameID (heap w h) = k"
    using lobby_member [OF assms(1), of h k] assms(2) k by (auto simp: member_of_def)
qed

lemma lobby_idle_in:
  assumes "lobby_ok s w" and "map_of (games w) k = Some g" and "h \<in> set (Members g)"
  shows "GameID (heap w h) = k \<and> QueuedMatchID (heap w h) = 0 \<and> live w h"
  using lobby_roster [OF assms(1,2)] lobby_one [OF assms(1), of h] lobby_live [OF assms(1), of h] assms(3)
  by auto

text \<open>Writing back a game with the same members.\<close>

lemma lobby_put:
  assumes ok: "lobby_ok s w" and k: "map_of (games w) k = Some g"
    and "ID g' = ID g" "Host g' = Host g" "Members g' = Members g" "s \<longrightarrow> game_ok (heap w) g'"
  shows "lobby_ok s (put_game g' k w)"
proof (rule lobby_game_change [OF ok, of k "Some g'"])
  show "game_change k (Some g') w (put_game g' k w)"
    using lobby_roster [OF ok k] assms(5) by (auto simp: game_change_def roster_def)
  show "k \<noteq> 0" by (rule lobby_roster [OF ok k])
  show "game_in s (put_game g' k w) k g" if "Some g' = Some g" for g
    using lobby_game [OF ok k] assms that unfolding game_in_def by auto
  show "GameID (heap w h) \<in> {0, k} \<and> QueuedMatchID (heap w h) = 0 \<and> live w h" if "h \<in> roster (Some g')" for h
    using lobby_idle_in [OF ok k] that assms(5) by (simp add: roster_def)
qed simp

text \<open>A login.\<close>

definition numbers_left :: "Server \<Rightarrow> bool" where
  "numbers_left w \<longleftrightarrow> sint (nextGameID w) < 2 ^ 63 - 1 \<and> sint (nextMatchID w) < 2 ^ 63 - 1 \<and> roomy w \<and>
     (0 < sint (nextUserID w) \<or>
      sint (nextUserID w) + int (length (activePersonas w) + length (users w)) < 0)"

lemma choosePersona_nonzero:
  assumes "numbers_left w"
  shows "choosePersona r w \<noteq> 0"
proof (cases "sint r \<le> 0 \<or> map_of (activePersonas w) r \<noteq> None")
  case False
  then show ?thesis by (auto simp: choosePersona_def)
next
  case True
  let ?n = "length (activePersonas w) + length (users w)"
  obtain m where m: "m \<le> ?n" "persona_loop ?n w (nextUserID w) = nextUserID w + of_nat m"
    using persona_loop_run by blast
  have n: "?n < 2 ^ 63" using assms by (simp add: numbers_left_def roomy_def)
  have "nextUserID w + of_nat m \<noteq> 0"
  proof
    assume "nextUserID w + of_nat m = 0"
    then have "nextUserID w = word_of_int (- int m)" by (simp add: eq_neg_iff_add_eq_0)
    then have "sint (nextUserID w) = sint (word_of_int (- int m) :: i64)" by (simp only:)
    also have "\<dots> = signed_take_bit 63 (- int m)" by (subst sint_sbintrunc') simp
    also have "\<dots> = - int m" by (rule signed_take_bit_int_eq_self) (use m(1) n in auto)
    finally show False using assms m(1) by (auto simp: numbers_left_def)
  qed
  with True m(2) show ?thesis by (simp add: choosePersona_def)
qed

lemma lobby_login:
  assumes ok: "lobby_ok s w" and left: "numbers_left w" and late: "s \<longrightarrow> GameID (heap w h) = 0"
  shows "lobby_ok s (authenticateSessionNamed h r n w)"
proof (cases "PersonaID (heap w h) = 0")
  case False
  then show ?thesis by (simp add: ok authenticate_known)
next
  case True
  define p where "p = choosePersona r w"
  define w' where "w' = authenticateSessionNamed h r n w"
  have roomy: "roomy w" and p0: "p \<noteq> 0"
    using left choosePersona_nonzero by (auto simp: numbers_left_def p_def)
  have pf: "map_of (activePersonas w) p = None"
    unfolding p_def by (rule choosePersona_free [OF roomy])
  have eq: "activePersonas w' = AList.update p h (activePersonas w)" "games w' = games w"
    "matchQueue w' = matchQueue w" "nextGameID w' = nextGameID w" "nextMatchID w' = nextMatchID w"
    "PersonaID (heap w' x) = (if x = h then p else PersonaID (heap w x))"
    "GameID (heap w' x) = GameID (heap w x)" "QueuedMatchID (heap w' x) = QueuedMatchID (heap w x)" for x
    unfolding w'_def authenticate_new [OF True lobby_auth [OF ok]] Let_def by (simp_all add: p_def)
  have live: "live w' x" if "live w x" for x
    using that True p0 pf by (auto simp: live_def eq update_conv')
  have g: "game_in s w' k g" if "map_of (games w) k = Some g" for k g
  proof (cases "h \<in> set (Members g)")
    case False
    show ?thesis by (rule game_in_cong [OF lobby_game [OF ok that]]) (use False in \<open>auto simp: eq\<close>)
  next
    case True
    have "PersonaID (heap w m) \<noteq> p" if "m \<in> set (Members g)" for m
      using lobby_idle_in [OF ok \<open>map_of (games w) k = Some g\<close> that] p0 pf by (auto simp: live_def)
    moreover have "inj_on (\<lambda>m. PersonaID (heap w m)) (set (Members g))" "distinct (Members g)"
      using lobby_game [OF ok that] by (auto simp: game_in_def distinct_map)
    ultimately have "distinct (map (\<lambda>m. PersonaID (heap w' m)) (Members g))"
      by (auto simp: distinct_map inj_on_def eq)
    moreover have "\<not> s" using late True lobby_idle_in [OF ok that] lobby_roster(1) [OF ok that] by auto
    ultimately show ?thesis using lobby_game [OF ok that] unfolding game_in_def by (simp add: eq)
  qed
  have "auth_ok w'"
    unfolding w'_def by (rule auth_ok_authenticate [OF lobby_auth [OF ok] roomy]) (use p0 p_def in simp)
  moreover have "member_of w' x k \<longleftrightarrow> member_of w x k" "queued w' x q \<longleftrightarrow> queued w x q" for x k q
    by (simp_all add: member_of_def queued_def eq)
  ultimately show ?thesis
    using ok g live unfolding w'_def [symmetric] lobby_ok_def by (simp add: eq)
qed

text \<open>The end of a connection.\<close>

lemma lobby_forget:
  assumes ok: "lobby_ok s w"
    and idle: "GameID (heap w h) = 0" "QueuedMatchID (heap w h) = 0"
    and eq: "activePersonas w' = (if map_of (activePersonas w) (PersonaID (heap w h)) = Some h
       then AList.delete (PersonaID (heap w h)) (activePersonas w) else activePersonas w)"
      "users w' = users w" "games w' = games w" "matchQueue w' = matchQueue w"
      "nextGameID w' = nextGameID w" "nextMatchID w' = nextMatchID w" "heap w' = heap w"
  shows "lobby_ok s w'"
proof -
  have live: "live w' x" if "live w x" "x \<noteq> h" for x
    using that by (auto simp: live_def eq delete_conv')
  have "member_of w' x k \<longleftrightarrow> member_of w x k" "queued w' x q \<longleftrightarrow> queued w x q" for x k q
    by (simp_all add: member_of_def queued_def eq)
  moreover have "game_in s w' k g \<longleftrightarrow> game_in s w k g" for k g by (simp add: game_in_def eq)
  moreover have sub: "map_of (activePersonas w') q = Some k \<Longrightarrow> map_of (activePersonas w) q = Some k" for q k
    by (auto simp: eq delete_conv' split: if_splits)
  have "auth_ok w'"
    using lobby_auth [OF ok] sub unfolding auth_ok_def eq(2,7) by blast
  moreover have "live w' x" if "GameID (heap w' x) \<noteq> 0 \<or> QueuedMatchID (heap w' x) \<noteq> 0" for x
  proof (rule live)
    show "x \<noteq> h" using idle that by (auto simp: eq)
    show "live w x" by (rule lobby_live [OF ok]) (use that in \<open>simp add: eq\<close>)
  qed
  ultimately show ?thesis using ok unfolding lobby_ok_def by (simp add: eq)
qed

end
