(* ===== verification/Lobby_Ops.thy ===== *)
theory Lobby_Ops
  imports Lobby
begin

text \<open>
  Every critical section of the server keeps the lobby invariant: settings, attributes and mesh,
  cancelling and removing, creating a game, and matchmaking.
\<close>

section \<open>Fields and games that do not matter\<close>

lemma same_lobby_refl [simp]: "same_lobby w w"
  by (simp add: same_lobby_def)

lemma same_lobby_trans: "same_lobby u v \<Longrightarrow> same_lobby v w \<Longrightarrow> same_lobby u w"
  by (simp add: same_lobby_def)

lemma same_lobby_upd:
  "PersonaID (f (heap w h)) = PersonaID (heap w h) \<Longrightarrow> GameID (f (heap w h)) = GameID (heap w h) \<Longrightarrow>
   QueuedMatchID (f (heap w h)) = QueuedMatchID (heap w h) \<Longrightarrow> same_lobby w (upd h f w)"
  by (simp add: same_lobby_def)

definition same_game :: "Game \<Rightarrow> Game \<Rightarrow> bool" where
  "same_game g g' \<longleftrightarrow> ID g' = ID g \<and> Host g' = Host g \<and> Members g' = Members g"

lemma replicated_keeps:
  "game_ok H g \<longrightarrow> game_ok H (snd (replicatedGamePlayer H now g p))"
  "same_game g (snd (replicatedGamePlayer H now g p))"
  by (simp_all add: replicatedGamePlayer_def Let_def same_game_def)

lemma replicate_keeps:
  "(game_ok H g \<longrightarrow> game_ok H (snd (replicate_players H now ms g))) \<and>
   same_game g (snd (replicate_players H now ms g))"
proof (induction ms arbitrary: g)
  case Nil
  then show ?case by (simp add: same_game_def)
next
  case (Cons m ms)
  obtain p g1 where r: "replicatedGamePlayer H now g m = (p, g1)" by fastforce
  obtain ps g2 where rs: "replicate_players H now ms g1 = (ps, g2)" by fastforce
  have "game_ok H g \<longrightarrow> game_ok H g1" "same_game g g1"
    using replicated_keeps [where H = H and g = g and now = now and p = m] by (simp_all add: r)
  moreover have "game_ok H g1 \<longrightarrow> game_ok H g2" "same_game g1 g2" using Cons [of g1] by (simp_all add: rs)
  ultimately show ?case by (simp add: r rs same_game_def)
qed

lemma gameSetup_keeps:
  "game_ok H g \<longrightarrow> game_ok H (snd (gameSetup H now g))" "same_game g (snd (gameSetup H now g))"
proof -
  let ?r = "ensureMembershipState H now g"
  have "snd (gameSetup H now g) = snd (replicate_players H now (Members ?r) ?r)"
    by (simp add: gameSetup_def Let_def split_beta)
  then show "game_ok H g \<longrightarrow> game_ok H (snd (gameSetup H now g))" "same_game g (snd (gameSetup H now g))"
    using replicate_keeps [where H = H and g = ?r and now = now and ms = "Members ?r"] by (simp_all add: same_game_def)
qed

lemma addMember_Members:
  "same_game g (snd (addMember H now s g)) \<and> \<not> snd (fst (addMember H now s g)) \<or>
   snd (fst (addMember H now s g)) \<and> ID (snd (addMember H now s g)) = ID g \<and>
   Host (snd (addMember H now s g)) = Host g \<and> Members (snd (addMember H now s g)) = Members g @ [s] \<and>
   (\<forall>m \<in> set (Members g). m \<noteq> s \<and> PersonaID (H m) \<noteq> PersonaID (H s))"
proof (cases "\<exists>m \<in> set (Members g). m = s \<or> PersonaID (H m) = PersonaID (H s)")
  case True
  then obtain slot where "addMember H now s g = ((slot, False), ensureMembershipState H now g)"
    using addMember_known by blast
  then show ?thesis by (simp add: same_game_def)
next
  case False
  then have new: "\<forall>m \<in> set (Members g). m \<noteq> s \<and> PersonaID (H m) \<noteq> PersonaID (H s)" by blast
  then have "List.find (\<lambda>member. member = s \<or> PersonaID (H member) = PersonaID (H s)) (Members g) = None"
    by (auto simp: find_None_iff)
  with new show ?thesis by (simp add: addMember_def Let_def same_game_def)
qed

lemma newGame_roster:
  "Members (newGame H now i h [h] a c t st) = [h] \<and> ID (newGame H now i h [h] a c t st) = i \<and>
   Host (newGame H now i h [h] a c t st) = h"
  by (simp add: newGame_def addMember_def ensureMembershipState_def Let_def)

lemma newGame_pair:
  assumes "2 \<le> sint c" and "h \<noteq> k"
  shows "Members (newGame H now i h [h, k] a c t st) = (if PersonaID (H k) = PersonaID (H h) then [h] else [h, k]) \<and>
    ID (newGame H now i h [h, k] a c t st) = i \<and> Host (newGame H now i h [h, k] a c t st) = h"
proof -
  let ?g = "newGame H now i h [h] a c t st"
  have g: "newGame H now i h [h, k] a c t st = snd (addMember H now k ?g)" by (simp add: newGame_def)
  have c: "Capacity ?g = c" by (simp add: newGame_def addMember_def ensureMembershipState_def Let_def)
  show ?thesis
  proof (cases "PersonaID (H k) = PersonaID (H h)")
    case True
    obtain slot where "addMember H now k ?g = ((slot, False), ensureMembershipState H now ?g)"
      using addMember_known [of h ?g k H now] True newGame_roster [of H now i h a c t st] by auto
    with True show ?thesis unfolding g using newGame_roster [of H now i h a c t st] by simp
  next
    case False
    then have "\<forall>m \<in> set (Members ?g). m \<noteq> k \<and> PersonaID (H m) \<noteq> PersonaID (H k)"
      using assms newGame_roster [of H now i h a c t st] by auto
    then obtain n where "addMember H now k ?g = ((of_nat n, True), joined H now k (of_nat n) ?g)"
      using addMember_new [OF newGame_ok [of H now i h "[h]" a c t st], of k now]
        assms c newGame_roster [of H now i h a c t st] by auto
    with False show ?thesis unfolding g using newGame_roster [of H now i h a c t st] by simp
  qed
qed

lemma fold_release:
  "heap (fold release_member ms w) h =
     (if h \<in> set ms then (heap w h)\<lparr>GameID := 0, PendingMatchmakingGame := 0, QueuedMatchID := 0\<rparr> else heap w h)"
  "activePersonas (fold release_member ms w) = activePersonas w" "users (fold release_member ms w) = users w"
  "games (fold release_member ms w) = games w" "matchQueue (fold release_member ms w) = matchQueue w"
  "nextGameID (fold release_member ms w) = nextGameID w" "nextMatchID (fold release_member ms w) = nextMatchID w"
  by (induction ms arbitrary: w) (simp_all add: release_member_def)

lemma fold_start:
  "heap (fold (start_member k) ms w) h =
     (if h \<in> set ms then (heap w h)\<lparr>GameID := k, PendingMatchmakingGame := k, QueuedMatchID := 0\<rparr> else heap w h)"
  "activePersonas (fold (start_member k) ms w) = activePersonas w" "users (fold (start_member k) ms w) = users w"
  "games (fold (start_member k) ms w) = games w" "matchQueue (fold (start_member k) ms w) = matchQueue w"
  "nextGameID (fold (start_member k) ms w) = nextGameID w" "nextMatchID (fold (start_member k) ms w) = nextMatchID w"
  by (induction ms arbitrary: w) (simp_all add: start_member_def)

section \<open>Settings, attributes and the mesh\<close>

lemma lobby_put_same:
  assumes "lobby_ok s w" and "map_of (games w) k = Some g" and "same_game g g'"
    and "game_ok (heap w) g \<longrightarrow> game_ok (heap w) g'"
  shows "lobby_ok s (put_game g' k w)"
proof (rule lobby_put [OF assms(1,2)])
  show "s \<longrightarrow> game_ok (heap w) g'"
    using lobby_game [OF assms(1,2)] assms(4) by (simp add: game_in_def)
qed (use assms(3) in \<open>simp_all add: same_game_def\<close>)

lemma lobby_set_game:
  assumes "lobby_ok s w" and "\<And>g. same_game g (f g) \<and> Slots (f g) = Slots g"
  shows "lobby_ok s (set_game k f w)"
proof (cases "map_of (games w) k")
  case None
  then show ?thesis by (simp add: set_game_def assms(1))
next
  case (Some g)
  have "game_ok (heap w) g \<longrightarrow> game_ok (heap w) (f g)"
    using assms(2) [of g] by (auto intro: game_ok_cong simp: same_game_def)
  with lobby_put_same [OF assms(1) Some, of "f g"] assms(2) Some show ?thesis by (simp add: set_game_def)
qed

lemma lobby_attrs:
  assumes ok: "lobby_ok s w"
  shows "lobby_ok s (snd (setPlayerAttrs_locked now h k p ats w))"
proof (cases "map_of (games w) k")
  case None
  then show ?thesis by (simp add: setPlayerAttrs_locked_def ok)
next
  case (Some g)
  have "lobby_ok s (put_game ((ensureMembershipState (heap w) now g)\<lparr>PlayerAttrs := x\<rparr>) k w)" for x
    by (rule lobby_put_same [OF ok Some])
      (auto simp: same_game_def intro: game_ok_cong [OF game_ok_ensure])
  then show ?thesis
    by (auto simp: setPlayerAttrs_locked_def Some ok Let_def split: option.splits)
qed

lemma mesh_loop_keeps:
  "same_game g (snd (mesh_loop H h ts c g)) \<and> Slots (snd (mesh_loop H h ts c g)) = Slots g"
  by (induction H h ts c g rule: mesh_loop.induct)
    (auto simp: same_game_def Let_def split: tdf.splits option.splits)

lemma complete_loop_same:
  "same_lobby w (snd (complete_loop g ms w)) \<and> nextMatchID (snd (complete_loop g ms w)) = nextMatchID w"
proof (induction ms arbitrary: w)
  case (Cons m ms)
  let ?u = "upd m (\<lambda>s. s\<lparr>PendingMatchmakingGame := 0\<rparr>) w"
  have "same_lobby w ?u" by (rule same_lobby_upd) simp_all
  with Cons [of ?u] Cons [of w] show ?case
    by (auto simp: Let_def split_beta intro: same_lobby_trans)
qed simp

lemma lobby_mesh:
  assumes ok: "lobby_ok s w"
  shows "lobby_ok s (snd (updateMesh_locked now h k ts w))"
proof (cases "\<exists>g. map_of (games w) k = Some g \<and> sessionForPlayerID (heap w) g (PersonaID (heap w h)) = Some h")
  case False
  then show ?thesis by (auto simp: updateMesh_locked_def ok split: option.splits)
next
  case True
  then obtain g where g: "map_of (games w) k = Some g"
    "sessionForPlayerID (heap w) g (PersonaID (heap w h)) = Some h" by blast
  define g1 where "g1 = ensureMembershipState (heap w) now g"
  define g2 where "g2 = (if has (Mesh g1) (PersonaID (heap w h)) then g1
    else g1\<lparr>Mesh := AList.update (PersonaID (heap w h)) [] (Mesh g1)\<rparr>)"
  obtain c g3 where ml: "mesh_loop (heap w) h ts False g2 = (c, g3)" by fastforce
  have g2: "same_game g g2" "game_ok (heap w) g \<longrightarrow> game_ok (heap w) g2"
    by (auto simp: g2_def g1_def same_game_def intro: game_ok_cong [OF game_ok_ensure])
  moreover have "same_game g2 g3" "Slots g3 = Slots g2" using mesh_loop_keeps [of g2 "heap w" h ts False] by (simp_all add: ml)
  ultimately have g3: "same_game g g3" "game_ok (heap w) g \<longrightarrow> game_ok (heap w) g3"
    by (auto simp: same_game_def intro: game_ok_cong)
  then have g4: "same_game g (refreshMeshReadiness (heap w) g3)"
    "game_ok (heap w) g \<longrightarrow> game_ok (heap w) (refreshMeshReadiness (heap w) g3)"
    by (auto simp: same_game_def intro: game_ok_cong)
  let ?p = "put_game (refreshMeshReadiness (heap w) g3) k w"
  have p: "lobby_ok s ?p" "lobby_ok s (put_game g3 k w)"
    using lobby_put_same [OF ok g(1)] g3 g4 by blast+
  have "lobby_ok s (snd (complete_loop x ms ?p))" for x ms
    using lobby_ok_same [OF p(1)] complete_loop_same [of ?p x ms] lobby_next(2) [OF p(1)] by simp
  with p(2) show ?thesis
    by (simp add: updateMesh_locked_def g Let_def g1_def [symmetric] g2_def [symmetric] ml split_beta)
qed

section \<open>Cancelling and removing\<close>

lemma split_distinct:
  assumes "distinct (map f (xs @ r # ys))"
  shows "filter (\<lambda>x. f x \<noteq> f r) (xs @ r # ys) = xs @ ys"
proof -
  have "f r \<notin> f ` set (xs @ ys)" using assms by auto
  then have "\<forall>x \<in> set (xs @ ys). f x \<noteq> f r" by (metis imageI)
  then have "filter (\<lambda>x. f x \<noteq> f r) (xs @ ys) = xs @ ys" by (intro filter_True)
  then show ?thesis by simp
qed

lemma lobby_cancel:
  assumes ok: "lobby_ok s w"
  shows "lobby_ok s (snd (cancelQueuedMatch h q w))"
proof (cases "List.extract (\<lambda>r. session r = h \<and> msid r = q) (matchQueue w)")
  case None
  then show ?thesis by (simp add: cancelQueuedMatch_def ok)
next
  case (Some x)
  obtain xs r ys where x: "x = (xs, r, ys)" by (cases x)
  with Some have q: "matchQueue w = xs @ r # ys" "session r = h" using extract_SomeE by fastforce+
  then have "filter (\<lambda>x. session x \<noteq> h) (matchQueue w) = xs @ ys"
    using split_distinct [of session xs r ys] lobby_distinct [OF ok] by simp
  then have "upd h (\<lambda>s. s\<lparr>QueuedMatchID := 0\<rparr>) (w\<lparr>matchQueue := xs @ ys\<rparr>) = removeQueuedSessionLocked h w"
    by (simp add: removeQueuedSessionLocked_def)
  with Some x show ?thesis by (simp add: cancelQueuedMatch_def ok lobby_dequeue)
qed

lemma dequeue_simps [simp]:
  "heap (removeQueuedSessionLocked h w) = (heap w)(h := (heap w h)\<lparr>QueuedMatchID := 0\<rparr>)"
  "games (removeQueuedSessionLocked h w) = games w"
  "matchQueue (removeQueuedSessionLocked h w) = filter (\<lambda>r. session r \<noteq> h) (matchQueue w)"
  "activePersonas (removeQueuedSessionLocked h w) = activePersonas w"
  "users (removeQueuedSessionLocked h w) = users w"
  "nextGameID (removeQueuedSessionLocked h w) = nextGameID w"
  "nextMatchID (removeQueuedSessionLocked h w) = nextMatchID w"
  by (simp_all add: removeQueuedSessionLocked_def)

lemma removeMember_eq: "removeMember H h g = (h \<in> set (Members g), left H h g)"
  by (simp add: left_def removeMember_def Let_def)

text \<open>A member that is not the host leaves.\<close>

lemma lobby_part:
  assumes ok: "lobby_ok s w" and k: "map_of (games w) k = Some g" and h: "h \<in> set (Members g)"
    and host: "Host g \<noteq> h" and ch: "game_change k (Some g') w w'" and nx: "nextGameID w' = nextGameID w"
    and g': "g' = refreshMeshReadiness H (left (heap w) h g)"
  shows "lobby_ok s w'"
proof (rule lobby_game_change [OF ok ch])
  have g: "game_in s w k g" by (rule lobby_game [OF ok k])
  have r: "ID g' = ID g" "Host g' = Host g" "Members g' = remove1 h (Members g)" by (simp_all add: g')
  have same: "PersonaID (heap w' x) = PersonaID (heap w x)" for x using ch by (simp add: game_change_def)
  have "s \<longrightarrow> game_ok (heap w') g'"
  proof
    assume s
    then have "game_ok (heap w) (left (heap w) h g)" using g by (simp add: game_in_def game_ok_left)
    then show "game_ok (heap w') g'" by (rule game_ok_cong) (simp_all add: g' same)
  qed
  moreover have "distinct (map (\<lambda>m. PersonaID (heap w' m)) (remove1 h (Members g)))"
  proof -
    have "distinct (Members g)" "inj_on (\<lambda>m. PersonaID (heap w m)) (set (Members g))"
      using g by (auto simp: game_in_def distinct_map)
    moreover have "set (remove1 h (Members g)) \<subseteq> set (Members g)" by (rule set_remove1_subset)
    ultimately show ?thesis by (auto simp: distinct_map same intro: inj_on_subset)
  qed
  ultimately show "game_in s w' k x" if "Some g' = Some x" for x
    using g that host r nx by (auto simp: game_in_def)
  show "GameID (heap w x) \<in> {0, k} \<and> QueuedMatchID (heap w x) = 0 \<and> live w x" if "x \<in> roster (Some g')" for x
    using lobby_idle_in [OF ok k] that r(3) by (auto simp: roster_def dest: notin_set_remove1)
  show "k \<noteq> 0" by (rule lobby_roster [OF ok k])
qed (simp add: nx)

lemma left_roster:
  "distinct (Members g) \<Longrightarrow> roster (Some (refreshMeshReadiness H' (left H h g))) = set (Members g) - {h}"
  by (simp add: roster_def)

text \<open>The host leaves and the game goes.\<close>

lemma lobby_drop:
  assumes ok: "lobby_ok s w" and k: "map_of (games w) k = Some g" and ch: "game_change k None w w'"
    and nx: "nextGameID w' = nextGameID w"
  shows "lobby_ok s w'"
  by (rule lobby_game_change [OF ok ch]) (use lobby_roster(1) [OF ok k] nx in \<open>simp_all add: roster_def\<close>)

lemma lobby_removePlayer:
  assumes ok: "lobby_ok s w"
  shows "lobby_ok s (snd (removePlayer_locked h k p w))"
proof (cases "\<exists>g target. map_of (games w) k = Some g \<and> sessionForPlayerID (heap w) g p = Some target \<and>
    (\<exists>c. sessionForPlayerID (heap w) g (PersonaID (heap w h)) = Some c) \<and> (target = h \<or> h = Host g)")
  case False
  then show ?thesis by (auto simp: removePlayer_locked_def ok split: option.splits)
next
  case True
  then obtain g target c where g: "map_of (games w) k = Some g" and t: "sessionForPlayerID (heap w) g p = Some target"
    and c: "sessionForPlayerID (heap w) g (PersonaID (heap w h)) = Some c" "target = h \<or> h = Host g" by blast
  have gi: "game_in s w k g" by (rule lobby_game [OF ok g])
  have d: "distinct (Members g)" using gi by (auto simp: game_in_def distinct_map)
  have tm: "target \<in> set (Members g)"
    using t gi by (auto simp: game_in_def sessionForPlayerID_iff)
  define v where "v = removeQueuedSessionLocked target w"
  define w1 where "w1 = upd target (\<lambda>s. s\<lparr>GameID := 0, PendingMatchmakingGame := 0\<rparr>) v"
  have v: "lobby_ok s v" "map_of (games v) k = Some g" by (simp_all add: v_def g lobby_dequeue ok)
  have pv: "PersonaID (heap v x) = PersonaID (heap w x)" for x by (simp add: v_def)
  have lv: "left (heap w) target g = left (heap v) target g" by (simp add: left_def removeMember_def pv)
  note ros = lobby_roster [OF v]
  have tk: "GameID (heap v target) = k" using ros(2) tm by blast
  show ?thesis
  proof (cases "target = Host g")
    case True
    let ?w' = "fold release_member (Members (left (heap w) target g)) (w1\<lparr>games := AList.delete k (games w1)\<rparr>)"
    have "game_change k None v ?w'"
      unfolding game_change_def using tm d ros(2) lobby_idle_in [OF v]
      by (auto simp: fold_release w1_def delete_conv' roster_def)
    then have "lobby_ok s ?w'"
      by (rule lobby_drop [OF v]) (simp add: fold_release w1_def)
    moreover have "snd (removePlayer_locked h k p w) = ?w'"
      using c(2) True unfolding w1_def v_def
      by (auto simp add: removePlayer_locked_def g t c(1) Let_def removeMember_eq)
    ultimately show ?thesis by simp
  next
    case False
    let ?g' = "refreshMeshReadiness (heap w1) (left (heap v) target g)"
    have ch: "game_change k (Some ?g') v (put_game ?g' k w1)"
      unfolding game_change_def left_roster [OF d] by (simp add: w1_def ros(2) tk)
    have "lobby_ok s (put_game ?g' k w1)"
      by (rule lobby_part [OF v tm _ ch]) (use False in \<open>simp_all add: w1_def\<close>)
    moreover have "snd (removePlayer_locked h k p w) = put_game ?g' k w1"
      using c False lv [unfolded v_def dequeue_simps]
      by (cases "target = h") (auto simp: removePlayer_locked_def g t Let_def removeMember_eq w1_def v_def)
    ultimately show ?thesis by simp
  qed
qed

lemma find_hit: "List.find P xs = Some x \<Longrightarrow> x \<in> set xs \<and> P x"
  by (auto simp: find_Some_iff)

lemma member_game_None:
  assumes ok: "lobby_ok s w" and "GameID (heap w h) = 0" and "games w' = games w"
  shows "member_game h w' = None"
proof (rule ccontr)
  assume "member_game h w' \<noteq> None"
  then obtain k g where f: "List.find (\<lambda>(_, g). sessionForPlayerID (heap w') g (PersonaID (heap w' h)) = Some h)
      (AList.clearjunk (games w)) = Some (k, g)"
    by (auto simp: member_game_def assms(3))
  note find_hit [OF f]
  then have "(k, g) \<in> set (AList.clearjunk (games w))"
    and h: "sessionForPlayerID (heap w') g (PersonaID (heap w' h)) = Some h" by simp_all
  then have k: "map_of (games w) k = Some g" 
    using map_of_is_SomeI [OF distinct_clearjunk] by (metis map_of_clearjunk)
  have "h \<in> set (Members g)" using h find_hit by (fastforce simp: sessionForPlayerID_def)
  with lobby_roster [OF ok k] assms(2) show False by simp
qed

text \<open>The first half of \<open>removeSession\<close>: the session is unregistered, dequeued and idle.\<close>

definition unregister :: "handle \<Rightarrow> Server \<Rightarrow> Server" where
  "unregister h w = w\<lparr>sessions := AList.delete (SessionID (heap w h)) (sessions w),
     activePersonas := (if map_of (activePersonas w) (PersonaID (heap w h)) = Some h
       then AList.delete (PersonaID (heap w h)) (activePersonas w) else activePersonas w)\<rparr>"

definition idle_again :: "handle \<Rightarrow> Server \<Rightarrow> Server" where
  "idle_again h w = upd h (\<lambda>s. s\<lparr>GameID := 0, PendingMatchmakingGame := 0, QueuedMatchID := 0\<rparr>) (removeQueuedSessionLocked h w)"

lemma unregister_simps [simp]:
  "heap (unregister h w) = heap w" "games (unregister h w) = games w" "matchQueue (unregister h w) = matchQueue w"
  "users (unregister h w) = users w" "nextGameID (unregister h w) = nextGameID w" "nextMatchID (unregister h w) = nextMatchID w"
  by (simp_all add: unregister_def)

lemma idle_again_simps [simp]:
  "games (idle_again h w) = games w" "users (idle_again h w) = users w" "activePersonas (idle_again h w) = activePersonas w"
  "nextGameID (idle_again h w) = nextGameID w" "nextMatchID (idle_again h w) = nextMatchID w"
  "PersonaID (heap (idle_again h w) x) = PersonaID (heap w x)" "heap (idle_again h (unregister k w)) = heap (idle_again h w)"
  "matchQueue (idle_again h (unregister k w)) = matchQueue (idle_again h w)"
  "GameID (heap (idle_again h w) x) = (if x = h then 0 else GameID (heap w x))"
  "QueuedMatchID (heap (idle_again h w) x) = (if x = h then 0 else QueuedMatchID (heap w x))"
  "matchQueue (idle_again h w) = filter (\<lambda>r. session r \<noteq> h) (matchQueue w)"
  by (simp_all add: idle_again_def removeQueuedSessionLocked_def)

text \<open>What the other half does to \<open>b\<close> keeps the invariant when it does without the registration.\<close>

lemma lobby_unregistered:
  assumes "lobby_ok s b" and "GameID (heap b h) = 0" and "QueuedMatchID (heap b h) = 0"
    and "heap w' = heap b" "users w' = users b" "games w' = games b" "matchQueue w' = matchQueue b"
    and "nextGameID w' = nextGameID b" "nextMatchID w' = nextMatchID b" "activePersonas w' = activePersonas (unregister h w)"
    and "activePersonas b = activePersonas w" "PersonaID (heap b h) = PersonaID (heap w h)"
  shows "lobby_ok s w'"
  by (rule lobby_forget [OF assms(1-3)]) (simp_all add: assms(4-) unregister_def)

lemma removeSession_shape:
  "snd (removeSession_locked h w) =
    (let v = idle_again h (unregister h w); k = GameID (heap w h) in
     case (case map_of (games w) k of Some g \<Rightarrow> Some g | None \<Rightarrow> member_game h v) of
       None \<Rightarrow> v
     | Some g \<Rightarrow>
         let g' = snd (removeMember (heap v) h g) in
         if Host g' = h then fold release_member (Members g') (v\<lparr>games := AList.delete (ID g') (games v)\<rparr>)
         else put_game (refreshMeshReadiness (heap v) g') (ID (refreshMeshReadiness (heap v) g')) v)"
  unfolding removeSession_locked_def unregister_def idle_again_def Let_def
  by (simp add: removeQueuedSessionLocked_def split: option.split)

lemma left_same: "(\<And>x. PersonaID (H x) = PersonaID (H' x)) \<Longrightarrow> left H h g = left H' h g"
  by (simp add: left_def removeMember_def)

lemma left_idle [simp]:
  "left (heap (idle_again h w)) k g = left (heap w) k g" "left (heap (removeQueuedSessionLocked h w)) k g = left (heap w) k g"
  by (rule left_same, simp)+


lemma leave_idle:
  assumes ok: "lobby_ok s w" and none: "map_of (games w) (GameID (heap w h)) = None"
  shows "lobby_ok s (snd (removeSession_locked h w))"
proof -
  have k: "GameID (heap w h) = 0" using lobby_member [OF ok, of h "GameID (heap w h)"] none by (auto simp: member_of_def)
  have "member_game h (idle_again h (unregister h w)) = None"
    by (rule member_game_None [OF ok]) (simp_all add: k)
  then have r: "snd (removeSession_locked h w) = idle_again h (unregister h w)"
    using none by (simp add: removeSession_shape)
  have "same_lobby (removeQueuedSessionLocked h w) (idle_again h w)"
    unfolding idle_again_def by (rule same_lobby_upd) (simp_all add: k)
  then have "lobby_ok s (idle_again h w)"
    using lobby_ok_same [OF lobby_dequeue [OF ok]] lobby_next(2) [OF lobby_dequeue [OF ok]] by simp
  then show ?thesis unfolding r by (rule lobby_unregistered) simp_all
qed

lemma leave_host:
  assumes ok: "lobby_ok s w" and g: "map_of (games w) (GameID (heap w h)) = Some g" and host: "Host g = h"
  shows "lobby_ok s (snd (removeSession_locked h w))"
proof -
  let ?k = "GameID (heap w h)"
  let ?v = "removeQueuedSessionLocked h w"
  let ?gone = "\<lambda>u. fold release_member (Members (left (heap ?v) h g)) (u\<lparr>games := AList.delete ?k (games u)\<rparr>)"
  have gv: "map_of (games ?v) ?k = Some g" by (simp add: g)
  have gi: "game_in s w ?k g" by (rule lobby_game [OF ok g])
  then have d: "distinct (Members g)" "ID g = ?k" by (auto simp: game_in_def distinct_map)
  have h: "h \<in> set (Members g)" using lobby_roster(2) [OF ok g] by simp
  have r: "snd (removeSession_locked h w) = ?gone (idle_again h (unregister h w))"
    using host g d by (simp add: removeSession_shape removeMember_eq)
  have "game_change ?k None ?v (?gone (idle_again h w))"
    unfolding game_change_def using d lobby_idle_in [OF lobby_dequeue [OF ok] gv h] lobby_idle_in [OF lobby_dequeue [OF ok] gv]
    by (auto simp: fold_release delete_conv' roster_def lobby_roster(2) [OF lobby_dequeue [OF ok] gv] idle_again_def)
  then have "lobby_ok s (?gone (idle_again h w))"
    by (rule lobby_drop [OF lobby_dequeue [OF ok] gv]) (simp add: fold_release)
  then show ?thesis unfolding r by (rule lobby_unregistered) (simp_all add: fun_eq_iff fold_release)
qed

lemma leave_guest:
  assumes ok: "lobby_ok s w" and g: "map_of (games w) k = Some g" and k: "GameID (heap w h) = k" and guest: "Host g \<noteq> h"
  shows "lobby_ok s (snd (removeSession_locked h w))"
proof -
  let ?v = "removeQueuedSessionLocked h w"
  let ?g' = "refreshMeshReadiness (heap (idle_again h w)) (left (heap ?v) h g)"
  have gv: "map_of (games ?v) k = Some g" by (simp add: g)
  have gi: "game_in s w k g" by (rule lobby_game [OF ok g])
  then have d: "distinct (Members g)" "ID g = k" by (auto simp: game_in_def distinct_map)
  have h: "h \<in> set (Members g)" using lobby_roster(2) [OF ok g] k by simp
  have r: "snd (removeSession_locked h w) = put_game ?g' k (idle_again h (unregister h w))"
    unfolding left_idle(2) using guest g k d by (simp add: removeSession_shape removeMember_eq)
  have ros: "x \<in> set (Members g) - {h} \<longleftrightarrow> GameID (heap w x) = k \<and> x \<noteq> h" for x
    using lobby_roster(2) [OF ok g] by blast
  have ch: "game_change k (Some ?g') ?v (put_game ?g' k (idle_again h w))"
    unfolding game_change_def left_roster [OF d(1)] ros using k by simp
  have "lobby_ok s (put_game ?g' k (idle_again h w))"
    by (rule lobby_part [OF lobby_dequeue [OF ok] gv h _ ch]) (use guest in simp_all)
  then show ?thesis unfolding r by (rule lobby_unregistered) (simp_all add: put_game_def)
qed

lemma lobby_removeSession: "lobby_ok s w \<Longrightarrow> lobby_ok s (snd (removeSession_locked h w))"
  using leave_idle leave_host leave_guest by (cases "map_of (games w) (GameID (heap w h))") blast+

end
