(* ===== verification/Lobby_Match.thy ===== *)
theory Lobby_Match
  imports Lobby_Ops
begin

text \<open>
  Creating a game and matchmaking keep the lobby invariant, for a live session and as long as the
  counters have numbers left.
\<close>

section \<open>Creating a game\<close>

text \<open>A session that is neither queued nor in a game.\<close>

definition idle :: "Server \<Rightarrow> handle \<Rightarrow> bool" where
  "idle w h \<longleftrightarrow> live w h \<and> GameID (heap w h) = 0 \<and> QueuedMatchID (heap w h) = 0"

text \<open>A new game of idle sessions.\<close>

lemma lobby_found:
  assumes ok: "lobby_ok s w" and left: "sint (nextGameID w) < 2 ^ 63 - 1" and ch: "game_change (nextGameID w) (Some g) w w'"
    and nx: "nextGameID w' = nextGameID w + 1" and g: "ID g = nextGameID w" "Host g \<in> set (Members g)"
      "game_ok (heap w) g"
    and idle: "\<And>m. m \<in> set (Members g) \<Longrightarrow> idle w m"
  shows "lobby_ok s w'"
proof -
  have pos: "0 < sint (nextGameID w)" by (rule lobby_next [OF ok])
  have inc: "sint (nextGameID w + 1) = sint (nextGameID w) + 1"
    using left pos by (subst sint_plus_exact) auto
  have p: "PersonaID (heap w' m) = PersonaID (heap w m)" for m using ch by (simp add: game_change_def)
  have "game_ok (heap w') g" by (rule game_ok_cong [OF g(3)]) (simp_all add: p)
  then have "game_in s w' (nextGameID w) g"
    using g pos inc nx unfolding game_in_def game_ok_def by simp
  moreover have "nextGameID w \<noteq> 0" using pos by auto
  ultimately show ?thesis
    using lobby_game_change [OF ok ch] inc nx idle by (auto simp: roster_def idle_def)
qed

lemma lobby_idle:
  assumes ok: "lobby_ok s w" and "live w h" and "GameID (heap w h) = 0"
  shows "lobby_ok s (removeQueuedSessionLocked h (upd h (\<lambda>s. s\<lparr>GameID := 0\<rparr>) w)) \<and>
    idle (removeQueuedSessionLocked h (upd h (\<lambda>s. s\<lparr>GameID := 0\<rparr>) w)) h"
proof
  let ?u = "upd h (\<lambda>s. s\<lparr>GameID := 0\<rparr>) w"
  have "same_lobby w ?u" by (rule same_lobby_upd) (simp_all add: assms(3))
  then have "lobby_ok s ?u" using lobby_ok_same [OF ok] lobby_next(2) [OF ok] by simp
  then show "lobby_ok s (removeQueuedSessionLocked h ?u)" by (rule lobby_dequeue)
  show "idle (removeQueuedSessionLocked h ?u) h" using assms(2) by (simp add: idle_def live_def)
qed

lemma fresh_game:
  assumes ok: "lobby_ok s w"
  shows "GameID (heap w h) \<noteq> nextGameID w"
proof
  assume h: "GameID (heap w h) = nextGameID w"
  then have "member_of w h (nextGameID w)" using lobby_next(1) [OF ok] by (auto simp: lobby_member [OF ok])
  then obtain g where "map_of (games w) (nextGameID w) = Some g" by (auto simp: member_of_def)
  from lobby_game [OF ok this] show False by (simp add: game_in_def)
qed

lemma lobby_create:
  assumes ok: "lobby_ok s w" and live: "live w h" and left: "numbers_left w"
    and r: "resetDedicated_locked now h req w = Inr (out, w')"
  shows "lobby_ok s w'"
proof (cases "GameID (heap w h) = 0")
  case False
  then obtain g where "map_of (games w) (GameID (heap w h)) = Some g"
    "sessionForPlayerID (heap w) g (PersonaID (heap w h)) = Some h"
    using active_iff [OF ok] by blast
  with r have "w' = w" by (simp add: resetDedicated_locked_def Let_def)
  then show ?thesis by (simp add: ok)
next
  case True
  define w1 where "w1 = removeQueuedSessionLocked h (upd h (\<lambda>s. s\<lparr>GameID := 0\<rparr>) w)"
  define gid where "gid = nextGameID w1"
  define g where "g = newGame (heap w1) now gid h [h] (map_field (frame_fields req) ''ATTR'')
    (getMatchmakingCapacity req) (getMatchmakingTopology req) 1"
  define w2 where "w2 = upd h (\<lambda>s. s\<lparr>GameID := gid\<rparr>)
    (w1\<lparr>nextGameID := gid + 1, games := AList.update gid g (games w1)\<rparr>)"
  obtain st g' where gs: "gameSetup (heap w2) now g = (st, g')" by fastforce
  have w1: "lobby_ok s w1" "idle w1 h" unfolding w1_def using lobby_idle [OF ok live True] by simp_all
  have "(case map_of (games w) (GameID (heap w h)) of
      Some existing \<Rightarrow> if sessionForPlayerID (heap w) existing (PersonaID (heap w h)) = Some h then Some existing else None
    | None \<Rightarrow> None) = None"
    using active_iff [OF ok, of h] True by (auto split: option.splits)
  then have w': "w' = put_game g' gid w2"
    using r unfolding resetDedicated_locked_def Let_def w1_def [symmetric] gid_def [symmetric] g_def [symmetric]
      w2_def [symmetric] by (auto simp: gs go_bind_Inr_iff)
  have g: "Members g = [h]" "ID g = gid" "Host g = h" "game_ok (heap w1) g"
    unfolding g_def using newGame_roster [of "heap w1"] newGame_ok [of "heap w1"] by simp_all
  then have "game_ok (heap w2) g" by (auto simp: w2_def intro: game_ok_cong)
  then have g'2: "game_ok (heap w2) g'" "same_game g g'"
    using gameSetup_keeps [where H = "heap w2" and g = g and now = now] by (simp_all add: gs)
  then have g': "game_ok (heap w1) g'" by (auto simp: w2_def intro: game_ok_cong)
  show ?thesis
  proof (rule lobby_found [OF w1(1)])
    show "sint (nextGameID w1) < 2 ^ 63 - 1" using left by (simp add: w1_def numbers_left_def)
    show "game_change (nextGameID w1) (Some g') w1 w'"
      using g g'2(2) fresh_game [OF w1(1)] by (simp add: game_change_def roster_def w' w2_def same_game_def gid_def [symmetric] update_conv')
  qed (use w1(2) g g'2(2) g' in \<open>simp_all add: w' w2_def same_game_def gid_def\<close>)
qed

section \<open>Matchmaking\<close>

lemma addMember_game_ok: "game_ok H g \<longrightarrow> game_ok H (snd (addMember H now h g))"
  using addMember_ok by blast

lemma join_loop_run:
  assumes "lobby_ok s w" and "join_loop now r ids w = Inr (res, w')"
  shows "case res of
      None \<Rightarrow> (\<exists>G. w' = w\<lparr>games := G\<rparr> \<and> lobby_ok s w')
    | Some g' \<Rightarrow> (\<exists>G k g. let v = w\<lparr>games := G\<rparr> in w' = put_game g' k v \<and> lobby_ok s v \<and>
        map_of (games v) k = Some g \<and> isCompatibleGame g r = Inr True \<and>
        ID g' = ID g \<and> Host g' = Host g \<and> Members g' = Members g @ [session r] \<and>
        (\<forall>m \<in> set (Members g). m \<noteq> session r \<and> PersonaID (heap w m) \<noteq> PersonaID (heap w (session r))) \<and>
        (s \<longrightarrow> game_ok (heap w) g'))"
  using assms
proof (induction ids arbitrary: w)
  case Nil
  then have "w' = w" "res = None" by simp_all
  then show ?case using Nil.prems(1) by (simp, intro exI [of _ "games w"]) simp
next
  case (Cons k ids)
  show ?case
  proof (cases "map_of (games w) k")
    case None
    with Cons show ?thesis by simp
  next
    case (Some g)
    with Cons.prems(2) obtain c where c: "isCompatibleGame g r = Inr c" by (auto simp: go_bind_Inr_iff)
    show ?thesis
    proof (cases c)
      case False
      with Cons Some c show ?thesis by simp
    next
      case True
      obtain slot added g' where a: "addMember (heap w) now (session r) g = ((slot, added), g')"
        by (metis surj_pair)
      note m = addMember_Members [of g "heap w" now "session r", unfolded a]
      have gk: "game_ok (heap w) g \<longrightarrow> game_ok (heap w) g'" using addMember_game_ok [of "heap w" g now "session r"] a by simp
      then have sg: "s \<longrightarrow> game_ok (heap w) g'"
        using lobby_game [OF Cons.prems(1) Some] by (simp add: game_in_def)
      show ?thesis
      proof (cases added)
        case False
        with m have "same_game g g'" by simp
        then have v: "lobby_ok s (put_game g' k w)" by (rule lobby_put_same [OF Cons.prems(1) Some _ gk])
        have "join_loop now r ids (put_game g' k w) = Inr (res, w')"
          using Cons.prems(2) Some c True a False by simp
        from Cons.IH [OF v this] show ?thesis by (simp add: put_game_def Let_def split: option.splits)
      next
        case t: True
        then have r: "res = Some g'" "w' = put_game g' k (w\<lparr>games := games w\<rparr>)"
          using Cons.prems(2) Some c True a by auto
        have e: "w\<lparr>games := games w\<rparr> = w" by simp
        have m': "ID g' = ID g" "Host g' = Host g" "Members g' = Members g @ [session r]"
          "\<forall>m \<in> set (Members g). m \<noteq> session r \<and> PersonaID (heap w m) \<noteq> PersonaID (heap w (session r))"
          using m t by simp_all
        show ?thesis
          unfolding r(1) option.case Let_def
          by (intro exI [of _ "games w"] exI [of _ k] exI [of _ g], unfold e)
            (use r(2) [unfolded e] Cons.prems(1) Some c True m' sg in simp)
      qed
    qed
  qed
qed

lemma lobby_join:
  assumes ok: "lobby_ok s w" and idle: "idle w (session r)" and k: "map_of (games w) k = Some g"
    and g': "ID g' = ID g" "Host g' = Host g" "Members g' = Members g @ [session r]" "s \<longrightarrow> game_ok (heap w) g'"
    and new: "\<forall>m \<in> set (Members g). m \<noteq> session r \<and> PersonaID (heap w m) \<noteq> PersonaID (heap w (session r))"
    and j: "join_game now r g' (put_game g' k w) = Inr (out, w')"
  shows "lobby_ok s w'"
proof -
  define h where "h = session r"
  define u where "u = upd h (\<lambda>s. s\<lparr>GameID := ID g', PendingMatchmakingGame := ID g', QueuedMatchID := 0\<rparr>) (put_game g' k w)"
  obtain p g1 where g1: "replicatedGamePlayer (heap u) now g' h = (p, g1)" by fastforce
  obtain st g2 where g2: "gameSetup (heap u) now g1 = (st, g2)" by fastforce
  have w': "w' = put_game g2 (ID g2) u"
    using j unfolding join_game_def Let_def h_def [symmetric] u_def [symmetric]
    by (auto simp: g1 g2 go_bind_Inr_iff)
  have gi: "game_in s w k g" by (rule lobby_game [OF ok k])
  have same: "same_game g' g2" and g2ok: "game_ok (heap u) g' \<longrightarrow> game_ok (heap u) g2"
    using replicated_keeps [where H = "heap u" and g = g' and now = now and p = h]
      gameSetup_keeps [where H = "heap u" and g = g1 and now = now]
    by (auto simp: g1 g2 same_game_def)
  have id: "ID g' = k" using gi g' by (simp add: game_in_def)
  have P: "PersonaID (heap u x) = PersonaID (heap w x)" for x by (simp add: u_def)
  have gok: "s \<longrightarrow> game_ok (heap u) g2"
  proof
    assume s
    then have "game_ok (heap u) g'" using g'(4) game_ok_cong [of "heap w" g' g' "heap u"] by (simp add: P)
    then show "game_ok (heap u) g2" using g2ok by simp
  qed
  have "inj_on (\<lambda>m. PersonaID (heap w m)) (set (Members g))" "distinct (Members g)"
    using gi by (auto simp: game_in_def distinct_map)
  then have d: "distinct (map (\<lambda>m. PersonaID (heap u m)) (Members g @ [h]))"
    using new by (auto simp: distinct_map P h_def)
  show ?thesis
  proof (rule lobby_game_change [OF ok, of k "Some g2"])
    show "game_change k (Some g2) w w'"
      using same g' id idle lobby_roster(2) [OF ok k] lobby_roster(1) [OF ok k]
      by (auto simp: game_change_def roster_def w' same_game_def u_def idle_def h_def)
    show "k \<noteq> 0" by (rule lobby_roster [OF ok k])
    show "game_in s w' k x" if "Some g2 = Some x" for x
      using that gi same g' id d gok unfolding game_in_def by (auto simp: w' same_game_def h_def u_def)
    show "GameID (heap w x) \<in> {0, k} \<and> QueuedMatchID (heap w x) = 0 \<and> live w x" if "x \<in> roster (Some g2)" for x
      using that same g' idle lobby_idle_in [OF ok k] by (auto simp: roster_def same_game_def idle_def)
  qed (simp add: w' u_def)
qed


lemma find_match_hit:
  "find_match q r i = Inr (Some j) \<Longrightarrow> i \<le> j \<and> j - i < length q \<and> session (q ! (j - i)) \<noteq> session r \<and>
     isCompatibleMatch (q ! (j - i)) r = Inr True"
proof (induction q arbitrary: i)
  case (Cons x q)
  show ?case
  proof (cases "find_match q r (Suc i) = Inr (Some j)")
    case True
    from Cons.IH [OF this] have "Suc i \<le> j" and *: "j - Suc i < length q \<and> session (q ! (j - Suc i)) \<noteq> session r \<and>
        isCompatibleMatch (q ! (j - Suc i)) r = Inr True" by simp_all
    then have "j - i = Suc (j - Suc i)" by simp
    with * \<open>Suc i \<le> j\<close> show ?thesis by simp
  next
    case False
    with Cons.prems have "j = i \<and> session x \<noteq> session r \<and> isCompatibleMatch x r = Inr True"
      by (auto simp: go_bind_Inr_iff split: if_splits)
    then show ?thesis by simp
  qed
qed simp

lemma lobby_pair:
  assumes ok: "lobby_ok s w" and idle: "idle w (session r)" and left: "sint (nextGameID w) < 2 ^ 63 - 1"
    and f: "find_match (matchQueue w) r 0 = Inr (Some i)" and j: "pair_up now r i w = Inr (out, w')"
  shows "lobby_ok s w'"
proof -
  define h where "h = session r"
  define q where "q = matchQueue w ! i"
  define a where "a = session q"
  define gid where "gid = nextGameID w"
  define g0 where "g0 = newGame (heap w) now gid a [a, h] (attrs q) (cap q) (topology q) 1"
  define w1 where "w1 = w\<lparr>matchQueue := take i (matchQueue w) @ drop (Suc i) (matchQueue w),
    nextGameID := gid + 1, games := AList.update gid g0 (games w)\<rparr>"
  define u where "u = fold (start_member gid) (Members g0) w1"
  obtain st1 g1 where g1: "gameSetup (heap u) now g0 = (st1, g1)" by fastforce
  obtain st2 g2 where g2: "gameSetup (heap u) now g1 = (st2, g2)" by fastforce
  have hit: "i < length (matchQueue w)" "a \<noteq> h" "isCompatibleMatch q r = Inr True"
    using find_match_hit [OF f] by (simp_all add: a_def q_def h_def)
  then have cap: "2 \<le> sint (cap q)" by (simp add: isCompatibleMatch_def split: if_splits)
  have w': "w' = put_game g2 gid u"
    using j unfolding pair_up_def Let_def h_def [symmetric] q_def [symmetric] a_def [symmetric]
      gid_def [symmetric] g0_def [symmetric] w1_def [symmetric] u_def [symmetric]
    by (auto simp: g1 g2 go_bind_Inr_iff)
  define v where "v = removeQueuedSessionLocked a w"
  have v: "lobby_ok s v" by (simp add: v_def lobby_dequeue ok)
  have q_in: "q \<in> set (matchQueue w)" using hit by (simp add: q_def)
  have "queued w a (msid q)" unfolding queued_def a_def using q_in by blast
  then have Qa: "QueuedMatchID (heap w a) \<noteq> 0" by (simp add: lobby_queued [OF ok])
  have idle_v: "idle v a" "idle v h"
    using Qa lobby_one [OF ok, of a] lobby_live [OF ok, of a] idle hit(2)
    by (simp_all add: idle_def v_def live_def h_def)
  have mq: "matchQueue w1 = matchQueue v"
    using split_distinct [of session "take i (matchQueue w)" q "drop (Suc i) (matchQueue w)"]
      lobby_distinct [OF ok] hit(1)
    by (simp add: w1_def v_def a_def q_def id_take_nth_drop [symmetric])
  have roster: "Members g0 = (if PersonaID (heap w h) = PersonaID (heap w a) then [a] else [a, h])"
    "ID g0 = gid" "Host g0 = a"
    unfolding g0_def using newGame_pair [OF cap hit(2), of "heap w"] by simp_all
  have P: "PersonaID (heap u x) = PersonaID (heap w x)" for x by (simp add: u_def fold_start w1_def)
  have "game_ok (heap w) g0" unfolding g0_def by (rule newGame_ok)
  then have "game_ok (heap u) g0" by (rule game_ok_cong) (simp_all add: P)
  then have ok2: "game_ok (heap u) g2" and same: "same_game g0 g2"
    using gameSetup_keeps [where H = "heap u" and g = g0 and now = now]
      gameSetup_keeps [where H = "heap u" and g = g1 and now = now]
    by (auto simp: g1 g2 same_game_def)
  show ?thesis
  proof (rule lobby_found [OF v])
    show "sint (nextGameID v) < 2 ^ 63 - 1" using left by (simp add: v_def)
    show "game_change (nextGameID v) (Some g2) v w'"
      using same idle_v fresh_game [OF ok] roster mq
      by (auto simp: game_change_def roster_def w' same_game_def u_def fold_start idle_def v_def
          gid_def w1_def update_conv' P)
    show "nextGameID w' = nextGameID v + 1" by (simp add: w' u_def fold_start w1_def gid_def v_def)
    show "game_ok (heap v) g2" by (rule game_ok_cong [OF ok2]) (simp_all add: P v_def)
  qed (use same roster idle_v in \<open>auto simp: same_game_def gid_def v_def split: if_splits\<close>)
qed

lemma next_match:
  assumes "lobby_ok s w" and "numbers_left w"
  shows "0 < sint (nextMatchID w + 1)"
proof -
  have "0 < sint (nextMatchID w)" by (rule lobby_next [OF assms(1)])
  then show ?thesis using assms(2) by (subst sint_plus_exact) (auto simp: numbers_left_def)
qed

text \<open>What a matchmaking request asks for, and the state in which it is looked at.\<close>

definition candidate :: "handle \<Rightarrow> Frame \<Rightarrow> i64 \<Rightarrow> matchRequest" where
  "candidate h req ms = \<lparr>session = h, attrs = map_field (frame_fields req) ''ATTR'',
     cap = getMatchmakingCapacity req, topology = getMatchmakingTopology req, msid = ms\<rparr>"

definition searching :: "handle \<Rightarrow> Server \<Rightarrow> Server" where
  "searching h w = removeQueuedSessionLocked h (upd h (\<lambda>s. s\<lparr>GameID := 0\<rparr>) (w\<lparr>nextMatchID := nextMatchID w + 1\<rparr>))"

lemma candidate_simps [simp]:
  "session (candidate h req ms) = h" "msid (candidate h req ms) = ms"
  "attrs (candidate h req ms) = map_field (frame_fields req) ''ATTR''"
  by (simp_all add: candidate_def)

lemma queueMatch_cases:
  assumes r: "queueMatch_locked now h req w = Inr ((ms, out), w')"
  obtains
    (in_game) g where "out = InGame" "w' = w\<lparr>nextMatchID := nextMatchID w + 1\<rparr>"
      "map_of (games w) (GameID (heap w h)) = Some g" "GameID (heap w h) \<noteq> 0" "ms = nextMatchID w"
  | (joined) ids g v where "join_loop now (candidate h req ms) ids (searching h w) = Inr (Some g, v)"
      "join_game now (candidate h req ms) g v = Inr (out, w')" "ms = nextMatchID w"
      "set ids = fst ` set (games w)" "sorted (map sint ids)"
  | (queued) ids v where "join_loop now (candidate h req ms) ids (searching h w) = Inr (None, v)"
      "find_match (matchQueue v) (candidate h req ms) 0 = Inr None" "out = Queued"
      "w' = upd h (\<lambda>s. s\<lparr>QueuedMatchID := ms\<rparr>) (v\<lparr>matchQueue := matchQueue v @ [candidate h req ms]\<rparr>)"
      "ms = nextMatchID w" "set ids = fst ` set (games w)" "sorted (map sint ids)"
  | (paired) ids v i where "join_loop now (candidate h req ms) ids (searching h w) = Inr (None, v)"
      "find_match (matchQueue v) (candidate h req ms) 0 = Inr (Some i)"
      "pair_up now (candidate h req ms) i v = Inr (out, w')" "ms = nextMatchID w"
      "set ids = fst ` set (games w)" "sorted (map sint ids)"
proof -
  define n where "n = nextMatchID w"
  define w1 where "w1 = w\<lparr>nextMatchID := n + 1\<rparr>"
  define ids where "ids = sort_key sint (map fst (games (searching h w)))"
  have s: "searching h w = removeQueuedSessionLocked h (upd h (\<lambda>s. s\<lparr>GameID := 0\<rparr>) w1)"
    by (simp add: searching_def w1_def n_def)
  have ids: "set ids = fst ` set (games w)" "sorted (map sint ids)" by (simp_all add: ids_def searching_def)
  note r' = r [unfolded queueMatch_locked_def Let_def, folded n_def, folded w1_def, folded candidate_def s,
      folded ids_def]
  show thesis
  proof (cases "GameID (heap w1 h) \<noteq> 0 \<and> (case map_of (games w1) (GameID (heap w1 h)) of
      Some game \<Rightarrow> sessionForPlayerID (heap w1) game (PersonaID (heap w1 h)) = Some h | None \<Rightarrow> False)")
    case True
    then obtain g where "map_of (games w1) (GameID (heap w1 h)) = Some g" by (auto split: option.splits)
    moreover from r' True have "ms = n" "out = InGame" "w' = w1" by simp_all
    ultimately show thesis using True by (intro in_game [of g]) (simp_all add: w1_def n_def)
  next
    case False
    then obtain res v where j: "join_loop now (candidate h req n) ids (searching h w) = Inr (res, v)"
      and rest: "(case res of
            Some game \<Rightarrow> go_bind (join_game now (candidate h req n) game v) (\<lambda>(out, w4). Inr ((n, out), w4))
          | None \<Rightarrow>
              go_bind (find_match (matchQueue v) (candidate h req n) 0) (\<lambda>matchIndex.
                case matchIndex of
                  None \<Rightarrow>
                    Inr ((n, Queued),
                      upd h (\<lambda>s. s\<lparr>QueuedMatchID := n\<rparr>) (v\<lparr>matchQueue := matchQueue v @ [candidate h req n]\<rparr>))
                | Some i \<Rightarrow> go_bind (pair_up now (candidate h req n) i v) (\<lambda>(out, w4). Inr ((n, out), w4))))
        = Inr ((ms, out), w')"
      using r' by (subst (asm) if_not_P [OF False]) (auto simp: go_bind_Inr_iff)
    show thesis
    proof (cases res)
      case (Some g)
      with rest have "join_game now (candidate h req n) g v = Inr (out, w')" "ms = n" by (auto simp: go_bind_Inr_iff)
      with j Some ids show thesis by (intro joined) (simp_all add: n_def)
    next
      case None
      with rest obtain mi where f: "find_match (matchQueue v) (candidate h req n) 0 = Inr mi"
        and m: "(case mi of
                  None \<Rightarrow>
                    Inr ((n, Queued),
                      upd h (\<lambda>s. s\<lparr>QueuedMatchID := n\<rparr>) (v\<lparr>matchQueue := matchQueue v @ [candidate h req n]\<rparr>))
                | Some i \<Rightarrow> go_bind (pair_up now (candidate h req n) i v) (\<lambda>(out, w4). Inr ((n, out), w4)))
          = Inr ((ms, out), w')"
        by (auto simp: go_bind_Inr_iff)
      show thesis
      proof (cases mi)
        case None
        with m have "ms = n" "out = Queued"
          "w' = upd h (\<lambda>s. s\<lparr>QueuedMatchID := n\<rparr>) (v\<lparr>matchQueue := matchQueue v @ [candidate h req n]\<rparr>)"
          by auto
        with j \<open>res = None\<close> f None ids show thesis by (intro queued [of ids v]) (simp_all add: n_def)
      next
        case (Some i)
        with m have "pair_up now (candidate h req n) i v = Inr (out, w')" "ms = n" by (auto simp: go_bind_Inr_iff)
        with j \<open>res = None\<close> f Some ids show thesis by (intro paired [of ids v i]) (simp_all add: n_def)
      qed
    qed
  qed
qed

lemma lobby_searching:
  assumes ok: "lobby_ok s w" and live: "live w h" and left: "numbers_left w" and idle: "GameID (heap w h) = 0"
  shows "lobby_ok s (searching h w)" and "idle (searching h w) h" and "sint (nextGameID (searching h w)) < 2 ^ 63 - 1"
proof -
  let ?w1 = "w\<lparr>nextMatchID := nextMatchID w + 1\<rparr>"
  have "same_lobby w ?w1" by (simp add: same_lobby_def)
  then have "lobby_ok s ?w1"
    by (rule lobby_ok_same [OF ok]) (simp add: next_match [OF ok left])
  moreover have "live ?w1 h" using live by (simp add: live_def)
  ultimately show "lobby_ok s (searching h w)" "idle (searching h w) h"
    using lobby_idle [of s ?w1 h] idle by (simp_all add: searching_def)
  show "sint (nextGameID (searching h w)) < 2 ^ 63 - 1"
    using left by (simp add: searching_def numbers_left_def)
qed

lemma lobby_matchmake:
  assumes ok: "lobby_ok s w" and live: "live w h" and left: "numbers_left w"
    and r: "queueMatch_locked now h req w = Inr ((ms, out), w')"
  shows "lobby_ok s w'"
proof (cases "GameID (heap w h) = 0")
  case False
  then have "w' = w\<lparr>nextMatchID := nextMatchID w + 1\<rparr>"
    using r active_iff [OF ok, of h] by (auto simp: queueMatch_locked_def Let_def)
  moreover have "same_lobby w (w\<lparr>nextMatchID := nextMatchID w + 1\<rparr>)" by (simp add: same_lobby_def)
  ultimately show ?thesis using lobby_ok_same [OF ok] next_match [OF ok left] by simp
next
  case True
  note search = lobby_searching [OF ok live left True]
  let ?u = "searching h w"
  let ?c = "candidate h req ms"
  have idle: "idle (?u\<lparr>games := G\<rparr>) h" for G using search(2) by (simp add: idle_def live_def)
  from r show ?thesis
  proof (cases rule: queueMatch_cases)
    case (in_game g)
    with True show ?thesis by simp
  next
    case (joined ids g' x)
    from join_loop_run [OF search(1) joined(1)] obtain G k g where v: "x = put_game g' k (?u\<lparr>games := G\<rparr>)"
      "lobby_ok s (?u\<lparr>games := G\<rparr>)" "map_of (games (?u\<lparr>games := G\<rparr>)) k = Some g" "ID g' = ID g" "Host g' = Host g"
      "Members g' = Members g @ [session ?c]"
      "\<forall>m \<in> set (Members g). m \<noteq> session ?c \<and> PersonaID (heap ?u m) \<noteq> PersonaID (heap ?u (session ?c))"
      "s \<longrightarrow> game_ok (heap ?u) g'"
      by (auto simp: Let_def)
    have j: "join_game now ?c g' (put_game g' k (?u\<lparr>games := G\<rparr>)) = Inr (out, w')" using joined(2) v(1) by simp
    have iv: "idle (?u\<lparr>games := G\<rparr>) (session ?c)" using idle by simp
    show ?thesis by (rule lobby_join [OF v(2) iv v(3-6) _ _ j]) (use v(7,8) in simp_all)
  next
    case (queued ids x)
    from join_loop_run [OF search(1) queued(1)] obtain G where x: "x = ?u\<lparr>games := G\<rparr>" and okx: "lobby_ok s x" by auto
    have "ms \<noteq> 0" using lobby_next(2) [OF ok] queued(5) by auto
    then show ?thesis
      using lobby_enqueue [OF okx, of ?c] idle [of G] queued(4) by (simp add: x idle_def)
  next
    case (paired ids x i)
    from join_loop_run [OF search(1) paired(1)] obtain G where x: "x = ?u\<lparr>games := G\<rparr>" and okx: "lobby_ok s x" by auto
    have ix: "idle x (session ?c)" using idle by (simp add: x)
    have lx: "sint (nextGameID x) < 2 ^ 63 - 1" using search(3) by (simp add: x)
    show ?thesis by (rule lobby_pair [OF okx ix lx paired(2,3)])
  qed
qed

end
