(* ===== verification/Step_System.thy ===== *)
theory Step_System
  imports Main
begin

text \<open>
  Labelled transition systems: runs from a start state, paths between states, and the two
  contracts the server's model is shown to meet.
\<close>

inductive run :: "('s \<Rightarrow> bool) \<Rightarrow> ('l \<Rightarrow> 's \<Rightarrow> 's \<Rightarrow> bool) \<Rightarrow> 'l list \<Rightarrow> 's \<Rightarrow> bool"
  for start :: "'s \<Rightarrow> bool" and step :: "'l \<Rightarrow> 's \<Rightarrow> 's \<Rightarrow> bool" where
  run_start: "start s \<Longrightarrow> run start step [] s"
| run_step: "run start step ls s \<Longrightarrow> step l s s' \<Longrightarrow> run start step (ls @ [l]) s'"

inductive path :: "('l \<Rightarrow> 's \<Rightarrow> 's \<Rightarrow> bool) \<Rightarrow> 's \<Rightarrow> 'l list \<Rightarrow> 's \<Rightarrow> bool"
  for step :: "'l \<Rightarrow> 's \<Rightarrow> 's \<Rightarrow> bool" where
  path_nil: "path step s [] s"
| path_cons: "step l s s' \<Longrightarrow> path step s' ls s'' \<Longrightarrow> path step s (l # ls) s''"

lemma path_one: "step l s s' \<Longrightarrow> path step s [l] s'"
  by (blast intro: path.intros)

lemma path_append: "path step s ls s' \<Longrightarrow> path step s' ms s'' \<Longrightarrow> path step s (ls @ ms) s''"
  by (induction rule: path.induct) (auto intro: path.intros)

lemma run_path: "path step s ms s' \<Longrightarrow> run start step ls s \<Longrightarrow> run start step (ls @ ms) s'"
proof (induction arbitrary: ls rule: path.induct)
  case (path_cons l s s' ms s'')
  then have "run start step ((ls @ [l]) @ ms) s''" by (blast intro: run_step)
  then show ?case by simp
qed simp

inductive_cases path_ConsE: "path step s (l # ls) s'"

text \<open>An invariant of a system.\<close>

locale invariant_system =
  fixes start :: "'s \<Rightarrow> bool" and step :: "'l \<Rightarrow> 's \<Rightarrow> 's \<Rightarrow> bool" and inv :: "'s \<Rightarrow> bool"
  assumes inv_start: "start s \<Longrightarrow> inv s"
    and inv_step: "inv s \<Longrightarrow> step l s s' \<Longrightarrow> inv s'"
begin

lemma run_inv: "run start step ls s \<Longrightarrow> inv s"
  by (induction rule: run.induct) (blast intro: inv_start inv_step)+

lemma path_inv: "path step s ls s' \<Longrightarrow> inv s \<Longrightarrow> inv s'"
  by (induction rule: path.induct) (blast intro: inv_step)+

end

text \<open>A property that only some labels can end.\<close>

locale stable_system = invariant_system start step inv
  for start :: "'s \<Rightarrow> bool" and step :: "'l \<Rightarrow> 's \<Rightarrow> 's \<Rightarrow> bool" and inv :: "'s \<Rightarrow> bool" +
  fixes P :: "'s \<Rightarrow> bool" and ends :: "'l \<Rightarrow> bool"
  assumes stable: "inv s \<Longrightarrow> step l s s' \<Longrightarrow> \<not> ends l \<Longrightarrow> P s \<Longrightarrow> P s'"
begin

lemma path_stable: "path step s ls s' \<Longrightarrow> inv s \<Longrightarrow> P s \<Longrightarrow> \<forall>l \<in> set ls. \<not> ends l \<Longrightarrow> P s'"
  by (induction rule: path.induct) (auto intro: inv_step stable)

end

end
