(* ===== verification/Lobby_System.thy ===== *)
theory Lobby_System
  imports Lobby_Match Step_System
begin

text \<open>
  The server as a transition system: the interleaving of the critical sections of all
  connections.  The lobby invariant is an invariant of every run, with well-formed games as long
  as nobody logs in while in a game, and a session keeps its persona until its own connection ends.
\<close>

section \<open>Steps\<close>

datatype lobby_event = Login handle | Leave handle | Act handle | Deliver

text \<open>
  One step is one critical section of \<open>Server.mu\<close>, by the session named in the event, or a
  change of the fields outside it (queued frames, addresses, the pending game, closing).
\<close>

inductive lobby_step :: "lobby_event \<Rightarrow> Server \<Rightarrow> Server \<Rightarrow> bool" where
  login: "numbers_left w \<Longrightarrow> lobby_step (Login h) w (authenticateSessionNamed h r n w)"
| leave: "lobby_step (Leave h) w (snd (removeSession_locked h w))"
| matchmake: "live w h \<Longrightarrow> numbers_left w \<Longrightarrow> queueMatch_locked now h req w = Inr ((ms, out), w') \<Longrightarrow>
    lobby_step (Act h) w w'"
| create: "live w h \<Longrightarrow> numbers_left w \<Longrightarrow> resetDedicated_locked now h req w = Inr (out, w') \<Longrightarrow>
    lobby_step (Act h) w w'"
| cancel: "lobby_step (Act h) w (snd (cancelQueuedMatch h q w))"
| remove: "lobby_step (Act h) w (snd (removePlayer_locked h k p w))"
| set_field: "(\<And>g. same_game g (f g) \<and> Slots (f g) = Slots g) \<Longrightarrow> lobby_step (Act h) w (set_game k f w)"
| set_attrs: "lobby_step (Act h) w (snd (setPlayerAttrs_locked now h k p ats w))"
| mesh: "lobby_step (Act h) w (snd (updateMesh_locked now h k ts w))"
| quiet: "same_lobby w w' \<Longrightarrow> nextMatchID w' = nextMatchID w \<Longrightarrow> lobby_step Deliver w w'"

text \<open>A run in which nobody logs in while in a game.\<close>

definition polite_step :: "lobby_event \<Rightarrow> Server \<Rightarrow> Server \<Rightarrow> bool" where
  "polite_step l w w' \<longleftrightarrow> lobby_step l w w' \<and> (\<forall>h. l = Login h \<longrightarrow> GameID (heap w h) = 0)"

definition lobby_start :: "Server \<Rightarrow> bool" where
  "lobby_start w \<longleftrightarrow> (\<exists>b H. w = New\<lparr>AutologBase := b, heap := H\<rparr> \<and> (\<forall>h. \<exists>a. H h = newSession a))"

lemma lobby_ok_start: "lobby_start w \<Longrightarrow> lobby_ok s w"
  by (auto simp: lobby_start_def lobby_ok_def New_def auth_ok_def member_of_def queued_def newSession_def) 
    (metis newSession_def Session.select_convs)+

lemma lobby_ok_step:
  assumes "lobby_step l w w'" and "lobby_ok s w" and "\<And>h. s \<Longrightarrow> l = Login h \<Longrightarrow> GameID (heap w h) = 0"
  shows "lobby_ok s w'"
  using assms
proof (cases rule: lobby_step.cases)
  case (login h r n)
  then show ?thesis using assms(2,3) by (auto intro: lobby_login)
next
  case quiet
  then show ?thesis using lobby_ok_same [OF assms(2)] lobby_next(2) [OF assms(2)] by simp
qed (auto intro: lobby_removeSession lobby_matchmake lobby_create lobby_cancel lobby_removePlayer lobby_set_game
    lobby_attrs lobby_mesh)

interpretation lobby: invariant_system lobby_start lobby_step "lobby_ok False"
  by unfold_locales (auto intro: lobby_ok_start lobby_ok_step)

interpretation polite: invariant_system lobby_start polite_step "lobby_ok True"
  by unfold_locales (auto intro: lobby_ok_start lobby_ok_step simp: polite_step_def)

section \<open>Who is registered\<close>

lemma login_persona_only:
  "lobby_ok s w \<Longrightarrow> x \<noteq> h \<Longrightarrow> PersonaID (heap (authenticateSessionNamed h r n w) x) = PersonaID (heap w x)"
  by (cases "PersonaID (heap w h) = 0") (simp_all add: authenticate_known authenticate_new lobby_auth Let_def)

lemma live_login:
  assumes ok: "lobby_ok s w" and left: "numbers_left w" and live: "live w x"
  shows "live (authenticateSessionNamed h r n w) x"
proof (cases "PersonaID (heap w h) = 0")
  case True
  have "map_of (activePersonas w) (choosePersona r w) = None"
    using left choosePersona_free by (simp add: numbers_left_def)
  then show ?thesis
    using live True choosePersona_nonzero [OF left]
    unfolding authenticate_new [OF True lobby_auth [OF ok]] Let_def
    by (auto simp: live_def update_conv')
qed (simp add: authenticate_known live)

definition same_people :: "Server \<Rightarrow> Server \<Rightarrow> bool" where
  "same_people w w' \<longleftrightarrow> activePersonas w' = activePersonas w \<and>
     (\<forall>h. PersonaID (heap w' h) = PersonaID (heap w h))"

lemma same_people_refl [simp]: "same_people w w"
  by (simp add: same_people_def)

lemma same_people_trans: "same_people u v \<Longrightarrow> same_people v w \<Longrightarrow> same_people u w"
  by (simp add: same_people_def)

lemma live_same: "same_people w w' \<Longrightarrow> live w' h \<longleftrightarrow> live w h"
  by (simp add: same_people_def live_def)

lemma people_lobby: "same_lobby w w' \<Longrightarrow> same_people w w'"
  by (simp add: same_lobby_def same_people_def)

lemma people_put [simp]: "same_people w (put_game g k w') = same_people w w'"
  by (simp add: same_people_def)

lemma people_remove: "same_people w (snd (removePlayer_locked h k p w))"
  by (auto simp: removePlayer_locked_def same_people_def Let_def fold_release split: option.splits)

lemma people_attrs: "same_people w (snd (setPlayerAttrs_locked now h k p ats w))"
  by (auto simp: setPlayerAttrs_locked_def same_people_def Let_def split: option.splits)

lemma people_set_game: "same_people w (set_game k f w)"
  by (auto simp: set_game_def split: option.splits)

lemma people_cancel: "same_people w (snd (cancelQueuedMatch h q w))"
  by (auto simp: cancelQueuedMatch_def same_people_def split: option.splits)

lemma people_mesh: "same_people w (snd (updateMesh_locked now h k ts w))"
proof -
  have "same_people w (snd (complete_loop g ms (put_game g' k w)))" for g ms g'
    using complete_loop_same people_lobby same_people_trans by (metis people_put same_people_refl)
  then show ?thesis
    by (auto simp: updateMesh_locked_def Let_def split_beta split: option.splits)
qed

lemma people_create: "resetDedicated_locked now h req w = Inr (out, w') \<Longrightarrow> same_people w w'"
  by (auto simp: resetDedicated_locked_def Let_def split_beta go_bind_Inr_iff same_people_def
      split: option.splits if_splits)

lemma people_join_loop: "join_loop now r ids w = Inr (res, w') \<Longrightarrow> same_people w w'"
proof (induction ids arbitrary: w)
  case (Cons k ids)
  then show ?case
    by (auto simp: go_bind_Inr_iff split_beta split: option.splits if_splits)
       (metis people_put same_people_refl same_people_trans)+
qed simp

lemma people_matchmake: 
  assumes "queueMatch_locked now h req w = Inr ((ms, out), w')"
  shows "same_people w w'"
proof -
  have j: "join_game now r g u = Inr (o4, u') \<Longrightarrow> same_people u u'" for r g u o4 u'
    by (auto simp: join_game_def Let_def split_beta go_bind_Inr_iff same_people_def)
  have p: "pair_up now r i u = Inr (o4, u') \<Longrightarrow> same_people u u'" for r i u o4 u'
    by (auto simp: pair_up_def Let_def split_beta go_bind_Inr_iff same_people_def fold_start)
  have u: "same_people w (searching h w)" by (simp add: same_people_def searching_def)
  from assms show ?thesis
  proof (cases rule: queueMatch_cases)
    case (in_game g)
    then show ?thesis by (simp add: same_people_def)
  next
    case (joined ids g v)
    show ?thesis
      by (rule same_people_trans [OF same_people_trans [OF u people_join_loop [OF joined(1)]] j [OF joined(2)]])
  next
    case (queued ids v)
    then show ?thesis using u people_join_loop [OF queued(1)] by (simp add: same_people_def)
  next
    case (paired ids v i)
    show ?thesis
      by (rule same_people_trans [OF same_people_trans [OF u people_join_loop [OF paired(1)]] p [OF paired(3)]])
  qed
qed

lemma people_act: "lobby_step l w w' \<Longrightarrow> (\<And>h. l \<noteq> Login h \<and> l \<noteq> Leave h) \<Longrightarrow> same_people w w'"
  by (cases rule: lobby_step.cases)
    (auto intro: people_lobby people_remove people_attrs people_set_game people_cancel people_mesh
      people_create people_matchmake)

lemma leave_people:
  "PersonaID (heap (snd (removeSession_locked k w)) x) = PersonaID (heap w x)"
  "activePersonas (snd (removeSession_locked k w)) =
      (if map_of (activePersonas w) (PersonaID (heap w k)) = Some k
       then AList.delete (PersonaID (heap w k)) (activePersonas w) else activePersonas w)"
  by (auto simp: removeSession_locked_def Let_def fold_release split: option.splits)

lemma live_leave: "live w h \<Longrightarrow> h \<noteq> k \<Longrightarrow> live (snd (removeSession_locked k w)) h"
  unfolding live_def leave_people by (auto simp: delete_conv')

text \<open>A live session stays live until it leaves.\<close>

interpretation alive: stable_system lobby_start lobby_step "lobby_ok False" "\<lambda>w. live w h" "\<lambda>l. l = Leave h"
proof unfold_locales
  fix l w w'
  assume ok: "lobby_ok False w" and st: "lobby_step l w w'" and l: "l \<noteq> Leave h" and live: "live w h"
  show "live w' h"
  proof (cases "\<exists>k. l = Login k \<or> l = Leave k")
    case False
    with people_act [OF st] live live_same show ?thesis by blast
  next
    case True
    from st show ?thesis
    proof (cases rule: lobby_step.cases)
      case (login k r n)
      then show ?thesis using live_login [OF ok _ live] by simp
    next
      case (leave k)
      then show ?thesis using live_leave [OF live] l by auto
    qed (use True in auto)
  qed
qed

text \<open>A session with a persona keeps it and stays registered until it leaves.\<close>

interpretation kept: stable_system lobby_start lobby_step "lobby_ok False"
  "\<lambda>w. p \<noteq> 0 \<and> live w h \<and> PersonaID (heap w h) = p" "\<lambda>l. l = Leave h"
proof unfold_locales
  fix l w w'
  assume ok: "lobby_ok False w" and st: "lobby_step l w w'" and l: "l \<noteq> Leave h"
    and P: "p \<noteq> 0 \<and> live w h \<and> PersonaID (heap w h) = p"
  show "p \<noteq> 0 \<and> live w' h \<and> PersonaID (heap w' h) = p"
  proof (cases "\<exists>k. l = Login k \<or> l = Leave k")
    case False
    with people_act [OF st] have "same_people w w'" by blast
    with P show ?thesis by (auto simp: live_same) (simp_all add: same_people_def)
  next
    case True
    from st show ?thesis
    proof (cases rule: lobby_step.cases)
      case (login k r n)
      have "PersonaID (heap w' h) = p"
        using P login_persona_only [OF ok, of h k r n] by (cases "k = h") (auto simp: login authenticate_known)
      then show ?thesis using live_login [OF ok _ conjunct1 [OF conjunct2 [OF P]]] P login by simp
    next
      case (leave k)
      then show ?thesis using live_leave P l leave_people(1) by auto
    qed (use True in auto)
  qed
qed

section \<open>A fresh server\<close>

definition fresh_server :: Server where
  "fresh_server = New\<lparr>AutologBase := ''http://127.0.0.1:18080'', heap := \<lambda>_. newSession OtherAddr\<rparr>"

lemma fresh_server_start: "lobby_start fresh_server"
  unfolding lobby_start_def fresh_server_def by blast

lemma fresh_server_numbers: "numbers_left fresh_server"
  by (simp add: fresh_server_def New_def numbers_left_def roomy_def)

lemma run_login: "run lobby_start lobby_step [Login h] (authenticateSessionNamed h r n fresh_server)"
  using run_step [where ls = "[]" and step = lobby_step, OF run_start [where start = lobby_start, OF fresh_server_start]
      lobby_step.login [OF fresh_server_numbers]] by simp

end
