(* ===== verification/Lobby_Handlers.thy ===== *)
theory Lobby_Handlers
  imports Lobby_System
begin

text \<open>
  Every registered handler is a sequence of critical sections of its own session, interleaved with
  changes outside them: what is proved of the runs of the lobby holds of the requests served.
\<close>

section \<open>What happens outside the critical sections\<close>

definition quiet_change :: "Server \<Rightarrow> Server \<Rightarrow> bool" where
  "quiet_change w w' \<longleftrightarrow> same_lobby w w' \<and> nextMatchID w' = nextMatchID w"

named_theorems quietI \<open>changes of state outside the critical sections\<close>

lemma quiet_refl [quietI]: "quiet_change w w"
  by (simp add: quiet_change_def)

lemma quiet_trans: "quiet_change u v \<Longrightarrow> quiet_change v w \<Longrightarrow> quiet_change u w"
  by (auto simp: quiet_change_def intro: same_lobby_trans)

definition keeps_place :: "(Session \<Rightarrow> Session) \<Rightarrow> bool" where
  "keeps_place f \<longleftrightarrow> (\<forall>s. PersonaID (f s) = PersonaID s \<and> GameID (f s) = GameID s \<and> QueuedMatchID (f s) = QueuedMatchID s)"

lemma enqueue_keeps:
  "PersonaID (snd (enqueue f s)) = PersonaID s" "GameID (snd (enqueue f s)) = GameID s"
  "QueuedMatchID (snd (enqueue f s)) = QueuedMatchID s"
  by (auto simp: enqueue_def split: option.splits)

lemma keeps_place_simps [simp]:
  "keeps_place (notify f)" "keeps_place (hold fs)" "keeps_place close"
  "keeps_place (\<lambda>s. snd (enqueue x s))" "keeps_place (\<lambda>s. (hold fs s)\<lparr>NotificationDelay := d\<rparr>)"
  "keeps_place (\<lambda>s. (hold fs s)\<lparr>PendingMatchmakingGame := k\<rparr>)" "keeps_place (\<lambda>s. s\<lparr>NetworkAddress := a\<rparr>)"
  "keeps_place (\<lambda>s. s\<lparr>NetworkQOS := q\<rparr>)"
  by (simp_all add: keeps_place_def notify_def hold_def close_def enqueue_keeps)

lemma quiet_upd: "keeps_place f \<Longrightarrow> quiet_change w w' \<Longrightarrow> quiet_change w (upd h f w')"
  by (rule quiet_trans [of w w']) (auto simp: quiet_change_def same_lobby_def keeps_place_def)

lemma quiet_deliver: "quiet_change w w' \<Longrightarrow> quiet_change w (deliver f h w')"
  by (simp add: deliver_def quiet_upd)

lemma quiet_deliver_all: "quiet_change w w' \<Longrightarrow> quiet_change w (deliver_all fs h w')"
  unfolding deliver_all_def by (induction fs arbitrary: w') (auto intro: quiet_deliver)

lemma quiet_each:
  assumes "\<And>x u u'. f x u = Inr u' \<Longrightarrow> quiet_change u u'" and "each f xs w = Inr w'"
  shows "quiet_change w w'"
  using assms(2)
proof (induction xs arbitrary: w)
  case (Cons x xs)
  then obtain u where "f x w = Inr u" "each f xs u = Inr w'" by (auto simp: go_bind_Inr_iff)
  with Cons.IH assms(1) show ?case using quiet_trans by blast
qed (simp add: quiet_refl)

lemma quiet_broadcast: "quiet_change w (broadcast h k f w)"
proof -
  have "quiet_change w (fold (deliver f) ms w)" for ms
    using quiet_refl [of w]
  proof -
    have "quiet_change w v \<Longrightarrow> quiet_change w (fold (deliver f) ms v)" for v
      by (induction ms arbitrary: v) (auto intro: quiet_deliver)
    then show ?thesis using quiet_refl by blast
  qed
  then show ?thesis by (simp add: broadcast_def Let_def quiet_deliver quiet_refl)
qed

lemma quiet_notify_removed: "notify_removed k p c r b m w = Inr w' \<Longrightarrow> quiet_change w w'"
  by (auto simp: notify_removed_def go_bind_Inr_iff quiet_deliver quiet_refl split: if_splits)

lemma quiet_matched: "notifyMatchedGame ms r a b w = Inr w' \<Longrightarrow> quiet_change w w'"
proof -
  assume "notifyMatchedGame ms r a b w = Inr w'"
  then obtain u v where u: "each (notify_joining (session r) a) ms w = Inr u"
    and v: "each (hold_user (session r)) ms u = Inr v" and w': "w' = hold_setup (session r) b v"
    by (auto simp: notifyMatchedGame_def Let_def go_bind_Inr_iff)
  have "quiet_change w u"
    by (rule quiet_each [OF _ u])
      (auto simp: notify_joining_def go_bind_Inr_iff quiet_refl quiet_deliver quiet_deliver_all split: if_splits)
  moreover have "quiet_change u v"
    by (rule quiet_each [OF _ v]) (auto simp: hold_user_def go_bind_Inr_iff quiet_refl quiet_upd split: if_splits)
  ultimately show ?thesis
    unfolding w' hold_setup_def by (intro quiet_upd) (auto intro: quiet_trans)
qed

lemma quiet_paired: "notifyPaired h r a b w = Inr w' \<Longrightarrow> quiet_change w w'"
  by (auto simp: notifyPaired_def Let_def go_bind_Inr_iff hold_setup_def quiet_refl intro!: quiet_upd quiet_deliver_all)

section \<open>Handlers as sequences of steps\<close>

definition refines :: "handler \<Rightarrow> bool" where
  "refines f \<longleftrightarrow> (\<forall>now h req w resp w'. live w h \<longrightarrow> numbers_left w \<longrightarrow> f now h req w = Inr (resp, w') \<longrightarrow>
     (\<exists>ls. path lobby_step w ls w' \<and> set ls \<subseteq> {Login h, Act h, Deliver}))"

lemma steps_quiet:
  "quiet_change w w' \<Longrightarrow> \<exists>ls. path lobby_step w ls w' \<and> set ls \<subseteq> {Login h, Act h, Deliver}"
  by (rule exI [of _ "[Deliver]"]) (auto intro: path_one lobby_step.quiet simp: quiet_change_def)

lemma steps_then_quiet:
  assumes "lobby_step l w u" and "l \<in> {Login h, Act h}" and "quiet_change u w'"
  shows "\<exists>ls. path lobby_step w ls w' \<and> set ls \<subseteq> {Login h, Act h, Deliver}"
  by (rule exI [of _ "[l, Deliver]"])
    (use assms in \<open>auto intro: path_cons path_one lobby_step.quiet simp: quiet_change_def\<close>)

lemma refines_quiet:
  "(\<And>now h req w resp w'. f now h req w = Inr (resp, w') \<Longrightarrow> quiet_change w w') \<Longrightarrow> refines f"
  unfolding refines_def using steps_quiet by blast

lemma refines_step:
  "(\<And>now h req w resp w'. live w h \<Longrightarrow> numbers_left w \<Longrightarrow> f now h req w = Inr (resp, w') \<Longrightarrow>
      \<exists>l u. lobby_step l w u \<and> l \<in> {Login h, Act h} \<and> quiet_change u w') \<Longrightarrow> refines f"
  unfolding refines_def using steps_then_quiet by metis

named_theorems refined \<open>handlers that are sequences of steps\<close>

lemma refines_constant [refined]:
  "refines (reply_hex s)" "refines (reply_fields fs)" "refines acknowledge" "refines ping"
  "refines userSettingsLoad" "refines utilityConfig" "refines getAccount" "refines listEntitlements"
  "refines rejectLogin"
  by (rule refines_quiet; auto simp: reply_hex_def reply_fields_def acknowledge_def ping_def userSettingsLoad_def
      utilityConfig_def getAccount_def listEntitlements_def rejectLogin_def go_bind_Inr_iff Let_def quiet_refl
      split: if_splits)+

lemma refines_reply [refined]:
  "refines postAuth" "refines getBestScores" "refines getTelemetry" "refines createWalSession" "refines getLists"
  unfolding postAuth_def getBestScores_def getTelemetry_def createWalSession_def getLists_def
  by (rule refined)+

lemma refines_network [refined]: "refines updateNetworkInfo"
  by (rule refines_quiet)
    (auto simp: updateNetworkInfo_def Let_def quiet_refl intro!: quiet_upd split: option.splits)

lemma refines_finalize [refined]: "refines finalizeGame"
  by (rule refines_quiet)
    (auto simp: finalizeGame_def Let_def go_bind_Inr_iff quiet_refl intro!: quiet_upd split: if_splits)

lemma set_and_broadcast_step:
  assumes "set_and_broadcast command fs k f now h req w = Inr (resp, w')"
    and "\<And>g. same_game g (f g) \<and> Slots (f g) = Slots g"
  shows "\<exists>l u. lobby_step l w u \<and> l \<in> {Login h, Act h} \<and> quiet_change u w'"
proof -
  from assms(1) obtain n where "w' = broadcast h k n (set_game k f w)"
    by (auto simp: set_and_broadcast_def Let_def go_bind_Inr_iff)
  then show ?thesis using lobby_step.set_field [of f h w k, OF assms(2)] quiet_broadcast by blast
qed

lemma refines_set [refined]:
  "refines advanceGameState" "refines setGameAttributes" "refines setGameSettings" "refines setPlayerCapacity"
  unfolding advanceGameState_def setGameAttributes_def setGameSettings_def setPlayerCapacity_def Let_def
  by (rule refines_step; erule set_and_broadcast_step; auto simp: same_game_def split: list.splits tdf.splits)+

lemma refines_replay [refined]: "refines replayGame"
proof -
  have "\<exists>ls. path lobby_step w ls w' \<and> set ls \<subseteq> {Login h, Act h, Deliver}"
    if r: "replayGame now h req w = Inr (resp, w')" for now h req w resp w'
  proof (cases "replay_accepted h (int_field (frame_fields req) ''GID'') w")
    case True
    with r have "\<exists>l u. lobby_step l w u \<and> l \<in> {Login h, Act h} \<and> quiet_change u w'"
      unfolding replayGame_def Let_def by (auto dest!: set_and_broadcast_step simp: same_game_def)
    then show ?thesis using steps_then_quiet by blast
  next
    case False
    with r show ?thesis by (auto simp: replayGame_def Let_def intro!: steps_quiet quiet_refl)
  qed
  then show ?thesis by (simp add: refines_def)
qed

lemma refines_create [refined]: "refines resetDedicated"
proof (rule refines_step)
  fix now h req w resp w'
  assume live: "live w h" and left: "numbers_left w" and r: "resetDedicated now h req w = Inr (resp, w')"
  then obtain gid st u where u: "resetDedicated_locked now h req w = Inr ((gid, st), u)"
    and "w' = (case st of Some payload \<Rightarrow> upd h (hold [notification ComponentGameManager NotifyGameSetup payload]) u
             | None \<Rightarrow> u)"
    by (auto simp: resetDedicated_def Let_def go_bind_Inr_iff reply_fields_def)
  then have "quiet_change u w'" by (auto intro: quiet_upd quiet_refl split: option.splits)
  with lobby_step.create [OF live left u] show "\<exists>l u. lobby_step l w u \<and> l \<in> {Login h, Act h} \<and> quiet_change u w'"
    by blast
qed

lemma refines_attrs [refined]: "refines setPlayerAttributes"
proof (rule refines_step)
  fix now h req w resp w'
  assume "setPlayerAttributes now h req w = Inr (resp, w')"
  then obtain k p ats where b: "broadcastPlayerAttributes now h k p ats w = Inr w'"
    by (auto simp: setPlayerAttributes_def Let_def go_bind_Inr_iff)
  let ?u = "snd (setPlayerAttrs_locked now h k p ats w)"
  have "quiet_change ?u w'"
  proof (cases "map_of (games w) k")
    case None
    with b show ?thesis
      by (auto simp: broadcastPlayerAttributes_def setPlayerAttrs_locked_def go_bind_Inr_iff quiet_deliver quiet_refl)
  next
    case (Some g)
    show ?thesis
    proof (cases "fst (setPlayerAttrs_locked now h k p ats w)")
      case None
      with b Some show ?thesis by (cases "setPlayerAttrs_locked now h k p ats w") (simp add: broadcastPlayerAttributes_def quiet_refl)
    next
      case (Some x)
      then obtain player ms where u: "setPlayerAttrs_locked now h k p ats w = (Some (player, ms), ?u)"
        by (metis prod.collapse)
      have "each (\<lambda>m w. go_bind (game_notification NotifyPlayerAttrs
          [(''ATTR'', TMap ats), (''GID'', TInt k), (''PID'', TInt (canonicalPlayerID (heap w player)))])
          (\<lambda>f. Inr (deliver f m w))) ms ?u = Inr w'"
        using b \<open>map_of (games w) k = Some g\<close> by (subst (asm) broadcastPlayerAttributes_def, subst (asm) u) simp
      then show ?thesis by (rule quiet_each [rotated]) (auto simp: go_bind_Inr_iff quiet_deliver quiet_refl)
    qed
  qed
  then show "\<exists>l u. lobby_step l w u \<and> l \<in> {Login h, Act h} \<and> quiet_change u w'"
    using lobby_step.set_attrs by blast
qed

lemma refines_remove [refined]: "refines removePlayer"
proof (rule refines_step)
  fix now h req w resp w'
  assume r: "removePlayer now h req w = Inr (resp, w')"
  obtain b t u where u: "removePlayer_locked h (int_field (frame_fields req) ''GID'')
      (int_field (frame_fields req) ''PID'') w = ((b, t), u)" by (metis surj_pair)
  have "quiet_change u w'"
    using r by (cases b; cases t)
      (auto simp: removePlayer_def Let_def u go_bind_Inr_iff quiet_deliver quiet_refl
        intro: quiet_each dest: quiet_notify_removed split: prod.splits)
  moreover have "lobby_step (Act h) w u" using lobby_step.remove [of h w] u by (metis snd_conv)
  ultimately show "\<exists>l u. lobby_step l w u \<and> l \<in> {Login h, Act h} \<and> quiet_change u w'" by blast
qed

lemma refines_match [refined]: "refines startMatchmaking"
proof (rule refines_step)
  fix now h req w resp w'
  assume live: "live w h" and left: "numbers_left w" and r: "startMatchmaking now h req w = Inr (resp, w')"
  then obtain ms where "queueMatch now h req w = Inr (ms, w')"
    by (auto simp: startMatchmaking_def reply_fields_def go_bind_Inr_iff)
  then obtain ms' out u where u: "queueMatch_locked now h req w = Inr ((ms', out), u)"
    and rest: "(case out of
         Joined game request joiningPayload joinSetupPayload \<Rightarrow>
           go_bind (notifyMatchedGame (Members game) request joiningPayload joinSetupPayload u) (\<lambda>w2. Inr (ms', w2))
       | Paired hostRequest game hostSetupPayload joinSetupPayload \<Rightarrow>
           go_bind (notifyPaired h hostRequest hostSetupPayload joinSetupPayload u) (\<lambda>w2. Inr (ms', w2))
       | _ \<Rightarrow> Inr (ms', u)) = Inr (ms, w')"
    by (auto simp: queueMatch_def go_bind_Inr_iff)
  have "quiet_change u w'"
    using rest by (cases out) (auto simp: go_bind_Inr_iff quiet_refl dest: quiet_matched quiet_paired)
  with lobby_step.matchmake [OF live left u] show "\<exists>l u. lobby_step l w u \<and> l \<in> {Login h, Act h} \<and> quiet_change u w'"
    by blast
qed

lemma refines_cancel [refined]: "refines cancelMatchmaking"
  by (rule refines_step) (auto simp: cancelMatchmaking_def intro: lobby_step.cancel quiet_refl)

lemma refines_mesh [refined]: "refines updateMesh"
proof (rule refines_step)
  fix now h req w resp w'
  assume "updateMesh now h req w = Inr (resp, w')"
  then obtain k ts where m: "updateMeshConnection now h k ts w = Inr w'"
    by (auto simp: updateMesh_def Let_def go_bind_Inr_iff)
  obtain cs rs u where u: "updateMesh_locked now h k ts w = ((cs, rs), u)" by (metis surj_pair)
  have one: "notify_completed h k p x v = Inr v' \<Longrightarrow> quiet_change v v'" for p x v v'
    by (auto simp: notify_completed_def go_bind_Inr_iff quiet_refl quiet_deliver quiet_upd split: if_splits)
  have "each (\<lambda>player. each (notify_completed h k player) rs) cs u = Inr w'"
    using m by (simp add: updateMeshConnection_def u)
  then have "quiet_change u w'" by (rule quiet_each [rotated]) (rule quiet_each [OF one])
  moreover have "lobby_step (Act h) w u" using lobby_step.mesh [of h w now k ts] u by (metis snd_conv)
  ultimately show "\<exists>l u. lobby_step l w u \<and> l \<in> {Login h, Act h} \<and> quiet_change u w'" by blast
qed

lemma refines_login [refined]: "refines silentLogin"
proof (rule refines_step)
  fix now h req w resp w'
  assume left: "numbers_left w" and r: "silentLogin now h req w = Inr (resp, w')"
  then obtain p n fs where "w' = upd h (hold fs) (authenticateSessionNamed h p n w)"
    by (auto simp: silentLogin_def Let_def go_bind_Inr_iff)
  then have "quiet_change (authenticateSessionNamed h p n w) w'" by (simp add: quiet_upd quiet_refl)
  with lobby_step.login [OF left] show "\<exists>l u. lobby_step l w u \<and> l \<in> {Login h, Act h} \<and> quiet_change u w'" by blast
qed

lemma all_refine: "\<forall>(k, f) \<in> set registerDefaultHandlers. refines f"
  unfolding registerDefaultHandlers_def by (simp add: refined)

section \<open>Dispatch\<close>

lemmas protocol_numbers = ComponentAuthentication_def ComponentGameManager_def ComponentRedirector_def
  ComponentUtility_def ComponentAssociation_def ComponentGameReporting_def ComponentAutolog_def
  ComponentUserSessions_def CommandLogin_def CommandSilentLogin_def CommandLogout_def CommandPostAuth_def
  CommandUserSettingsLoad_def CommandSetMetrics_def CommandUpdateNetworkInfo_def CommandUpdateHardware_def
  CommandGetTelemetry_def CommandCreateWalSession_def CommandGetAccount_def CommandListEntitlements_def
  CommandGetLists_def CommandGetBestScores_def CommandSubmitGameReport_def CommandSubmitOfflineGame_def
  CommandAdvanceGameState_def CommandSetGameSettings_def CommandSetPlayerCapacity_def CommandSetGameAttrs_def
  CommandSetPlayerAttrs_def CommandRemovePlayer_def CommandStartMatchmaking_def CommandCancelMatchmaking_def
  CommandFinalizeGame_def CommandReplayGame_def CommandResetDedicated_def CommandUpdateMesh_def

lemma distinct_keys: "distinct (map fst registerDefaultHandlers)"
  unfolding registerDefaultHandlers_def key_def protocol_numbers by simp

lemma fold_update_distinct:
  "distinct (map fst (hs @ ks)) \<Longrightarrow> fold (\<lambda>(k, f) hs. AList.update k f hs) ks hs = hs @ ks"
proof (induction ks arbitrary: hs)
  case (Cons k ks)
  obtain c f where k: "k = (c, f)" by (cases k)
  have "c \<notin> fst ` set hs" using Cons.prems k by (auto simp: image_iff)
  then have "AList.update c f hs = hs @ [(c, f)]" by (rule update_fresh)
  with Cons.IH [of "hs @ [(c, f)]"] Cons.prems show ?case by (simp add: k)
qed simp

lemma Handlers_registered: "Handlers = registerDefaultHandlers"
  using fold_update_distinct [of "[]" registerDefaultHandlers] distinct_keys by (simp add: Handlers_def)

text \<open>
  Claim C29. No two registrations collide: every registered handler is the one its component and
  command number select.
\<close>

theorem dispatch_complete:
  assumes "(k, f) \<in> set registerDefaultHandlers"
  shows "map_of Handlers k = Some f"
  unfolding Handlers_registered by (rule map_of_is_SomeI [OF distinct_keys assms])

theorem dispatch_complete_witness:
  "map_of Handlers (key ComponentAuthentication CommandLogout) = Some acknowledge"
  by (rule dispatch_complete) (simp add: registerDefaultHandlers_def)

lemma flush_loop_keeps:
  "PersonaID (flush_loop d fs s) = PersonaID s \<and> GameID (flush_loop d fs s) = GameID s \<and>
   QueuedMatchID (flush_loop d fs s) = QueuedMatchID s"
proof (induction d fs s rule: flush_loop.induct)
  case (2 d f fs s)
  show ?case
    using 2 enqueue_keeps [of "\<lparr>frame = f, delay = d\<rparr>" s]
    by (cases "enqueue \<lparr>frame = f, delay = d\<rparr> s"; cases "fst (enqueue \<lparr>frame = f, delay = d\<rparr> s)") auto
qed simp

lemma keeps_flush: "keeps_place (\<lambda>s. flushNotifications (snd (enqueue x s)))"
  by (simp add: keeps_place_def flushNotifications_def flush_loop_keeps enqueue_keeps)

lemma serve_request_steps:
  assumes "live w h" and "numbers_left w" and s: "serve_request now h request w = Inr (goes_on, w')"
  shows "\<exists>ms. path lobby_step w ms w' \<and> set ms \<subseteq> {Login h, Act h, Deliver}"
proof (cases "map_of Handlers (key (Component (Header request)) (Command (Header request)))")
  case None
  with s show ?thesis by (simp add: serve_request_def) (use path_nil in fastforce)
next
  case (Some f)
  then have "refines f" using all_refine unfolding Handlers_registered by (auto dest!: map_of_SomeD)
  moreover from s Some obtain resp u where u: "f now h request w = Inr (resp, u)"
    and rest: "(case enqueue \<lparr>frame = resp, delay = 0\<rparr> (heap u h) of
            (False, _) \<Rightarrow> Inr (False, u)
          | (True, s) \<Rightarrow> Inr (True, upd h (\<lambda>_. flushNotifications s) u)) = (Inr (goes_on, w') :: (bool \<times> Server) go)"
    by (auto simp: serve_request_def go_bind_Inr_iff)
  ultimately obtain ms where ms: "path lobby_step w ms u" "set ms \<subseteq> {Login h, Act h, Deliver}"
    using assms(1,2) unfolding refines_def by blast
  have "quiet_change u w'"
  proof (cases "fst (enqueue \<lparr>frame = resp, delay = 0\<rparr> (heap u h))")
    case False
    with rest show ?thesis by (auto simp: quiet_refl split: prod.splits bool.splits)
  next
    case True
    with rest have "w' = upd h (\<lambda>s. flushNotifications (snd (enqueue \<lparr>frame = resp, delay = 0\<rparr> s))) u"
      by (auto simp: upd_def split: prod.splits bool.splits)
    then show ?thesis using quiet_upd [OF keeps_flush quiet_refl] by simp
  qed
  then have "path lobby_step w (ms @ [Deliver]) w'"
    using ms(1) by (auto intro!: path_append path_one lobby_step.quiet simp: quiet_change_def)
  with ms(2) show ?thesis by (intro exI [of _ "ms @ [Deliver]"]) auto
qed

text \<open>
  Claim C9. Serving one request is a sequence of critical sections of the session that sent it,
  so a reachable server stays reachable and keeps the lobby invariant, whatever the request,
  and the session stays registered.
\<close>

theorem serve_request_refines:
  assumes run: "run lobby_start lobby_step ls w" and "live w h" and "numbers_left w"
    and s: "serve_request now h request w = Inr (goes_on, w')"
  shows "(\<exists>ms. run lobby_start lobby_step (ls @ ms) w' \<and> set ms \<subseteq> {Login h, Act h, Deliver}) \<and>
    lobby_ok False w' \<and> live w' h"
proof -
  obtain ms where ms: "path lobby_step w ms w'" "set ms \<subseteq> {Login h, Act h, Deliver}"
    using serve_request_steps [OF assms(2-4)] by blast
  have ok: "lobby_ok False w" by (rule lobby.run_inv [OF run])
  have "live w' h" using ms(2) by (intro alive.path_stable [OF ms(1) ok assms(2)]) auto
  moreover have "lobby_ok False w'" by (rule lobby.path_inv [OF ms(1) ok])
  moreover have "run lobby_start lobby_step (ls @ ms) w'" by (rule run_path [OF ms(1) run])
  ultimately show ?thesis using ms(2) by blast
qed

end
