(* ===== verification/Clean_Requests.thy ===== *)
theory Clean_Requests
  imports Lobby_Handlers
begin

text \<open>
  Requests that cannot end the process.  The encoder panics for an empty list or map outside a
  struct field, and matchmaking panics when it compares values of an uncomparable type; a server
  whose stored values have neither, given such a request, never panics and stays that way.
\<close>

section \<open>Values that can be written and compared\<close>

definition enc_fields :: "fields \<Rightarrow> bool" where
  "enc_fields fs \<longleftrightarrow> (\<forall>(t, v) \<in> set fs. isEmptyCollection v \<or> encodable v)"

definition enc_map :: "tmap \<Rightarrow> bool" where
  "enc_map m \<longleftrightarrow> (\<forall>(k, v) \<in> set m. encodable k \<and> encodable v)"

definition comparable_map :: "tmap \<Rightarrow> bool" where
  "comparable_map m \<longleftrightarrow> (\<forall>k \<in> set match_keys. \<forall>v. map_of m (TStr k) = Some v \<longrightarrow> hashable v)"

definition clean_session :: "Session \<Rightarrow> bool" where
  "clean_session s \<longleftrightarrow> (\<forall>a. NetworkAddress s = Some a \<longrightarrow> enc_fields a) \<and>
     (\<forall>q. NetworkQOS s = Some q \<longrightarrow> enc_fields q)"

definition clean_game :: "Game \<Rightarrow> bool" where
  "clean_game g \<longleftrightarrow> enc_map (Attrs g) \<and> comparable_map (Attrs g) \<and>
     (\<forall>p m. map_of (PlayerAttrs g) p = Some m \<longrightarrow> enc_map m)"

definition clean_server :: "Server \<Rightarrow> bool" where
  "clean_server w \<longleftrightarrow> (\<forall>h. clean_session (heap w h)) \<and> (\<forall>k g. map_of (games w) k = Some g \<longrightarrow> clean_game g) \<and>
     (\<forall>r \<in> set (matchQueue w). enc_map (attrs r) \<and> comparable_map (attrs r))"

text \<open>A request whose attributes, address, quality of service and capacities can be echoed.\<close>

definition clean_request :: "Frame \<Rightarrow> bool" where
  "clean_request req \<longleftrightarrow>
     (let fs = frame_fields req in
      enc_map (map_field fs ''ATTR'') \<and> comparable_map (map_field fs ''ATTR'') \<and>
      (\<forall>a. networkAddress (map_of fs ''ADDR'') = Some a \<longrightarrow> enc_fields a) \<and>
      (\<forall>q. as_struct (map_of fs ''NQOS'') = Some q \<longrightarrow> enc_fields q) \<and>
      (\<forall>x \<in> set (list_field fs ''PCAP''). encodable x))"

lemma EncodeTDF_ok: "enc_fields fs \<Longrightarrow> \<exists>b. EncodeTDF fs = Inr b"
  using encodeStruct_ok [of fs True] by (simp add: EncodeTDF_def enc_fields_def)

lemma enc_fields_simps [simp]:
  "enc_fields []" "enc_fields ((t, v) # fs) \<longleftrightarrow> (isEmptyCollection v \<or> encodable v) \<and> enc_fields fs"
  by (simp_all add: enc_fields_def)

lemma encodable_struct [simp]: "encodable (TStruct fs) = enc_fields fs" "encodable (TArmed a fs) = enc_fields fs"
  by (simp_all add: enc_fields_def)

lemma encodable_map [simp]: "isEmptyCollection (TMap m) \<or> encodable (TMap m) \<longleftrightarrow> enc_map m"
  by (auto simp: enc_map_def)

lemma enc_fields_update: "enc_fields fs \<Longrightarrow> encodable v \<Longrightarrow> enc_fields (AList.update t v fs)"
  by (induction fs) auto

declare encodable.simps(1,2) [simp del]

section \<open>What is published\<close>

lemma enc_emptyQOS [simp]: "enc_fields emptyQOS"
  by (simp add: emptyQOS_def)

lemma enc_sessionQOS [simp]: "clean_session s \<Longrightarrow> enc_fields (sessionQOS s)"
  by (auto simp: sessionQOS_def clean_session_def split: option.splits)

lemma enc_sessionIPPair [simp]: "clean_session s \<Longrightarrow> enc_fields (sessionIPPair s)"
  by (auto simp: sessionIPPair_def clean_session_def Let_def split: option.splits)

lemma enc_extended [simp]: "enc_fields syntheticUserSessionExtendedData"
  by (simp add: syntheticUserSessionExtendedData_def)

lemma userNotifications_ok: "clean_session s \<Longrightarrow> \<exists>fs. userNotificationsFor s = Inr fs"
proof -
  assume c: "clean_session s"
  let ?d = "AList.update ''QDAT'' (TStruct (sessionQOS s))
            (AList.update ''ADDR'' (TUnion 2 ''VALU'' (TStruct (sessionIPPair s))) syntheticUserSessionExtendedData)"
  have d: "enc_fields ?d" using c by (intro enc_fields_update) simp_all
  then obtain a where a: "EncodeTDF [(''DATA'', TStruct ?d), (''USER'', TStruct
           [(''AID'', TInt (AccountID s)), (''ALOC'', TInt 0), (''EXBB'', TBlob []),
            (''EXID'', TInt 0), (''ID'', TInt (canonicalPlayerID s)), (''NAME'', TStr (playerName s))])] = Inr a"
    using EncodeTDF_ok by fastforce
  from d obtain b where "EncodeTDF [(''DATA'', TStruct ?d), (''USID'', TInt (userSessionID s))] = Inr b"
    using EncodeTDF_ok by fastforce
  with a show ?thesis by (simp add: userNotificationsFor_def Let_def)
qed

lemma ensure_clean [simp]: "clean_game (ensureMembershipState H now g) = clean_game g"
  by (simp add: clean_game_def)

lemma get_clean: "clean_game g \<Longrightarrow> enc_map (get [] (PlayerAttrs g) p)"
  by (cases "map_of (PlayerAttrs g) p") (simp_all add: get_def clean_game_def, simp add: enc_map_def)

lemma replicated_clean:
  assumes "clean_game g" and "clean_session (H p)"
  shows "enc_fields (fst (replicatedGamePlayer H now g p)) \<and> clean_game (snd (replicatedGamePlayer H now g p))"
  using assms get_clean [of "ensureMembershipState H now g"]
  by (simp add: replicatedGamePlayer_def Let_def del: isEmptyCollection.simps(2) encodable.simps(5))

lemma replicate_clean:
  "clean_game g \<Longrightarrow> \<forall>h. clean_session (H h) \<Longrightarrow>
   (\<forall>x \<in> set (fst (replicate_players H now ms g)). encodable x) \<and> clean_game (snd (replicate_players H now ms g))"
proof (induction ms arbitrary: g)
  case (Cons m ms)
  obtain p g1 where r: "replicatedGamePlayer H now g m = (p, g1)" by fastforce
  with replicated_clean [of g H m now] Cons.prems have "enc_fields p" "clean_game g1" by simp_all
  with Cons.IH [of g1] Cons.prems(2) show ?case by (simp add: r split_beta)
qed simp

lemma gameSetup_clean:
  assumes "clean_game g" and "\<forall>h. clean_session (H h)"
  shows "enc_fields (fst (gameSetup H now g)) \<and> clean_game (snd (gameSetup H now g))"
proof -
  let ?r = "ensureMembershipState H now g"
  obtain ps g' where r: "replicate_players H now (Members g) ?r = (ps, g')" by fastforce
  have "\<forall>x \<in> set ps. encodable x" "clean_game g'"
    using replicate_clean [of ?r H now "Members g"] assms by (simp_all add: r)
  moreover have "enc_map (Attrs g)" using assms(1) by (simp add: clean_game_def)
  ultimately show ?thesis
    using assms(2) by (simp add: gameSetup_def Let_def r del: isEmptyCollection.simps(2) encodable.simps(5))
qed

lemma reason_encodable [simp]: "encodable (getMatchmakingReason a b c)"
  by (simp add: getMatchmakingReason_def)

section \<open>Operations on clean servers\<close>

definition keeps_net :: "(Session \<Rightarrow> Session) \<Rightarrow> bool" where
  "keeps_net f \<longleftrightarrow> (\<forall>s. NetworkAddress (f s) = NetworkAddress s \<and> NetworkQOS (f s) = NetworkQOS s)"

lemma enqueue_net:
  "NetworkAddress (snd (enqueue f s)) = NetworkAddress s" "NetworkQOS (snd (enqueue f s)) = NetworkQOS s"
  by (auto simp: enqueue_def split: option.splits)

lemma keeps_net_simps [simp]:
  "keeps_net (notify f)" "keeps_net (hold fs)" "keeps_net (\<lambda>s. snd (enqueue x s))"
  "keeps_net (\<lambda>s. (hold fs s)\<lparr>NotificationDelay := d\<rparr>)" "keeps_net (\<lambda>s. (hold fs s)\<lparr>PendingMatchmakingGame := k\<rparr>)"
  "keeps_net (\<lambda>s. s\<lparr>QueuedMatchID := k\<rparr>)" "keeps_net (\<lambda>s. s\<lparr>GameID := k\<rparr>)"
  "keeps_net (\<lambda>s. s\<lparr>PendingMatchmakingGame := k\<rparr>)"
  "keeps_net (\<lambda>s. s\<lparr>GameID := k, PendingMatchmakingGame := j\<rparr>)"
  "keeps_net (\<lambda>s. s\<lparr>GameID := k, PendingMatchmakingGame := j, QueuedMatchID := i\<rparr>)"
  "keeps_net (\<lambda>s. s\<lparr>AccountID := a, PersonaID := p, SessionID := i, Persona := n\<rparr>)"
  by (simp_all add: keeps_net_def notify_def hold_def enqueue_net)

named_theorems cleanI \<open>operations that keep a server clean\<close>

lemma clean_upd [cleanI]: "clean_server w \<Longrightarrow> keeps_net f \<Longrightarrow> clean_server (upd h f w)"
  by (simp add: clean_server_def keeps_net_def clean_session_def)

lemma clean_deliver [cleanI]: "clean_server w \<Longrightarrow> clean_server (deliver f h w)"
  by (simp add: deliver_def clean_upd)

lemma clean_fold: "clean_server w \<Longrightarrow> (\<And>x v. clean_server v \<Longrightarrow> clean_server (f x v)) \<Longrightarrow> clean_server (fold f xs w)"
  by (induction xs arbitrary: w) auto

lemma clean_deliver_all [cleanI]: "clean_server w \<Longrightarrow> clean_server (deliver_all fs h w)"
  unfolding deliver_all_def by (rule clean_fold) (auto intro: clean_deliver)

lemma clean_put [cleanI]: "clean_server w \<Longrightarrow> clean_game g \<Longrightarrow> clean_server (put_game g k w)"
  by (simp add: clean_server_def)

lemma clean_dequeue [cleanI]: "clean_server w \<Longrightarrow> clean_server (removeQueuedSessionLocked h w)"
  by (simp add: clean_server_def clean_session_def)

lemma clean_broadcast [cleanI]: "clean_server w \<Longrightarrow> clean_server (broadcast h k f w)"
  by (auto simp: broadcast_def Let_def intro: clean_fold clean_deliver)

lemma clean_each:
  "clean_server w \<Longrightarrow> (\<And>x v. x \<in> set xs \<Longrightarrow> clean_server v \<Longrightarrow> \<exists>v'. f x v = Inr v' \<and> clean_server v') \<Longrightarrow>
   \<exists>w'. each f xs w = Inr w' \<and> clean_server w'"
proof (induction xs arbitrary: w)
  case (Cons x xs)
  then obtain v where "f x w = Inr v" "clean_server v" by (metis list.set_intros(1))
  with Cons show ?case by simp
qed simp

lemma clean_heap: "clean_server w \<Longrightarrow> clean_session (heap w h)"
  by (simp add: clean_server_def)

lemma addMember_clean: "clean_game g \<Longrightarrow> clean_game (snd (addMember H now h g))"
  by (auto simp: addMember_def Let_def clean_game_def update_conv' enc_map_def split: option.splits if_splits)

lemma newGame_clean:
  assumes "enc_map a" and "comparable_map a"
  shows "clean_game (newGame H now i h ms a c t st)"
proof -
  have fold: "clean_game (fold (\<lambda>m g. snd (addMember H now m g)) ms g)" if "clean_game g" for g
    using that by (induction ms arbitrary: g) (simp_all add: addMember_clean)
  show ?thesis unfolding newGame_def by (rule fold) (simp add: clean_game_def assms)
qed

lemma refresh_clean [simp]: "clean_game (refreshMeshReadiness H g) = clean_game g"
proof -
  have "PlayerAttrs (refreshMeshReadiness H g) = PlayerAttrs g"
    by (simp add: refreshMeshReadiness_def refresh_loop)
  then show ?thesis by (simp add: clean_game_def)
qed

lemma left_clean: "clean_game g \<Longrightarrow> clean_game (left H h g)"
  by (auto simp: clean_game_def left_def removeMember_def Let_def delete_conv' split: if_splits)

section \<open>Matchmaking on clean servers\<close>

lemma go_eq_ok: "hashable v \<Longrightarrow> \<exists>r. go_eq v x = Inr r"
  by (rule go_eq_hashable)

lemma ex_not [simp]: "Ex Not"
  by (rule exI [of _ False]) simp

lemma game_keys_ok:
  "\<forall>k \<in> set ks. \<forall>v. map_of r (TStr k) = Some v \<longrightarrow> hashable v \<Longrightarrow> \<exists>b. game_keys ks r a = Inr b"
proof (induction ks)
  case (Cons k ks)
  show ?case
  proof (cases "map_of r (TStr k)")
    case (Some v)
    then have "hashable v" using Cons.prems by simp
    show ?thesis
    proof (cases "map_of a (TStr k)")
      case (Some x)
      obtain b where "go_eq v x = Inr b" using go_eq_hashable [OF \<open>hashable v\<close>] by blast
      with Some \<open>map_of r (TStr k) = Some v\<close> Cons show ?thesis by simp
    qed (simp add: Some)
  qed (use Cons in simp)
qed auto

lemma isCompatibleGame_ok: "comparable_map (attrs r) \<Longrightarrow> \<exists>b. isCompatibleGame g r = Inr b"
  using game_keys_ok [of match_keys] by (simp add: isCompatibleGame_def comparable_map_def)

lemma match_attrs_ok:
  "\<forall>k \<in> set ks. \<forall>v. map_of a (TStr k) = Some v \<longrightarrow> hashable v \<Longrightarrow> \<exists>r. match_attrs ks a b = Inr r"
proof (induction ks)
  case (Cons k ks)
  show ?case
  proof (cases "map_of a (TStr k)")
    case (Some v)
    then have "hashable v" using Cons.prems by simp
    show ?thesis
    proof (cases "map_of b (TStr k)")
      case (Some x)
      obtain r where "go_eq v x = Inr r" using go_eq_hashable [OF \<open>hashable v\<close>] by blast
      with Some \<open>map_of a (TStr k) = Some v\<close> Cons show ?thesis by simp
    qed (simp add: Some)
  qed (use Cons in \<open>simp split: option.splits\<close>)
qed auto

lemma isCompatibleMatch_ok: "comparable_map (attrs a) \<Longrightarrow> \<exists>r. isCompatibleMatch a b = Inr r"
  using match_attrs_ok [of match_keys] by (simp add: isCompatibleMatch_def comparable_map_def)

lemma join_loop_clean:
  assumes "clean_server w" and "comparable_map (attrs r)"
  shows "\<exists>res w'. join_loop now r ids w = Inr (res, w') \<and> clean_server w' \<and>
    (\<forall>g. res = Some g \<longrightarrow> clean_game g)"
  using assms(1)
proof (induction ids arbitrary: w)
  case (Cons k ids)
  show ?case
  proof (cases "map_of (games w) k")
    case None
    with Cons show ?thesis by simp
  next
    case (Some g)
    obtain b where b: "isCompatibleGame g r = Inr b" using isCompatibleGame_ok [OF assms(2)] by blast
    obtain slot added g' where a: "addMember (heap w) now (session r) g = ((slot, added), g')" by (metis surj_pair)
    have "clean_game g" using Cons.prems Some by (simp add: clean_server_def)
    then have "clean_game g'" using addMember_clean [of g "heap w" now "session r"] a by simp
    moreover from this have "clean_server (put_game g' k w)" using Cons.prems by (simp add: clean_put)
    ultimately show ?thesis using Cons Some b a by (cases b; cases added) simp_all
  qed
qed simp

lemma find_match_ok:
  "\<forall>x \<in> set q. comparable_map (attrs x) \<Longrightarrow> \<exists>i. find_match q r n = Inr i"
proof (induction q arbitrary: n)
  case (Cons x q)
  obtain b where "isCompatibleMatch x r = Inr b" using isCompatibleMatch_ok Cons.prems by (meson list.set_intros(1))
  with Cons show ?case by (cases b) simp_all
qed simp

lemma join_game_clean:
  assumes "clean_server w" and g: "clean_game g"
  shows "\<exists>g' a b w'. join_game now r g w = Inr (Joined g' r a b, w') \<and> clean_server w'"
proof -
  define h where "h = session r"
  define u where "u = upd h (\<lambda>s. s\<lparr>GameID := ID g, PendingMatchmakingGame := ID g, QueuedMatchID := 0\<rparr>) w"
  have u: "clean_server u" unfolding u_def by (rule clean_upd [OF assms(1)]) simp
  then have H: "\<forall>h. clean_session (heap u h)" by (simp add: clean_heap)
  obtain p g1 where g1: "replicatedGamePlayer (heap u) now g h = (p, g1)" by fastforce
  obtain st g2 where g2: "gameSetup (heap u) now g1 = (st, g2)" by fastforce
  have p: "enc_fields p" "clean_game g1"
    using replicated_clean [OF g, of "heap u" h now] H by (simp_all add: g1)
  then have st: "enc_fields st" "clean_game g2" using gameSetup_clean [OF p(2) H, of now] by (simp_all add: g2)
  from p have "enc_fields [(''GID'', TInt (ID g1)), (''PDAT'', TStruct (AList.update ''STAT'' (TInt 2) p))]"
    by (simp add: enc_fields_update)
  then obtain a where a: "EncodeTDF [(''GID'', TInt (ID g1)), (''PDAT'', TStruct (AList.update ''STAT'' (TInt 2) p))] = Inr a"
    using EncodeTDF_ok by blast
  have "enc_fields (AList.update ''REAS'' (getMatchmakingReason (msid r) 1 (userSessionID (heap u h))) st)"
    using st by (simp add: enc_fields_update)
  then obtain b where "EncodeTDF (AList.update ''REAS'' (getMatchmakingReason (msid r) 1 (userSessionID (heap u h))) st) = Inr b"
    using EncodeTDF_ok by blast
  with a have "join_game now r g w = Inr (Joined g2 r a b, put_game g2 (ID g2) u)"
    unfolding join_game_def Let_def h_def [symmetric] u_def [symmetric] by (simp add: g1 g2)
  with clean_put [OF u st(2)] show ?thesis by blast
qed

lemma pair_up_clean:
  assumes w: "clean_server w" and i: "i < length (matchQueue w)"
  shows "\<exists>q g a b w'. pair_up now r i w = Inr (Paired q g a b, w') \<and> clean_server w'"
proof -
  define h where "h = session r"
  define q where "q = matchQueue w ! i"
  define gid where "gid = nextGameID w"
  define g0 where "g0 = newGame (heap w) now gid (session q) [session q, h] (attrs q) (cap q) (topology q) 1"
  define w1 where "w1 = w\<lparr>matchQueue := take i (matchQueue w) @ drop (Suc i) (matchQueue w),
    nextGameID := gid + 1, games := AList.update gid g0 (games w)\<rparr>"
  define u where "u = fold (start_member gid) (Members g0) w1"
  obtain st1 g1 where g1: "gameSetup (heap u) now g0 = (st1, g1)" by fastforce
  obtain st2 g2 where g2: "gameSetup (heap u) now g1 = (st2, g2)" by fastforce
  have q: "q \<in> set (matchQueue w)" using i by (simp add: q_def)
  then have c0: "clean_game g0"
    using w unfolding g0_def by (intro newGame_clean) (auto simp: clean_server_def)
  have "clean_server w1"
    using w c0 by (auto simp: clean_server_def w1_def update_conv' dest: in_set_takeD in_set_dropD)
  then have u: "clean_server u"
    unfolding u_def by (rule clean_fold) (simp add: start_member_def clean_upd)
  then have H: "\<forall>h. clean_session (heap u h)" by (simp add: clean_heap)
  have st1: "enc_fields st1" "clean_game g1" using gameSetup_clean [OF c0 H, of now] by (simp_all add: g1)
  then have st2: "enc_fields st2" "clean_game g2" using gameSetup_clean [OF st1(2) H, of now] by (simp_all add: g2)
  have "enc_fields (AList.update ''REAS'' (getMatchmakingReason (msid q) 0 (userSessionID (heap u (session q)))) st1)"
    and "enc_fields (AList.update ''REAS'' (getMatchmakingReason (msid r) 1 (userSessionID (heap u h))) st2)"
    using st1 st2 by (simp_all add: enc_fields_update)
  then obtain a b where "EncodeTDF (AList.update ''REAS'' (getMatchmakingReason (msid q) 0 (userSessionID (heap u (session q)))) st1) = Inr a"
    "EncodeTDF (AList.update ''REAS'' (getMatchmakingReason (msid r) 1 (userSessionID (heap u h))) st2) = Inr b"
    using EncodeTDF_ok by meson
  then have "pair_up now r i w = Inr (Paired q g2 a b, put_game g2 gid u)"
    unfolding pair_up_def Let_def h_def [symmetric] q_def [symmetric] gid_def [symmetric] g0_def [symmetric]
      w1_def [symmetric] u_def [symmetric] by (simp add: g1 g2)
  with clean_put [OF u st2(2)] show ?thesis by blast
qed

lemma queueMatch_locked_clean:
  assumes w: "clean_server w" and req: "clean_request req"
  shows "\<exists>ms out w'. queueMatch_locked now h req w = Inr ((ms, out), w') \<and> clean_server w'"
proof -
  define ms where "ms = nextMatchID w"
  define w1 where "w1 = w\<lparr>nextMatchID := ms + 1\<rparr>"
  define u where "u = removeQueuedSessionLocked h (upd h (\<lambda>s. s\<lparr>GameID := 0\<rparr>) w1)"
  define c where "c = \<lparr>session = h, attrs = map_field (frame_fields req) ''ATTR'',
    cap = getMatchmakingCapacity req, topology = getMatchmakingTopology req, msid = ms\<rparr>"
  have c: "comparable_map (attrs c)" "enc_map (attrs c)"
    using req by (simp_all add: c_def clean_request_def Let_def)
  have w1: "clean_server w1" using w by (simp add: w1_def clean_server_def)
  then have u: "clean_server u" unfolding u_def by (intro clean_dequeue clean_upd) simp_all
  obtain res v where j: "join_loop now c (sort_key sint (map fst (games u))) u = Inr (res, v)"
    and v: "clean_server v" "\<forall>g. res = Some g \<longrightarrow> clean_game g"
    using join_loop_clean [OF u c(1)] by blast
  have "\<exists>out w'. (case res of
            Some game \<Rightarrow> go_bind (join_game now c game v) (\<lambda>(out, w4). Inr ((ms, out), w4))
          | None \<Rightarrow>
              go_bind (find_match (matchQueue v) c 0) (\<lambda>matchIndex.
                case matchIndex of
                  None \<Rightarrow>
                    Inr ((ms, Queued),
                      upd h (\<lambda>s. s\<lparr>QueuedMatchID := ms\<rparr>) (v\<lparr>matchQueue := matchQueue v @ [c]\<rparr>))
                | Some i \<Rightarrow> go_bind (pair_up now c i v) (\<lambda>(out, w4). Inr ((ms, out), w4))))
      = Inr ((ms, out), w') \<and> clean_server w'"
  proof (cases res)
    case (Some g)
    with v join_game_clean [of v g now c] show ?thesis by fastforce
  next
    case None
    obtain mi where f: "find_match (matchQueue v) c 0 = Inr mi"
      using find_match_ok [of "matchQueue v" c 0] v(1) by (auto simp: clean_server_def)
    show ?thesis
    proof (cases mi)
      case None
      have "clean_server (v\<lparr>matchQueue := matchQueue v @ [c]\<rparr>)" using v(1) c by (auto simp: clean_server_def)
      then show ?thesis using \<open>res = None\<close> None f by (simp add: clean_upd)
    next
      case (Some i)
      then have "i < length (matchQueue v)" using find_match_hit f by fastforce
      from pair_up_clean [OF v(1) this, of now c] show ?thesis using \<open>res = None\<close> Some f by fastforce
    qed
  qed
  then show ?thesis
    using w1 j unfolding queueMatch_locked_def Let_def ms_def [symmetric] w1_def [symmetric] u_def [symmetric]
      c_def [symmetric] by (auto split: if_splits)
qed

section \<open>Handlers on clean servers\<close>

definition safe :: "handler \<Rightarrow> bool" where
  "safe f \<longleftrightarrow> (\<forall>now h req w. clean_server w \<longrightarrow> clean_request req \<longrightarrow>
     (\<exists>resp w'. f now h req w = Inr (resp, w') \<and> clean_server w'))"

named_theorems safety \<open>handlers that do not panic on clean requests\<close>

lemma safeI:
  "(\<And>now h req w. clean_server w \<Longrightarrow> clean_request req \<Longrightarrow>
      \<exists>resp w'. f now h req w = Inr (resp, w') \<and> clean_server w') \<Longrightarrow> safe f"
  by (simp add: safe_def)

lemma reply_fields_ok: "enc_fields fs \<Longrightarrow> clean_server w \<Longrightarrow> \<exists>resp w'. reply_fields fs now h req w = Inr (resp, w') \<and> clean_server w'"
  using EncodeTDF_ok [of fs] by (auto simp: reply_fields_def)

lemma safe_acknowledge [safety]: "safe acknowledge"
  by (simp add: safe_def acknowledge_def)

lemma captured_replies:
  "\<exists>b. mustHex redirectorHex = Inr b" "\<exists>b. mustHex preAuthHex = Inr b" "\<exists>b. mustHex utilityGameHex = Inr b"
  "\<exists>b. mustHex loginRejectedHex = Inr b" "\<exists>b. mustHex ''cf4a6d00'' = Inr b"
  by (simp_all add: mustHex_def hex_digit_def redirectorHex_def preAuthHex_def utilityGameHex_def loginRejectedHex_def
      Let_def byte_of_def)


lemma reply_hex_ok: "\<exists>b. mustHex s = Inr b \<Longrightarrow> clean_server w \<Longrightarrow> \<exists>resp w'. reply_hex s now h req w = Inr (resp, w') \<and> clean_server w'"
  by (auto simp: reply_hex_def)

lemma safe_constant [safety]:
  "safe (reply_hex redirectorHex)" "safe (reply_hex preAuthHex)" "safe ping" "safe rejectLogin"
  using captured_replies by (auto simp: safe_def reply_hex_ok ping_def rejectLogin_def)

lemma safe_fields: "enc_fields fs \<Longrightarrow> safe (reply_fields fs)"
  by (simp add: safe_def reply_fields_ok)

lemma safe_replies [safety]:
  "safe postAuth" "safe getBestScores" "safe getTelemetry" "safe createWalSession" "safe getLists"
  unfolding postAuth_def getBestScores_def getTelemetry_def createWalSession_def getLists_def
  by (rule safe_fields; simp)+

lemma safe_settings [safety]: "safe userSettingsLoad" "safe getAccount" "safe listEntitlements"
  unfolding userSettingsLoad_def getAccount_def listEntitlements_def Let_def
  by (rule safeI; rule reply_fields_ok; simp)+

lemma safe_config [safety]: "safe utilityConfig"
proof (rule safeI)
  fix now h req w
  assume w: "clean_server w"
  show "\<exists>resp w'. utilityConfig now h req w = Inr (resp, w') \<and> clean_server w'"
  proof (cases "map_of (frame_fields req) ''CFID'' = Some (TStr ''Game'')")
    case True
    with w captured_replies(3) show ?thesis by (simp add: utilityConfig_def reply_hex_ok)
  next
    case False
    then show ?thesis unfolding utilityConfig_def if_not_P [OF False]
      by (intro reply_fields_ok [OF _ w]) (simp add: enc_map_def)
  qed
qed

lemma safe_network [safety]: "safe updateNetworkInfo"
proof (rule safeI)
  fix now h req w
  assume w: "clean_server w" and req: "clean_request req"
  let ?fs = "frame_fields req"
  define v where "v = (case networkAddress (map_of ?fs ''ADDR'') of
    Some address \<Rightarrow> upd h (\<lambda>s. s\<lparr>NetworkAddress := Some address\<rparr>) w | None \<Rightarrow> w)"
  have "clean_server v"
    using w req by (auto simp: v_def clean_request_def Let_def clean_server_def clean_session_def split: option.splits)
  then have "clean_server (case as_struct (map_of ?fs ''NQOS'') of
       Some qos \<Rightarrow> upd h (\<lambda>s. s\<lparr>NetworkQOS := Some qos\<rparr>) v | None \<Rightarrow> v)"
    using req by (auto simp: clean_request_def Let_def clean_server_def clean_session_def split: option.splits)
  then show "\<exists>resp w'. updateNetworkInfo now h req w = Inr (resp, w') \<and> clean_server w'"
    unfolding updateNetworkInfo_def Let_def v_def [symmetric] by simp
qed

lemma game_notification_ok: "enc_fields fs \<Longrightarrow> \<exists>f. game_notification c fs = Inr f"
  using EncodeTDF_ok [of fs] by (auto simp: game_notification_def)

lemma safe_finalize [safety]: "safe finalizeGame"
proof (rule safeI)
  fix now h req w
  assume "clean_server w"
  have "\<exists>f. game_notification NotifyPlatformHost [(''GID'', TInt k), (''PHST'', TInt 0)] = Inr f" for k
    by (rule game_notification_ok) simp
  then obtain F where "\<And>k. game_notification NotifyPlatformHost [(''GID'', TInt k), (''PHST'', TInt 0)] = Inr (F k)"
    by metis
  with \<open>clean_server w\<close> show "\<exists>resp w'. finalizeGame now h req w = Inr (resp, w') \<and> clean_server w'"
    by (simp add: finalizeGame_def Let_def clean_upd)
qed

lemma set_and_broadcast_ok:
  assumes "clean_server w" and "enc_fields fs" and "\<And>g. clean_game g \<Longrightarrow> clean_game (f g)"
  shows "\<exists>resp w'. set_and_broadcast c fs k f now h req w = Inr (resp, w') \<and> clean_server w'"
proof -
  have "clean_server (set_game k f w)"
    using assms(1,3) by (auto simp: set_game_def clean_server_def split: option.splits)
  then show ?thesis
    using game_notification_ok [OF assms(2), of c] by (auto simp: set_and_broadcast_def Let_def clean_broadcast)
qed

lemma safe_set [safety]:
  "safe advanceGameState" "safe setGameAttributes" "safe setGameSettings" "safe setPlayerCapacity"
  unfolding advanceGameState_def setGameAttributes_def setGameSettings_def setPlayerCapacity_def Let_def
  by (rule safeI; rule set_and_broadcast_ok;
      auto simp: clean_request_def Let_def clean_game_def simp del: isEmptyCollection.simps(2) encodable.simps(5)
        split: list.splits tdf.splits)+

lemma safe_replay [safety]: "safe replayGame"
proof (rule safeI)
  fix now h req w
  assume w: "clean_server w"
  have "\<exists>resp w'. set_and_broadcast NotifyGameState [(''GID'', TInt k), (''GSTA'', TInt 130)]
             k (\<lambda>g. g\<lparr>State := 130\<rparr>) now h req w = Inr (resp, w') \<and> clean_server w'" for k
    by (rule set_and_broadcast_ok [OF w]) (simp_all add: clean_game_def)
  with w show "\<exists>resp w'. replayGame now h req w = Inr (resp, w') \<and> clean_server w'"
    by (simp add: replayGame_def Let_def)
qed

lemma safe_create [safety]: "safe resetDedicated"
proof (rule safeI)
  fix now h req w
  assume w: "clean_server w" and req: "clean_request req"
  define e where "e = (case map_of (games w) (GameID (heap w h)) of
      Some existing \<Rightarrow> if sessionForPlayerID (heap w) existing (PersonaID (heap w h)) = Some h then Some existing else None
    | None \<Rightarrow> None)"
  have "\<exists>k st u. resetDedicated_locked now h req w = Inr ((k, st), u) \<and> clean_server u"
  proof (cases e)
    case (Some x)
    then show ?thesis using w by (simp add: resetDedicated_locked_def Let_def e_def)
  next
    case None
    define w1 where "w1 = removeQueuedSessionLocked h (upd h (\<lambda>s. s\<lparr>GameID := 0\<rparr>) w)"
    define gid where "gid = nextGameID w1"
    define g where "g = newGame (heap w1) now gid h [h] (map_field (frame_fields req) ''ATTR'')
      (getMatchmakingCapacity req) (getMatchmakingTopology req) 1"
    define w2 where "w2 = upd h (\<lambda>s. s\<lparr>GameID := gid\<rparr>)
      (w1\<lparr>nextGameID := gid + 1, games := AList.update gid g (games w1)\<rparr>)"
    obtain st g' where gs: "gameSetup (heap w2) now g = (st, g')" by fastforce
    have g: "clean_game g" unfolding g_def using req by (intro newGame_clean) (simp_all add: clean_request_def Let_def)
    have "clean_server w1" unfolding w1_def using w by (intro clean_dequeue clean_upd) simp_all
    then have "clean_server (w1\<lparr>nextGameID := gid + 1, games := AList.update gid g (games w1)\<rparr>)"
      using g by (simp add: clean_server_def update_conv')
    then have w2: "clean_server w2" unfolding w2_def by (rule clean_upd) simp
    then have "enc_fields st" "clean_game g'"
      using gameSetup_clean [OF g, of "heap w2" now] by (simp_all add: gs clean_heap)
    then show ?thesis
      using EncodeTDF_ok [of st] clean_put [OF w2, of g' gid] None
      unfolding resetDedicated_locked_def Let_def e_def [symmetric] w1_def [symmetric] gid_def [symmetric]
        g_def [symmetric] w2_def [symmetric] by (auto simp: gs)
  qed
  then obtain k st u where u: "resetDedicated_locked now h req w = Inr ((k, st), u)" "clean_server u" by blast
  then have "clean_server (case st of
        Some payload \<Rightarrow> upd h (hold [notification ComponentGameManager NotifyGameSetup payload]) u | None \<Rightarrow> u)"
    by (auto simp: clean_upd split: option.splits)
  from reply_fields_ok [OF _ this, of "[(''GID'', TInt k)]" now h req]
  show "\<exists>resp w'. resetDedicated now h req w = Inr (resp, w') \<and> clean_server w'"
    by (simp add: resetDedicated_def u(1))
qed

lemma EncodeTDF_fails: "EncodeTDF fs = Inl e \<Longrightarrow> \<not> enc_fields fs"
  using EncodeTDF_ok by fastforce

lemma clean_notify_removed:
  assumes "clean_server w"
  shows "\<exists>w'. notify_removed k p c r b m w = Inr w' \<and> clean_server w'"
proof -
  obtain f1 f2 where "playerRemovedNotification k p c r = Inr f1" "gameRemovedNotification k 2 = Inr f2"
    unfolding playerRemovedNotification_def gameRemovedNotification_def
    using game_notification_ok [of _ NotifyPlayerRemoved] game_notification_ok [of _ NotifyGameRemoved] by fastforce
  with assms show ?thesis by (simp add: notify_removed_def clean_deliver)
qed

lemma enc_map_Cons [simp]: "enc_map ((k, v) # m) \<longleftrightarrow> encodable k \<and> encodable v \<and> enc_map m"
  by (simp add: enc_map_def)

lemma tmap_put_enc: "enc_map m \<Longrightarrow> encodable k \<Longrightarrow> encodable v \<Longrightarrow> enc_map (tmap_put k v m)"
  by (induction k v m rule: tmap_put.induct) (auto simp: enc_map_def [of "[]"])

lemma merged_enc: "enc_map ats \<Longrightarrow> enc_map m \<Longrightarrow> enc_map (fold (\<lambda>(k, v). tmap_put k v) ats m)"
  by (induction ats arbitrary: m) (auto simp: tmap_put_enc)

lemma safe_attrs [safety]: "safe setPlayerAttributes"
proof (rule safeI)
  fix now h req w
  assume w: "clean_server w" and req: "clean_request req"
  define k where "k = int_field (frame_fields req) ''GID''"
  define p where "p = int_field (frame_fields req) ''PID''"
  define ats where "ats = map_field (frame_fields req) ''ATTR''"
  have ats: "enc_map ats" using req by (simp add: clean_request_def Let_def ats_def)
  have noted: "\<exists>f. game_notification NotifyPlayerAttrs [(''ATTR'', TMap ats), (''GID'', TInt k), (''PID'', TInt q)] = Inr f" for q
    by (rule game_notification_ok) (use ats in \<open>simp del: isEmptyCollection.simps(2) encodable.simps(5)\<close>)
  have "\<exists>w'. broadcastPlayerAttributes now h k p ats w = Inr w' \<and> clean_server w'"
  proof (cases "map_of (games w) k")
    case None
    obtain f where "game_notification NotifyPlayerAttrs [(''ATTR'', TMap ats), (''GID'', TInt k), (''PID'', TInt p)] = Inr f"
      using noted by blast
    with None w show ?thesis by (simp add: broadcastPlayerAttributes_def clean_deliver)
  next
    case (Some g)
    have g: "clean_game g" using w Some by (simp add: clean_server_def)
    obtain r u where u: "setPlayerAttrs_locked now h k p ats w = (r, u)" by fastforce
    have pg: "clean_server (put_game ((ensureMembershipState (heap w) now g)\<lparr>PlayerAttrs :=
        AList.update q (fold (\<lambda>(k, v). tmap_put k v) ats (get [] (PlayerAttrs g) q)) (PlayerAttrs g)\<rparr>) k w)" for q
      using g merged_enc [OF ats get_clean [OF g]]
      by (intro clean_put [OF w]) (auto simp: clean_game_def update_conv')
    have "clean_server (snd (setPlayerAttrs_locked now h k p ats w))"
      using w pg by (auto simp: setPlayerAttrs_locked_def Some Let_def split: option.splits)
    then have cu: "clean_server u" by (simp add: u)
    show ?thesis
    proof (cases r)
      case None
      with Some u cu show ?thesis by (simp add: broadcastPlayerAttributes_def)
    next
      case (Some x)
      obtain player ms where x: "x = (player, ms)" by (cases x)
      have "\<exists>w'. each (\<lambda>m w. go_bind (game_notification NotifyPlayerAttrs
          [(''ATTR'', TMap ats), (''GID'', TInt k), (''PID'', TInt (canonicalPlayerID (heap w player)))])
          (\<lambda>f. Inr (deliver f m w))) ms u = Inr w' \<and> clean_server w'"
      proof (rule clean_each [OF cu])
        fix m v assume "clean_server v"
        moreover obtain f where "game_notification NotifyPlayerAttrs
          [(''ATTR'', TMap ats), (''GID'', TInt k), (''PID'', TInt (canonicalPlayerID (heap v player)))] = Inr f"
          using noted by blast
        ultimately show "\<exists>v'. go_bind (game_notification NotifyPlayerAttrs
          [(''ATTR'', TMap ats), (''GID'', TInt k), (''PID'', TInt (canonicalPlayerID (heap v player)))])
          (\<lambda>f. Inr (deliver f m v)) = Inr v' \<and> clean_server v'"
          by (simp add: clean_deliver)
      qed
      with Some \<open>map_of (games w) k = Some g\<close> u x show ?thesis by (simp add: broadcastPlayerAttributes_def)
    qed
  qed
  then show "\<exists>resp w'. setPlayerAttributes now h req w = Inr (resp, w') \<and> clean_server w'"
    by (auto simp: setPlayerAttributes_def Let_def k_def p_def ats_def)
qed

lemma clean_release: "clean_server w \<Longrightarrow> clean_server (fold release_member ms w)"
  by (rule clean_fold) (simp_all add: release_member_def clean_upd)

lemma clean_drop:
  "clean_server v \<Longrightarrow> games v = games w \<Longrightarrow> clean_server (v\<lparr>games := AList.delete k (games w)\<rparr>)"
  by (auto simp: clean_server_def delete_conv')

lemma removePlayer_locked_clean:
  assumes w: "clean_server w"
  shows "clean_server (snd (removePlayer_locked h k p w))"
proof -
  have v: "clean_server (upd t (\<lambda>s. s\<lparr>GameID := 0, PendingMatchmakingGame := 0\<rparr>) (removeQueuedSessionLocked t w))" for t
    using w by (intro clean_upd clean_dequeue) simp_all
  have g: "clean_game (refreshMeshReadiness H (left H' t g))" if "map_of (games w) k = Some g" for g H H' t
    using w that left_clean by (simp add: clean_server_def)
  show ?thesis
    using w by (auto simp: removePlayer_locked_def Let_def removeMember_eq split: option.splits
      intro!: clean_release clean_drop clean_put v g)
qed

lemma safe_remove [safety]: "safe removePlayer"
proof (rule safeI)
  fix now h req w
  assume w: "clean_server w"
  obtain b t u where u: "removePlayer_locked h (int_field (frame_fields req) ''GID'')
      (int_field (frame_fields req) ''PID'') w = ((b, t), u)" by (metis surj_pair)
  then have cu: "clean_server u" using removePlayer_locked_clean [OF w] by (metis snd_conv)
  have noted: "\<exists>f. playerRemovedNotification a b c d = Inr f" for a b c d
    unfolding playerRemovedNotification_def by (rule game_notification_ok) simp
  show "\<exists>resp w'. removePlayer now h req w = Inr (resp, w') \<and> clean_server w'"
  proof (cases b)
    case False
    obtain f where "playerRemovedNotification (int_field (frame_fields req) ''GID'') (int_field (frame_fields req) ''PID'')
        (int_field (frame_fields req) ''CNTX'') (int_field (frame_fields req) ''REAS'') = Inr f" using noted by blast
    with False cu show ?thesis by (simp add: removePlayer_def Let_def u clean_deliver)
  next
    case True
    show ?thesis
    proof (cases t)
      case None
      with True cu show ?thesis by (simp add: removePlayer_def Let_def u)
    next
      case (Some x)
      obtain target ms hr where x: "x = (target, ms, hr)" by (cases x)
      have "\<exists>w'. each (\<lambda>m w. notify_removed (int_field (frame_fields req) ''GID'') (PersonaID (heap w target))
          (int_field (frame_fields req) ''CNTX'') (int_field (frame_fields req) ''REAS'') (hr \<and> m \<noteq> target) m w) ms u
          = Inr w' \<and> clean_server w'"
        by (rule clean_each [OF cu]) (rule clean_notify_removed)
      with True Some x show ?thesis by (auto simp: removePlayer_def Let_def u)
    qed
  qed
qed

lemma notifyMatchedGame_clean:
  assumes w: "clean_server w"
  shows "\<exists>w'. notifyMatchedGame ms r a b w = Inr w' \<and> clean_server w'"
proof -
  have un: "\<exists>fs. userNotificationsFor (heap v x) = Inr fs" if "clean_server v" for v x
    using userNotifications_ok clean_heap [OF that] by blast
  have "\<exists>w'. each (notify_joining (session r) a) ms w = Inr w' \<and> clean_server w'"
  proof (rule clean_each [OF w])
    fix m v assume v: "clean_server v"
    with un obtain fs where "userNotificationsFor (heap v (session r)) = Inr fs" by blast
    with v show "\<exists>v'. notify_joining (session r) a m v = Inr v' \<and> clean_server v'"
      by (simp add: notify_joining_def clean_deliver clean_deliver_all)
  qed
  then obtain u where u: "each (notify_joining (session r) a) ms w = Inr u" "clean_server u" by blast
  have "\<exists>w'. each (hold_user (session r)) ms u = Inr w' \<and> clean_server w'"
  proof (rule clean_each [OF u(2)])
    fix m v assume v: "clean_server v"
    with un obtain fs where "userNotificationsFor (heap v m) = Inr fs" by blast
    with v show "\<exists>v'. hold_user (session r) m v = Inr v' \<and> clean_server v'"
      by (simp add: hold_user_def clean_upd)
  qed
  then obtain v where "each (hold_user (session r)) ms u = Inr v" "clean_server v" by blast
  with u show ?thesis by (simp add: notifyMatchedGame_def Let_def hold_setup_def clean_upd)
qed

lemma notifyPaired_clean:
  assumes w: "clean_server w"
  shows "\<exists>w'. notifyPaired h q a b w = Inr w' \<and> clean_server w'"
proof -
  obtain fs where fs: "userNotificationsFor (heap w h) = Inr fs"
    using userNotifications_ok clean_heap [OF w] by blast
  define u where "u = upd (session q) (\<lambda>s. snd (enqueue
            \<lparr>frame = notification ComponentGameManager NotifyGameSetup a, delay = 250\<rparr> s)) (deliver_all fs (session q) w)"
  have u: "clean_server u" unfolding u_def by (intro clean_upd clean_deliver_all w) simp
  obtain gs where gs: "userNotificationsFor (heap u (session q)) = Inr gs"
    using userNotifications_ok clean_heap [OF u] by blast
  have "notifyPaired h q a b w = Inr (hold_setup h b (upd h (hold gs) u))"
    unfolding notifyPaired_def Let_def fs go_bind_simps u_def [symmetric] gs by simp
  moreover have "clean_server (hold_setup h b (upd h (hold gs) u))"
    unfolding hold_setup_def by (intro clean_upd u) simp_all
  ultimately show ?thesis by blast
qed

lemma safe_match [safety]: "safe startMatchmaking"
proof (rule safeI)
  fix now h req w
  assume w: "clean_server w" and req: "clean_request req"
  obtain ms out u where u: "queueMatch_locked now h req w = Inr ((ms, out), u)" "clean_server u"
    using queueMatch_locked_clean [OF w req] by blast
  have "\<exists>w'. queueMatch now h req w = Inr (ms, w') \<and> clean_server w'"
  proof (cases out)
    case (Joined g r a b)
    with u notifyMatchedGame_clean [OF u(2), of "Members g" r a b] show ?thesis by (auto simp: queueMatch_def)
  next
    case (Paired q g a b)
    with u notifyPaired_clean [OF u(2), of h q a b] show ?thesis by (auto simp: queueMatch_def)
  qed (use u in \<open>simp_all add: queueMatch_def\<close>)
  then obtain w' where w': "queueMatch now h req w = Inr (ms, w')" "clean_server w'" by blast
  from reply_fields_ok [OF _ w'(2), of "[(''MSID'', TInt ms)]" now h req]
  show "\<exists>resp w'. startMatchmaking now h req w = Inr (resp, w') \<and> clean_server w'"
    by (simp add: startMatchmaking_def w'(1))
qed

lemma safe_cancel [safety]: "safe cancelMatchmaking"
proof (rule safeI)
  fix now h req w
  assume w: "clean_server w"
  have "clean_server (upd h (\<lambda>s. s\<lparr>QueuedMatchID := 0\<rparr>) (w\<lparr>matchQueue := xs @ ys\<rparr>))"
    if "matchQueue w = xs @ r # ys" for xs r ys
    using w that by (intro clean_upd) (auto simp: clean_server_def)
  then have "clean_server (snd (cancelQueuedMatch h k w))" for k
    using w by (auto simp: cancelQueuedMatch_def split: option.splits dest!: extract_SomeE)
  then show "\<exists>resp w'. cancelMatchmaking now h req w = Inr (resp, w') \<and> clean_server w'"
    by (simp add: cancelMatchmaking_def)
qed

lemma mesh_loop_attrs:
  "Attrs (snd (mesh_loop H h ts c g)) = Attrs g \<and> PlayerAttrs (snd (mesh_loop H h ts c g)) = PlayerAttrs g"
  by (induction H h ts c g rule: mesh_loop.induct) (auto simp: Let_def split: tdf.splits option.splits)

lemma complete_loop_clean: "clean_server w \<Longrightarrow> clean_server (snd (complete_loop g ms w))"
  by (induction ms arbitrary: w) (simp_all add: Let_def split_beta clean_upd)

lemma updateMesh_locked_clean:
  assumes w: "clean_server w"
  shows "clean_server (snd (updateMesh_locked now h k ts w))"
proof (cases "\<exists>g. map_of (games w) k = Some g \<and> sessionForPlayerID (heap w) g (PersonaID (heap w h)) = Some h")
  case False
  then show ?thesis by (auto simp: updateMesh_locked_def w split: option.splits)
next
  case True
  then obtain g where g: "map_of (games w) k = Some g"
    "sessionForPlayerID (heap w) g (PersonaID (heap w h)) = Some h" by blast
  define g1 where "g1 = ensureMembershipState (heap w) now g"
  define g2 where "g2 = (if has (Mesh g1) (PersonaID (heap w h)) then g1
    else g1\<lparr>Mesh := AList.update (PersonaID (heap w h)) [] (Mesh g1)\<rparr>)"
  obtain c g3 where ml: "mesh_loop (heap w) h ts False g2 = (c, g3)" by fastforce
  have "clean_game g" using w g by (simp add: clean_server_def)
  then have "clean_game g2" by (simp add: g2_def g1_def clean_game_def)
  then have g3: "clean_game g3" using mesh_loop_attrs [of "heap w" h ts False g2] by (simp add: ml clean_game_def)
  then have "clean_server (put_game g3 k w)" "clean_server (put_game (refreshMeshReadiness (heap w) g3) k w)"
    using w by (simp_all add: clean_put)
  then show ?thesis
    by (simp add: updateMesh_locked_def g Let_def g1_def [symmetric] g2_def [symmetric] ml split_beta complete_loop_clean)
qed

lemma safe_mesh [safety]: "safe updateMesh"
proof (rule safeI)
  fix now h req w
  assume w: "clean_server w"
  define k where "k = int_field (frame_fields req) ''GID''"
  define ts where "ts = list_field (frame_fields req) ''TARG''"
  obtain cs rs u where u: "updateMesh_locked now h k ts w = ((cs, rs), u)" by (metis surj_pair)
  have cu: "clean_server u" using updateMesh_locked_clean [OF w, of now h k ts] by (simp add: u)
  have one: "\<exists>v'. notify_completed h k p x v = Inr v' \<and> clean_server v'" if "clean_server v" for p x v
  proof -
    obtain f where "playerJoinCompletedNotification k (PersonaID (heap v p)) = Inr f"
      unfolding playerJoinCompletedNotification_def using game_notification_ok [of _ NotifyPlayerJoined] by fastforce
    with that show ?thesis by (simp add: notify_completed_def clean_deliver clean_upd)
  qed
  have "\<exists>w'. each (\<lambda>player. each (notify_completed h k player) rs) cs u = Inr w' \<and> clean_server w'"
    by (rule clean_each [OF cu]) (rule clean_each, assumption, rule one)
  then show "\<exists>resp w'. updateMesh now h req w = Inr (resp, w') \<and> clean_server w'"
    by (auto simp: updateMesh_def Let_def updateMeshConnection_def k_def [symmetric] ts_def [symmetric] u)
qed

lemma authenticate_clean: "clean_server w \<Longrightarrow> clean_server (authenticateSessionNamed h r n w)"
  by (auto simp: authenticateSessionNamed_def Let_def clean_server_def clean_session_def)

lemma safe_login [safety]: "safe silentLogin"
proof (rule safeI)
  fix now h req w
  assume w: "clean_server w"
  define u where "u = authenticateSessionNamed h (int_field (frame_fields req) ''PID'')
    (personaNameFromToken (str_field (frame_fields req) ''PCTK'')) w"
  have u: "clean_server u" by (simp add: u_def authenticate_clean w)
  show "\<exists>resp w'. silentLogin now h req w = Inr (resp, w') \<and> clean_server w'"
    unfolding silentLogin_def Let_def u_def [symmetric]
    using clean_upd [OF u]
    by (auto simp: go_bind_def split: sum.splits dest!: EncodeTDF_fails)
qed

lemma all_safe: "\<forall>(k, f) \<in> set registerDefaultHandlers. safe f"
  unfolding registerDefaultHandlers_def by (simp add: safety)

section \<open>No request crashes a clean server\<close>

lemma removeSession_locked_clean:
  assumes w: "clean_server w"
  shows "clean_server (snd (removeSession_locked h w))"
proof -
  let ?w1 = "w\<lparr>sessions := AList.delete (SessionID (heap w h)) (sessions w),
                  activePersonas := (if map_of (activePersonas w) (PersonaID (heap w h)) = Some h
                     then AList.delete (PersonaID (heap w h)) (activePersonas w) else activePersonas w)\<rparr>"
  define v where "v = upd h (\<lambda>s. s\<lparr>GameID := 0, PendingMatchmakingGame := 0, QueuedMatchID := 0\<rparr>)
    (removeQueuedSessionLocked h ?w1)"
  have "clean_server ?w1" using w by (simp add: clean_server_def)
  then have v: "clean_server v" unfolding v_def by (intro clean_upd clean_dequeue) simp_all
  have gv: "games v = games w" by (simp add: v_def)
  have m: "clean_game g" if "member_game h v = Some g" for g
  proof -
    from that obtain k where "List.find (\<lambda>(_, g). sessionForPlayerID (heap v) g (PersonaID (heap v h)) = Some h)
        (AList.clearjunk (games w)) = Some (k, g)"
      by (auto simp: member_game_def gv)
    from find_hit [OF this] have "(k, g) \<in> set (AList.clearjunk (games w))" by simp
    then have "map_of (games w) k = Some g"
      using map_of_is_SomeI [OF distinct_clearjunk] by (metis map_of_clearjunk)
    then show ?thesis using w by (simp add: clean_server_def)
  qed
  have g: "clean_game g" if "map_of (games w) k = Some g" for g k
    using w that by (simp add: clean_server_def)
  show ?thesis
    unfolding removeSession_locked_def Let_def v_def [symmetric]
    using v g m by (auto simp: gv removeMember_eq split: option.splits
        intro!: clean_release clean_drop clean_put left_clean)
qed

lemma removeSession_ok:
  assumes "clean_server w"
  shows "\<exists>w'. removeSession h w = Inr w' \<and> clean_server w'"
proof -
  have "clean_server (upd h close w)" by (rule clean_upd [OF assms]) (simp add: keeps_net_def close_def)
  then have u: "clean_server (snd (removeSession_locked h (upd h close w)))" by (rule removeSession_locked_clean)
  obtain g ms l u where r: "removeSession_locked h (upd h close w) = ((g, ms, l), u)" by (metis surj_pair)
  have "\<exists>w'. each (notify_removed k p 0 1 l) ms u = Inr w' \<and> clean_server w'" for k p
    by (rule clean_each) (use u r clean_notify_removed in simp_all)
  with u show ?thesis by (auto simp: removeSession_def r split: option.splits)
qed

lemma flush_net: "keeps_net (\<lambda>s. flushNotifications (snd (enqueue x s)))"
proof -
  have "NetworkAddress (flush_loop d fs s) = NetworkAddress s \<and> NetworkQOS (flush_loop d fs s) = NetworkQOS s" for d fs s
  proof (induction d fs s rule: flush_loop.induct)
    case (2 d f fs s)
    show ?case
      using 2 enqueue_net [of "\<lparr>frame = f, delay = d\<rparr>" s]
      by (cases "enqueue \<lparr>frame = f, delay = d\<rparr> s"; cases "fst (enqueue \<lparr>frame = f, delay = d\<rparr> s)") auto
  qed simp
  then show ?thesis by (simp add: keeps_net_def flushNotifications_def enqueue_net)
qed

lemma never_panics:
  assumes "clean_server w"
  shows "(clean_request request \<longrightarrow> (\<exists>goes_on w'. serve_request now h request w = Inr (goes_on, w') \<and> clean_server w')) \<and>
    (\<exists>w'. removeSession h w = Inr w' \<and> clean_server w')"
proof
  show "clean_request request \<longrightarrow> (\<exists>goes_on w'. serve_request now h request w = Inr (goes_on, w') \<and> clean_server w')"
  proof
    assume req: "clean_request request"
    show "\<exists>goes_on w'. serve_request now h request w = Inr (goes_on, w') \<and> clean_server w'"
    proof (cases "map_of Handlers (key (Component (Header request)) (Command (Header request)))")
      case None
      with assms show ?thesis by (simp add: serve_request_def)
    next
      case (Some f)
      then have "safe f" using all_safe unfolding Handlers_registered by (auto dest!: map_of_SomeD)
      then obtain resp u where u: "f now h request w = Inr (resp, u)" "clean_server u"
        using assms req unfolding safe_def by blast
      obtain q s where e: "enqueue \<lparr>frame = resp, delay = 0\<rparr> (heap u h) = (q, s)" by fastforce
      have "clean_server (upd h (\<lambda>s. flushNotifications (snd (enqueue \<lparr>frame = resp, delay = 0\<rparr> s))) u)"
        by (rule clean_upd [OF u(2) flush_net])
      then have "clean_server (upd h (\<lambda>_. flushNotifications s) u)" by (simp add: upd_def e)
      then show ?thesis using Some u e by (cases q) (auto simp: serve_request_def)
    qed
  qed
  show "\<exists>w'. removeSession h w = Inr w' \<and> clean_server w'" by (rule removeSession_ok [OF assms])
qed

text \<open>
  Claim C14. No clean request ends the process: while the stored values encode and compare, any
  request whose attributes, addresses and capacities do so too is served without a panic, the
  end of a connection never panics, and both leave the server clean.
\<close>

theorem clean_requests_never_panic:
  assumes "clean_server w"
  shows "(clean_request request \<longrightarrow> (\<exists>goes_on w'. serve_request now h request w = Inr (goes_on, w') \<and> clean_server w')) \<and>
    (\<exists>w'. removeSession h w = Inr w' \<and> clean_server w')"
  by (rule never_panics [OF assms])

lemma clean_fresh: "clean_server fresh_server"
  by (simp add: clean_server_def fresh_server_def New_def newSession_def clean_session_def)

definition bare_request :: "u16 \<Rightarrow> u16 \<Rightarrow> Frame" where
  "bare_request component command =
     \<lparr>Header = \<lparr>PayloadSize = 0, Component = component, Command = command, Error = 0,
        MessageType = MessageRequest, MessageID = 1\<rparr>, Payload = [], TDF = None\<rparr>"

lemma bare_request_clean: "clean_request (bare_request c d)"
  by (simp add: clean_request_def bare_request_def frame_fields_def field_defs networkAddress_def enc_map_def
      comparable_map_def)

theorem clean_requests_never_panic_witness:
  "(\<exists>goes_on w'. serve_request 5 1 (bare_request ComponentGameManager CommandResetDedicated) fresh_server = Inr (goes_on, w')) \<and>
   (\<exists>w'. removeSession 1 fresh_server = Inr w')"
  using clean_requests_never_panic [OF clean_fresh] bare_request_clean by metis

section \<open>Creating a game succeeds\<close>

lemma replicated_frame:
  "Attrs (snd (replicatedGamePlayer H now g p)) = Attrs g \<and> Capacity (snd (replicatedGamePlayer H now g p)) = Capacity g \<and>
   Topology (snd (replicatedGamePlayer H now g p)) = Topology g \<and> State (snd (replicatedGamePlayer H now g p)) = State g"
  by (simp add: replicatedGamePlayer_def Let_def)

lemma gameSetup_frame:
  "Attrs (snd (gameSetup H now g)) = Attrs g \<and> Capacity (snd (gameSetup H now g)) = Capacity g \<and>
   Topology (snd (gameSetup H now g)) = Topology g \<and> State (snd (gameSetup H now g)) = State g"
proof -
  have "Attrs (snd (replicate_players H now ms x)) = Attrs x \<and> Capacity (snd (replicate_players H now ms x)) = Capacity x \<and>
     Topology (snd (replicate_players H now ms x)) = Topology x \<and> State (snd (replicate_players H now ms x)) = State x" for ms x
  proof (induction ms arbitrary: x)
    case (Cons m ms)
    then show ?case using replicated_frame [of H now x m] by (simp add: split_beta)
  qed simp
  then show ?thesis by (simp add: gameSetup_def Let_def split_beta)
qed

lemma creates_game:
  assumes run: "run lobby_start lobby_step ls w" and w: "clean_server w" and req: "clean_request req"
    and idle: "GameID (heap w h) = 0"
  shows "\<exists>resp w' g setup_frame. resetDedicated now h req w = Inr (resp, w') \<and>
    map_of (games w') = (map_of (games w))(nextGameID w \<mapsto> g) \<and>
    Host g = h \<and> Members g = [h] \<and> Attrs g = map_field (frame_fields req) ''ATTR'' \<and>
    Capacity g = getMatchmakingCapacity req \<and> Topology g = getMatchmakingTopology req \<and> State g = 1 \<and>
    GameID (heap w' h) = nextGameID w \<and> EncodeTDF [(''GID'', TInt (nextGameID w))] = Inr (Payload resp) \<and>
    Command (Header setup_frame) = NotifyGameSetup \<and>
    Notifications (heap w' h) = Notifications (heap w h) @ [setup_frame]"
proof -
  have ok: "lobby_ok False w" by (rule lobby.run_inv [OF run])
  define w1 where "w1 = removeQueuedSessionLocked h (upd h (\<lambda>s. s\<lparr>GameID := 0\<rparr>) w)"
  define gid where "gid = nextGameID w1"
  define g where "g = newGame (heap w1) now gid h [h] (map_field (frame_fields req) ''ATTR'')
    (getMatchmakingCapacity req) (getMatchmakingTopology req) 1"
  define w2 where "w2 = upd h (\<lambda>s. s\<lparr>GameID := gid\<rparr>)
    (w1\<lparr>nextGameID := gid + 1, games := AList.update gid g (games w1)\<rparr>)"
  obtain st g' where gs: "gameSetup (heap w2) now g = (st, g')" by fastforce
  have cg: "clean_game g" unfolding g_def using req by (intro newGame_clean) (simp_all add: clean_request_def Let_def)
  have "clean_server w1" unfolding w1_def using w by (intro clean_dequeue clean_upd) simp_all
  then have "clean_server (w1\<lparr>nextGameID := gid + 1, games := AList.update gid g (games w1)\<rparr>)"
    using cg by (simp add: clean_server_def update_conv')
  then have "clean_server w2" unfolding w2_def by (rule clean_upd) simp
  then have "enc_fields st" using gameSetup_clean [OF cg, of "heap w2" now] by (simp add: gs clean_heap)
  then obtain payload where p: "EncodeTDF st = Inr payload" using EncodeTDF_ok by blast
  have "(case map_of (games w) (GameID (heap w h)) of
      Some existing \<Rightarrow> if sessionForPlayerID (heap w) existing (PersonaID (heap w h)) = Some h then Some existing else None
    | None \<Rightarrow> None) = None"
    using active_iff [OF ok, of h] idle by (auto split: option.splits)
  then have l: "resetDedicated_locked now h req w = Inr ((gid, Some payload), put_game g' gid w2)"
    unfolding resetDedicated_locked_def Let_def w1_def [symmetric] gid_def [symmetric] g_def [symmetric]
      w2_def [symmetric] by (simp add: gs p)
  obtain b where b: "EncodeTDF [(''GID'', TInt gid)] = Inr b" using EncodeTDF_ok [of "[(''GID'', TInt gid)]"] by auto
  define setup_frame where "setup_frame = notification ComponentGameManager NotifyGameSetup payload"
  have r: "resetDedicated now h req w = Inr (Reply req b, upd h (hold [setup_frame]) (put_game g' gid w2))"
    by (simp add: resetDedicated_def l reply_fields_def b setup_frame_def)
  have g: "Members g = [h]" "Host g = h" "Attrs g = map_field (frame_fields req) ''ATTR''"
    "Capacity g = getMatchmakingCapacity req" "Topology g = getMatchmakingTopology req" "State g = 1"
    by (simp_all add: g_def newGame_def addMember_def ensureMembershipState_def Let_def)
  have g': "Members g' = [h]" "Host g' = h" "Attrs g' = map_field (frame_fields req) ''ATTR''"
    "Capacity g' = getMatchmakingCapacity req" "Topology g' = getMatchmakingTopology req" "State g' = 1"
    using gameSetup_frame [of "heap w2" now g] gameSetup_keeps(2) [where H = "heap w2" and now = now and g = g] g
    by (simp_all add: gs same_game_def)
  have "map_of (games (upd h (hold [setup_frame]) (put_game g' gid w2))) = (map_of (games w))(gid \<mapsto> g')"
    by (simp add: w2_def w1_def update_conv')
  moreover have "GameID (heap (upd h (hold [setup_frame]) (put_game g' gid w2)) h) = gid"
    "Notifications (heap (upd h (hold [setup_frame]) (put_game g' gid w2)) h) = Notifications (heap w h) @ [setup_frame]"
    by (simp_all add: w2_def w1_def hold_def)
  moreover have "Payload (Reply req b) = b" "Command (Header setup_frame) = NotifyGameSetup" "gid = nextGameID w"
    by (simp_all add: Reply_def setup_frame_def notification_def gid_def w1_def)
  ultimately show ?thesis using r g' b by metis
qed

text \<open>
  Claim C23. A clean request to create a game by a session in no game always succeeds: a game with
  the next number is registered in state 1 with the requested attributes, capacity and topology,
  the session is its host and only member, every other game is as before, the reply carries the
  game's number, and its setup is held back until the reply is queued.
\<close>

theorem create_game:
  assumes run: "run lobby_start lobby_step ls w" and w: "clean_server w" and req: "clean_request req"
    and idle: "GameID (heap w h) = 0"
  shows "\<exists>resp w' g setup_frame. resetDedicated now h req w = Inr (resp, w') \<and>
    map_of (games w') = (map_of (games w))(nextGameID w \<mapsto> g) \<and>
    Host g = h \<and> Members g = [h] \<and> Attrs g = map_field (frame_fields req) ''ATTR'' \<and>
    Capacity g = getMatchmakingCapacity req \<and> Topology g = getMatchmakingTopology req \<and> State g = 1 \<and>
    GameID (heap w' h) = nextGameID w \<and> EncodeTDF [(''GID'', TInt (nextGameID w))] = Inr (Payload resp) \<and>
    Command (Header setup_frame) = NotifyGameSetup \<and>
    Notifications (heap w' h) = Notifications (heap w h) @ [setup_frame]"
  by (rule creates_game [OF assms])

lemma demo_start: "run lobby_start lobby_step [] fresh_server" "run lobby_start polite_step [] fresh_server"
  using fresh_server_start by (simp_all add: run_start)

lemma fresh_fields [simp]: "GameID (heap fresh_server h) = 0" "PersonaID (heap fresh_server h) = 0"
  "nextGameID fresh_server = 1" "games fresh_server = []" "live fresh_server h"
  by (simp_all add: fresh_server_def newSession_def New_def live_def)

theorem create_game_witness:
  "\<exists>resp w' g. resetDedicated 5 2 (bare_request ComponentGameManager CommandResetDedicated) fresh_server = Inr (resp, w') \<and>
    map_of (games w') 1 = Some g \<and> Host g = 2 \<and> Members g = [2]"
  using create_game [OF demo_start(1) clean_fresh bare_request_clean, of 2 5] by fastforce

end
