(* ===== verification/Lobby_Properties.thy ===== *)
theory Lobby_Properties
  imports Clean_Requests
begin

text \<open>
  What holds in every reachable state of the server, for all interleavings of the requests of
  all connections, with a concrete run for each.
\<close>

section \<open>A run with a game\<close>

lemma demo_game:
  "\<exists>w g. run lobby_start polite_step [Act 2] w \<and> run lobby_start lobby_step [Act 2] w \<and>
     map_of (games w) 1 = Some g \<and> Host g = 2 \<and> Members g = [2]"
proof -
  obtain resp w' g where r: "resetDedicated 5 2 (bare_request ComponentGameManager CommandResetDedicated) fresh_server
      = Inr (resp, w')" and g: "map_of (games w') 1 = Some g" "Host g = 2" "Members g = [2]"
    using creates_game [OF demo_start(1) clean_fresh bare_request_clean, of 2 5] by fastforce
  then obtain k st u where u: "resetDedicated_locked 5 2 (bare_request ComponentGameManager CommandResetDedicated)
      fresh_server = Inr ((k, st), u)"
    and w': "w' = (case st of Some payload \<Rightarrow> upd 2 (hold [notification ComponentGameManager NotifyGameSetup payload]) u
             | None \<Rightarrow> u)"
    by (auto simp: resetDedicated_def Let_def go_bind_Inr_iff reply_fields_def)
  have step: "lobby_step (Act 2) fresh_server u"
    by (rule lobby_step.create [OF _ fresh_server_numbers u]) simp
  have "games u = games w'" by (simp add: w' split: option.splits)
  moreover have "run lobby_start lobby_step ([] @ [Act 2]) u" by (rule run_step [OF demo_start(1) step])
  moreover have "run lobby_start polite_step ([] @ [Act 2]) u"
    by (rule run_step [OF demo_start(2)]) (simp add: polite_step_def step)
  ultimately show ?thesis using g by (metis append_Nil)
qed

section \<open>Properties of every run\<close>

text \<open>
  Claim C1. A connection is idle, queued, or in one game, never in more than one state, whatever
  requests arrive and however the critical sections interleave: the rosters and the queue agree
  with the session's \<open>GameID\<close> and \<open>QueuedMatchID\<close>, it has at most one queued request, and none
  while it is in a game.
\<close>

theorem session_one_state:
  assumes "run lobby_start lobby_step ls w"
  shows "(\<forall>k. member_of w h k \<longleftrightarrow> k \<noteq> 0 \<and> GameID (heap w h) = k) \<and>
    (\<forall>q. queued w h q \<longleftrightarrow> q \<noteq> 0 \<and> QueuedMatchID (heap w h) = q) \<and>
    length (filter (\<lambda>r. session r = h) (matchQueue w)) \<le> 1 \<and>
    \<not> ((\<exists>k. member_of w h k) \<and> (\<exists>q. queued w h q))"
proof -
  have ok: "lobby_ok False w" by (rule lobby.run_inv [OF assms])
  have "length (filter (\<lambda>r. session r = h) q) \<le> 1" if "distinct (map session q)" for q
    using that by (induction q) (auto simp: filter_empty_conv, metis imageI)
  with lobby_distinct [OF ok] have "length (filter (\<lambda>r. session r = h) (matchQueue w)) \<le> 1" by blast
  with lobby_member [OF ok] lobby_queued [OF ok] lobby_one [OF ok, of h] show ?thesis by auto
qed

theorem session_one_state_witness:
  "\<not> ((\<exists>k. member_of (authenticateSessionNamed 1 7 ''ann'' fresh_server) 1 k) \<and>
      (\<exists>q. queued (authenticateSessionNamed 1 7 ''ann'' fresh_server) 1 q))"
  using session_one_state [OF run_login [of 1 7 "''ann''"], of 1] by blast

text \<open>
  Claim C12. When nobody logs in while in a game, every registered game is well formed at all
  times: its number is its key, the host is a member, the members are exactly the sessions
  whose \<open>GameID\<close> names it, no two share a persona or a slot, and exactly they have one.
\<close>

theorem games_well_formed:
  assumes "run lobby_start polite_step ls w" and "map_of (games w) k = Some g"
  shows "ID g = k \<and> Host g \<in> set (Members g) \<and> set (Members g) = {h. GameID (heap w h) = k} \<and>
    game_ok (heap w) g"
proof -
  have ok: "lobby_ok True w" by (rule polite.run_inv [OF assms(1)])
  show ?thesis
    using lobby_game [OF ok assms(2)] lobby_roster(2) [OF ok assms(2)] by (auto simp: game_in_def)
qed

theorem games_well_formed_witness:
  "\<exists>(w :: Server) g. map_of (games w) 1 = Some g \<and> Members g = [2] \<and> {h. GameID (heap w h) = 1} = {2} \<and> game_ok (heap w) g"
proof -
  obtain w g where w: "run lobby_start polite_step [Act 2] w" "map_of (games w) 1 = Some g" "Members g = [2]"
    using demo_game by blast
  from games_well_formed [OF w(1,2)] w(2,3) show ?thesis by (intro exI [of _ w] exI [of _ g]) auto
qed

text \<open>
  Claim C21. Once authenticated, a session keeps its persona and its registration until its own
  connection ends, whatever the others do, and no other registered session has that persona.
\<close>

theorem persona_is_kept:
  assumes run: "run lobby_start lobby_step ls w" and path: "path lobby_step w ms w'"
    and p: "PersonaID (heap w h) \<noteq> 0" "live w h" and stays: "Leave h \<notin> set ms"
  shows "PersonaID (heap w' h) = PersonaID (heap w h) \<and>
    map_of (activePersonas w') (PersonaID (heap w h)) = Some h \<and>
    (\<forall>k. live w' k \<and> PersonaID (heap w' k) = PersonaID (heap w h) \<longrightarrow> k = h)"
proof -
  have "PersonaID (heap w h) \<noteq> 0 \<and> live w' h \<and> PersonaID (heap w' h) = PersonaID (heap w h)"
    using stays by (intro kept.path_stable [OF path lobby.run_inv [OF run]]) (auto simp: p)
  then show ?thesis by (auto simp: live_def)
qed

theorem persona_is_kept_witness:
  "PersonaID (heap (authenticateSessionNamed 3 0 '''' (authenticateSessionNamed 2 7 ''ann'' fresh_server)) 2) = 7"
proof -
  let ?w = "authenticateSessionNamed 2 7 ''ann'' fresh_server"
  have h: "PersonaID (heap ?w 2) = 7" "live ?w 2" "numbers_left ?w"
    by (simp_all add: authenticateSessionNamed_def choosePersona_def fresh_server_def New_def newSession_def
        Let_def live_def update_conv' numbers_left_def roomy_def)
  have "path lobby_step ?w [Login 3] (authenticateSessionNamed 3 0 '''' ?w)"
    using lobby_step.login [OF h(3), of 3 0 "''''"] by (rule path_one)
  from persona_is_kept [OF run_login this, of 2] h show ?thesis by simp
qed

text \<open>
  The end of a connection leaves nothing of it behind: its session is in no game, not
  queued, and not registered under any persona.
\<close>

theorem leave_forgets:
  assumes "run lobby_start lobby_step ls w"
  shows "\<not> member_of (snd (removeSession_locked h w)) h k \<and> \<not> queued (snd (removeSession_locked h w)) h q \<and>
    map_of (activePersonas (snd (removeSession_locked h w))) p \<noteq> Some h"
proof -
  let ?w = "snd (removeSession_locked h w)"
  have ok: "lobby_ok False w" by (rule lobby.run_inv [OF assms])
  have ok': "lobby_ok False ?w" by (rule lobby_removeSession [OF ok])
  have "GameID (heap ?w h) = 0" "QueuedMatchID (heap ?w h) = 0"
    by (auto simp: removeSession_locked_def Let_def fold_release split: option.splits)
  moreover have "map_of (activePersonas ?w) p \<noteq> Some h"
  proof
    assume p: "map_of (activePersonas ?w) p = Some h"
    then have "map_of (activePersonas w) p = Some h"
      unfolding leave_people(2) by (simp add: delete_conv' split: if_splits)
    with lobby_auth [OF ok] p show False unfolding leave_people(2) by (simp add: auth_ok_def delete_conv')
  qed
  ultimately show ?thesis using lobby_member [OF ok', of h k] lobby_queued [OF ok', of h q] by auto
qed

theorem leave_forgets_witness:
  "map_of (activePersonas (snd (removeSession_locked 1 (authenticateSessionNamed 1 7 ''ann'' fresh_server)))) 7 \<noteq> Some 1"
  using leave_forgets [OF run_login] by blast

text \<open>
  Claim C22. When the host's connection ends, its game goes and no other: every member is idle
  afterwards and no other session changes its game.
\<close>

theorem host_leaves:
  assumes "run lobby_start lobby_step ls w" and g: "map_of (games w) k = Some g"
  shows "map_of (games (snd (removeSession_locked (Host g) w))) = (map_of (games w))(k := None) \<and>
    GameID (heap (snd (removeSession_locked (Host g) w)) m) =
      (if m \<in> set (Members g) then 0 else GameID (heap w m)) \<and>
    (m \<in> set (Members g) \<longrightarrow> QueuedMatchID (heap (snd (removeSession_locked (Host g) w)) m) = 0)"
proof -
  have ok: "lobby_ok False w" by (rule lobby.run_inv [OF assms(1)])
  have gi: "ID g = k" "Host g \<in> set (Members g)" "distinct (Members g)"
    using lobby_game [OF ok g] by (auto simp: game_in_def distinct_map)
  have "GameID (heap w (Host g)) = k" using lobby_idle_in [OF ok g gi(2)] by simp
  then have r: "snd (removeSession_locked (Host g) w) =
      (let v = upd (Host g) (\<lambda>s. s\<lparr>GameID := 0, PendingMatchmakingGame := 0, QueuedMatchID := 0\<rparr>)
          (removeQueuedSessionLocked (Host g) (w\<lparr>sessions := AList.delete (SessionID (heap w (Host g))) (sessions w),
             activePersonas := activePersonas (snd (removeSession_locked (Host g) w))\<rparr>))
       in fold release_member (remove1 (Host g) (Members g)) (v\<lparr>games := AList.delete k (games v)\<rparr>))"
    unfolding leave_people(2) using g gi(1)
    by (simp add: removeSession_locked_def Let_def removeMember_eq)
  show ?thesis
    using gi(2,3) lobby_idle_in [OF ok g]
    by (subst (1 2 3) r) (auto simp: Let_def fold_release delete_conv')
qed

theorem host_leaves_witness:
  "\<exists>w g. map_of (games w) 1 = Some g \<and> map_of (games (snd (removeSession_locked (Host g) w))) 1 = None"
proof -
  obtain w g where w: "run lobby_start lobby_step [Act 2] w" "map_of (games w) 1 = Some g"
    using demo_game by blast
  from host_leaves [OF w] w(2) show ?thesis by (intro exI [of _ w] exI [of _ g]) simp
qed

text \<open>The witness of \<open>serve_request_refines\<close>: creating a game on a fresh server.\<close>

theorem serve_request_refines_witness:
  "\<exists>goes_on w'. serve_request 5 2 (bare_request ComponentGameManager CommandResetDedicated) fresh_server = Inr (goes_on, w') \<and>
     lobby_ok False w' \<and> live w' 2"
proof -
  obtain goes_on w' where s: "serve_request 5 2 (bare_request ComponentGameManager CommandResetDedicated) fresh_server
      = Inr (goes_on, w')"
    using never_panics [OF clean_fresh] bare_request_clean by blast
  from serve_request_refines [OF demo_start(1) _ fresh_server_numbers s] s show ?thesis by simp
qed

end
