(* ===== verification/Match_Properties.thy ===== *)
theory Match_Properties
  imports Lobby_Properties
begin

text \<open>
  Matchmaking: no two waiting requests fit each other, and what a request gets is what the games
  and the queue offered it, in the order of the game numbers and of the queue.
\<close>

section \<open>Nobody waits beside a partner\<close>

text \<open>Compatibility of requests is symmetric, panics included.\<close>

lemma match_attrs_sym: "match_attrs ks a b = match_attrs ks b a"
  by (induction ks) (auto simp: go_eq_sym split: option.splits cong: if_cong)

lemma isCompatibleMatch_sym: "isCompatibleMatch a b = isCompatibleMatch b a"
  by (auto simp: isCompatibleMatch_def match_attrs_sym [of _ "attrs a"])

definition no_partner :: "matchRequest list \<Rightarrow> bool" where
  "no_partner q \<longleftrightarrow> (\<forall>a \<in> set q. \<forall>b \<in> set q. session a \<noteq> session b \<longrightarrow> isCompatibleMatch a b = Inr False)"

lemma no_partner_subset: "no_partner q \<Longrightarrow> set q' \<subseteq> set q \<Longrightarrow> no_partner q'"
  by (auto simp: no_partner_def)

lemma find_match_none:
  "find_match q r i = Inr None \<Longrightarrow> x \<in> set q \<Longrightarrow> session x \<noteq> session r \<Longrightarrow> isCompatibleMatch x r = Inr False"
proof (induction q arbitrary: i)
  case (Cons y q)
  then show ?case by (cases "session y = session r"; cases "isCompatibleMatch y r") (auto split: if_splits)
qed simp

lemma no_partner_snoc:
  assumes "no_partner q" and "find_match q r i = Inr None"
  shows "no_partner (q @ [r])"
  unfolding no_partner_def
proof (intro ballI impI)
  fix a b assume a: "a \<in> set (q @ [r])" and b: "b \<in> set (q @ [r])" and ne: "session a \<noteq> session b"
  consider "a \<in> set q" "b \<in> set q" | "a \<in> set q" "b = r" | "a = r" "b \<in> set q"
    using a b ne by auto
  then show "isCompatibleMatch a b = Inr False"
  proof cases
    case 1
    then show ?thesis using assms(1) ne by (simp add: no_partner_def)
  next
    case 2
    then show ?thesis using find_match_none [OF assms(2), of a] ne by simp
  next
    case 3
    then show ?thesis using find_match_none [OF assms(2), of b] ne isCompatibleMatch_sym [of a b] by simp
  qed
qed

lemma queue_join_loop: "join_loop now r ids w = Inr (res, w') \<Longrightarrow> matchQueue w' = matchQueue w"
proof (induction ids arbitrary: w)
  case (Cons k ids)
  then show ?case
    by (auto simp: go_bind_Inr_iff split_beta split: option.splits if_splits)
qed simp

lemma queue_cancel: "set (matchQueue (snd (cancelQueuedMatch h q w))) \<subseteq> set (matchQueue w)"
  by (auto simp: cancelQueuedMatch_def split: option.splits dest!: extract_SomeE)

lemma queue_remove: "set (matchQueue (snd (removePlayer_locked h k p w))) \<subseteq> set (matchQueue w)"
  by (auto simp: removePlayer_locked_def Let_def fold_release split: option.splits)

lemma queue_leave: "set (matchQueue (snd (removeSession_locked h w))) \<subseteq> set (matchQueue w)"
  by (auto simp: removeSession_locked_def Let_def fold_release split: option.splits)

lemma queue_create: "resetDedicated_locked now h req w = Inr (out, w') \<Longrightarrow> set (matchQueue w') \<subseteq> set (matchQueue w)"
  by (auto simp: resetDedicated_locked_def Let_def split_beta go_bind_Inr_iff split: option.splits if_splits)

lemma queue_attrs: "matchQueue (snd (setPlayerAttrs_locked now h k p ats w)) = matchQueue w"
  by (auto simp: setPlayerAttrs_locked_def Let_def split: option.splits)

lemma queue_set_game: "matchQueue (set_game k f w) = matchQueue w"
  by (simp add: set_game_def split: option.splits)

lemma queue_mesh: "matchQueue (snd (updateMesh_locked now h k ts w)) = matchQueue w"
proof -
  have "matchQueue (snd (complete_loop g ms u)) = matchQueue u" for g ms u
    using complete_loop_same [of u g ms] by (simp add: same_lobby_def)
  then show ?thesis by (auto simp: updateMesh_locked_def Let_def split_beta split: option.splits)
qed

lemma queue_login: "matchQueue (authenticateSessionNamed h r n w) = matchQueue w"
  by (simp add: authenticateSessionNamed_def Let_def)


lemma queue_join_game: "join_game now r g u = Inr (out, w') \<Longrightarrow> matchQueue w' = matchQueue u"
  by (auto simp: join_game_def Let_def split_beta go_bind_Inr_iff)

lemma queue_pair_up:
  "pair_up now r i u = Inr (out, w') \<Longrightarrow> matchQueue w' = take i (matchQueue u) @ drop (Suc i) (matchQueue u)"
  by (auto simp: pair_up_def Let_def split_beta go_bind_Inr_iff fold_start)

lemma queue_searching [simp]: "matchQueue (searching h w) = filter (\<lambda>r. session r \<noteq> h) (matchQueue w)"
  by (simp add: searching_def)

lemma no_partner_matchmake:
  assumes "queueMatch_locked now h req w = Inr ((ms, out), w')" and np: "no_partner (matchQueue w)"
  shows "no_partner (matchQueue w')"
  using assms(1)
proof (cases rule: queueMatch_cases)
  case (in_game g)
  with np show ?thesis by simp
next
  case (joined ids g v)
  then have "matchQueue w' = filter (\<lambda>r. session r \<noteq> h) (matchQueue w)"
    using queue_join_loop [OF joined(1)] queue_join_game [OF joined(2)] by simp
  then show ?thesis using no_partner_subset [OF np] by simp
next
  case (queued ids v)
  have q: "matchQueue v = filter (\<lambda>r. session r \<noteq> h) (matchQueue w)" using queue_join_loop [OF queued(1)] by simp
  then have "no_partner (matchQueue v)" using no_partner_subset [OF np] by simp
  from no_partner_snoc [OF this queued(2)] show ?thesis by (simp add: queued(4))
next
  case (paired ids v i)
  have "set (matchQueue w') \<subseteq> set (matchQueue v)"
    using queue_pair_up [OF paired(3)] by (auto dest: in_set_takeD in_set_dropD)
  moreover have "set (matchQueue v) \<subseteq> set (matchQueue w)" using queue_join_loop [OF paired(1)] by auto
  ultimately show ?thesis by (meson no_partner_subset [OF np] subset_trans)
qed

lemma no_partner_step: "no_partner (matchQueue w) \<Longrightarrow> lobby_step l w w' \<Longrightarrow> no_partner (matchQueue w')"
proof (erule lobby_step.cases, goal_cases)
  case 1 then show ?case by (simp add: queue_login)
next
  case 2 then show ?case using no_partner_subset queue_leave by metis
next
  case 3 then show ?case using no_partner_matchmake by metis
next
  case 4 then show ?case using no_partner_subset queue_create by metis
next
  case 5 then show ?case using no_partner_subset queue_cancel by metis
next
  case 6 then show ?case using no_partner_subset queue_remove by metis
next
  case 7 then show ?case by (simp add: queue_set_game)
next
  case 8 then show ?case by (simp add: queue_attrs)
next
  case 9 then show ?case by (simp add: queue_mesh)
next
  case 10 then show ?case by (simp add: same_lobby_def)
qed

interpretation waiting: invariant_system lobby_start lobby_step "\<lambda>w. no_partner (matchQueue w)"
  by unfold_locales (auto simp: lobby_start_def New_def no_partner_def [of "[]"] intro: no_partner_step)

text \<open>
  Claim C8. Nobody waits beside a partner: in no reachable state do two requests of different
  sessions in the queue fit each other.
\<close>

theorem nobody_waits_beside_partner:
  assumes "run lobby_start lobby_step ls w"
    and "a \<in> set (matchQueue w)" and "b \<in> set (matchQueue w)" and "session a \<noteq> session b"
  shows "isCompatibleMatch a b = Inr False"
  using waiting.run_inv [OF assms(1)] assms(2-) by (simp add: no_partner_def)

definition four_players :: Frame where
  "four_players = (bare_request ComponentGameManager CommandStartMatchmaking)\<lparr>TDF := Some [(''PMAX'', TInt 4)]\<rparr>"

lemma demo_queued:
  "\<exists>w. queueMatch_locked 5 1 (bare_request ComponentGameManager CommandStartMatchmaking) fresh_server = Inr ((1, Queued), w) \<and>
     live w 2 \<and> numbers_left w \<and> nextMatchID w = 2 \<and> games w = [] \<and> GameID (heap w 2) = 0 \<and>
     matchQueue w = [candidate 1 (bare_request ComponentGameManager CommandStartMatchmaking) 1]"
  by (simp add: queueMatch_locked_def Let_def removeQueuedSessionLocked_def upd_def fresh_server_def New_def newSession_def
      candidate_def live_def numbers_left_def roomy_def)

lemma demo_two_queued:
  "\<exists>w. run lobby_start lobby_step [Act 1, Act 2] w \<and>
     set (matchQueue w) = {candidate 1 (bare_request ComponentGameManager CommandStartMatchmaking) 1, candidate 2 four_players 2}"
proof -
  obtain u where u: "queueMatch_locked 5 1 (bare_request ComponentGameManager CommandStartMatchmaking) fresh_server
        = Inr ((1, Queued), u)" "live u 2" "numbers_left u" "nextMatchID u = 2" "games u = []" "GameID (heap u 2) = 0"
      "matchQueue u = [candidate 1 (bare_request ComponentGameManager CommandStartMatchmaking) 1]"
    using demo_queued by blast
  have "isCompatibleMatch (candidate 1 (bare_request ComponentGameManager CommandStartMatchmaking) 1)
      (candidate 2 four_players 2) = Inr False"
    by (simp add: isCompatibleMatch_def candidate_def four_players_def getMatchmakingCapacity_def frame_fields_def
        bare_request_def field_defs)
  then have q: "\<exists>w. queueMatch_locked 5 2 four_players u = Inr ((2, Queued), w) \<and>
      matchQueue w = [candidate 1 (bare_request ComponentGameManager CommandStartMatchmaking) 1, candidate 2 four_players 2]"
    using u by (simp add: queueMatch_locked_def Let_def removeQueuedSessionLocked_def upd_def candidate_def)
  then obtain w where w: "queueMatch_locked 5 2 four_players u = Inr ((2, Queued), w)"
      "matchQueue w = [candidate 1 (bare_request ComponentGameManager CommandStartMatchmaking) 1, candidate 2 four_players 2]"
    by blast
  have "lobby_step (Act 1) fresh_server u" by (rule lobby_step.matchmake [OF _ fresh_server_numbers u(1)]) simp
  from run_step [OF run_step [OF demo_start(1) this] lobby_step.matchmake [OF u(2,3) w(1)]] w(2) show ?thesis by auto
qed

theorem nobody_waits_beside_partner_witness:
  "isCompatibleMatch (candidate 1 (bare_request ComponentGameManager CommandStartMatchmaking) 1)
     (candidate 2 four_players 2) = Inr False"
proof -
  obtain w where w: "run lobby_start lobby_step [Act 1, Act 2] w"
    "set (matchQueue w) = {candidate 1 (bare_request ComponentGameManager CommandStartMatchmaking) 1, candidate 2 four_players 2}"
    using demo_two_queued by blast
  show ?thesis by (rule nobody_waits_beside_partner [OF w(1)]) (simp_all add: w(2))
qed

section \<open>What a matchmaking request gets\<close>

text \<open>
  A game refuses a request that does not fit it, or whose session or persona is among its
  members already.
\<close>

definition refuses :: "Server \<Rightarrow> matchRequest \<Rightarrow> Game \<Rightarrow> bool" where
  "refuses w r g \<longleftrightarrow> isCompatibleGame g r = Inr False \<or>
     (\<exists>m \<in> set (Members g). m = session r \<or> PersonaID (heap w m) = PersonaID (heap w (session r)))"

definition similar :: "Game \<Rightarrow> Game \<Rightarrow> bool" where
  "similar g g' \<longleftrightarrow> same_game g g' \<and> Attrs g' = Attrs g \<and> Capacity g' = Capacity g \<and> Topology g' = Topology g"

lemma similar_refuses: "similar g g' \<Longrightarrow> refuses w r g' = refuses w r g"
  by (simp add: similar_def same_game_def refuses_def isCompatibleGame_def)

lemma similar_compatible: "similar g g' \<Longrightarrow> isCompatibleGame g' r = isCompatibleGame g r"
  by (simp add: similar_def same_game_def isCompatibleGame_def)

definition accepts :: "Server \<Rightarrow> matchRequest \<Rightarrow> Game \<Rightarrow> Game \<Rightarrow> bool" where
  "accepts w r g g' \<longleftrightarrow> isCompatibleGame g r = Inr True \<and> \<not> refuses w r g \<and> ID g' = ID g \<and> Host g' = Host g \<and>
     Members g' = Members g @ [session r]"

lemma similar_accepts: "similar g h \<Longrightarrow> accepts w r h g' = accepts w r g g'"
  by (auto simp: accepts_def similar_refuses similar_compatible) (auto simp: similar_def same_game_def)

lemma accepts_cong: "heap w' = heap w \<Longrightarrow> accepts w' r = accepts w r" "heap w' = heap w \<Longrightarrow> refuses w' r = refuses w r"
  by (simp_all add: accepts_def refuses_def fun_eq_iff)

lemma addMember_refused:
  assumes "isCompatibleGame g r = Inr True" and "addMember (heap w) now (session r) g = ((slot, added), g')"
  shows "if added then accepts w r g g' else refuses w r g \<and> similar g g'"
proof (cases "\<exists>m \<in> set (Members g). m = session r \<or> PersonaID (heap w m) = PersonaID (heap w (session r))")
  case True
  then obtain slot where "addMember (heap w) now (session r) g = ((slot, False), ensureMembershipState (heap w) now g)"
    using addMember_known by blast
  with assms(2) True show ?thesis by (auto simp: refuses_def similar_def same_game_def)
next
  case False
  have room: "int (length (Members g)) < sint (Capacity g)"
    using assms(1) by (auto simp: isCompatibleGame_def split: if_splits)
  have "List.find (\<lambda>member. member = session r \<or> PersonaID (heap w member) = PersonaID (heap w (session r))) (Members g) = None"
    using False by (auto simp: find_None_iff)
  then have "added" using assms(2) room by (auto simp: addMember_def Let_def)
  moreover have "ID g' = ID g \<and> Host g' = Host g \<and> Members g' = Members g @ [session r]"
    using addMember_Members [of g "heap w" now "session r"] assms(2) calculation by simp
  ultimately show ?thesis using False assms(1) by (simp add: accepts_def refuses_def)
qed

definition choice :: "Server \<Rightarrow> matchRequest \<Rightarrow> i64 list \<Rightarrow> Game option \<Rightarrow> bool" where
  "choice w r ids res \<longleftrightarrow> (case res of
     None \<Rightarrow> \<forall>k \<in> set ids. \<forall>g. map_of (games w) k = Some g \<longrightarrow> refuses w r g
   | Some g' \<Rightarrow> \<exists>before k g after. ids = before @ k # after \<and> map_of (games w) k = Some g \<and> accepts w r g g' \<and>
       (\<forall>j \<in> set before. \<forall>g. map_of (games w) j = Some g \<longrightarrow> refuses w r g))"

lemma choice_Cons:
  assumes "choice w r ids res" and "\<forall>g. map_of (games w) k = Some g \<longrightarrow> refuses w r g"
  shows "choice w r (k # ids) res"
proof (cases res)
  case None
  with assms show ?thesis by (simp add: choice_def)
next
  case (Some g')
  with assms(1) obtain before j g after where "ids = before @ j # after" "map_of (games w) j = Some g"
    "accepts w r g g'" "\<forall>j \<in> set before. \<forall>g. map_of (games w) j = Some g \<longrightarrow> refuses w r g"
    by (auto simp: choice_def)
  with assms(2) show ?thesis
    unfolding choice_def Some option.case by (intro exI [of _ "k # before"] exI [of _ j] exI [of _ g] exI [of _ after]) simp
qed

lemma choice_similar:
  assumes "choice w' r ids res" and "heap w' = heap w"
    and "\<And>k. rel_option similar (map_of (games w) k) (map_of (games w') k)"
  shows "choice w r ids res"
proof -
  have some: "\<exists>h. map_of (games w') k = Some h \<and> similar g h" if "map_of (games w) k = Some g" for k g
    using assms(3) [of k] that by (cases "map_of (games w') k") auto
  have orig: "\<exists>g. map_of (games w) k = Some g \<and> similar g h" if "map_of (games w') k = Some h" for k h
    using assms(3) [of k] that by (cases "map_of (games w) k") auto
  have ref: "refuses w r g" if "map_of (games w) k = Some g"
      "\<forall>h. map_of (games w') k = Some h \<longrightarrow> refuses w' r h" for k g
    using some [OF that(1)] that(2) similar_refuses accepts_cong(2) [OF assms(2)] by metis
  show ?thesis
  proof (cases res)
    case None
    with assms(1) ref show ?thesis by (simp add: choice_def)
  next
    case (Some g')
    with assms(1) obtain before j h after where c: "ids = before @ j # after" "map_of (games w') j = Some h"
      "accepts w' r h g'" "\<forall>j \<in> set before. \<forall>g. map_of (games w') j = Some g \<longrightarrow> refuses w' r g"
      by (auto simp: choice_def)
    from orig [OF c(2)] obtain g where g: "map_of (games w) j = Some g" "similar g h" by blast
    have "accepts w r g g'" using c(3) similar_accepts [OF g(2)] accepts_cong(1) [OF assms(2)] by metis
    moreover have "\<forall>j \<in> set before. \<forall>g. map_of (games w) j = Some g \<longrightarrow> refuses w r g" using c(4) ref by blast
    ultimately show ?thesis using c(1) g(1) unfolding choice_def Some option.case by blast
  qed
qed

lemma join_loop_choice: "join_loop now r ids w = Inr (res, w') \<Longrightarrow> choice w r ids res"
proof (induction ids arbitrary: w)
  case Nil
  then show ?case by (simp add: choice_def)
next
  case (Cons k ids)
  show ?case
  proof (cases "map_of (games w) k")
    case None
    with Cons show ?thesis by (intro choice_Cons) simp_all
  next
    case (Some g)
    with Cons.prems obtain c where c: "isCompatibleGame g r = Inr c" by (auto simp: go_bind_Inr_iff)
    show ?thesis
    proof (cases c)
      case False
      with Cons Some c show ?thesis by (intro choice_Cons) (simp_all add: refuses_def)
    next
      case True
      obtain slot added g' where a: "addMember (heap w) now (session r) g = ((slot, added), g')" by (metis surj_pair)
      note ar = addMember_refused [OF c [unfolded True [THEN eqTrueI]] a]
      show ?thesis
      proof (cases added)
        case False
        have "join_loop now r ids (put_game g' k w) = Inr (res, w')"
          using Cons.prems Some c True a False by simp
        from Cons.IH [OF this] have "choice w r ids res"
        proof (rule choice_similar)
          have "similar x x" for x by (simp add: similar_def same_game_def)
          then show "rel_option similar (map_of (games w) j) (map_of (games (put_game g' k w)) j)" for j
            using ar False Some by (cases "map_of (games w) j") auto
        qed simp
        then show ?thesis using ar False Some by (intro choice_Cons) simp_all
      next
        case t: True
        then have "res = Some g'" using Cons.prems Some c True a by auto
        with ar t Some show ?thesis
          unfolding choice_def by (simp, intro exI [of _ "[]"]) auto
      qed
    qed
  qed
qed


lemma join_game_out:
  assumes "join_game now r g v = Inr (out, w')"
  shows "\<exists>g2 a b. out = Joined g2 r a b \<and> same_game g g2 \<and> map_of (games w') (ID g) = Some g2 \<and>
    (\<forall>m. m \<noteq> session r \<longrightarrow> heap w' m = heap v m) \<and>
    GameID (heap w' (session r)) = ID g \<and> QueuedMatchID (heap w' (session r)) = 0"
proof -
  define h where "h = session r"
  define u where "u = upd h (\<lambda>s. s\<lparr>GameID := ID g, PendingMatchmakingGame := ID g, QueuedMatchID := 0\<rparr>) v"
  obtain p g1 where g1: "replicatedGamePlayer (heap u) now g h = (p, g1)" by fastforce
  obtain st g2 where g2: "gameSetup (heap u) now g1 = (st, g2)" by fastforce
  have "same_game g g2"
    using replicated_keeps(2) [where H = "heap u" and now = now and g = g and p = h]
      gameSetup_keeps(2) [where H = "heap u" and now = now and g = g1]
    by (simp add: g1 g2 same_game_def)
  moreover have "\<exists>a b. out = Joined g2 r a b" "w' = put_game g2 (ID g2) u"
    using assms unfolding join_game_def Let_def h_def [symmetric] u_def [symmetric]
    by (auto simp: g1 g2 go_bind_Inr_iff)
  ultimately show ?thesis by (auto simp: u_def h_def same_game_def)
qed

lemma pair_up_out:
  assumes "pair_up now r i v = Inr (out, w')"
  shows "\<exists>g a b. out = Paired (matchQueue v ! i) g a b \<and> map_of (games w') (nextGameID v) = Some g \<and>
    same_game (newGame (heap v) now (nextGameID v) (session (matchQueue v ! i))
      [session (matchQueue v ! i), session r] (attrs (matchQueue v ! i)) (cap (matchQueue v ! i))
      (topology (matchQueue v ! i)) 1) g \<and>
    (\<forall>m. heap w' m = (if m \<in> set (Members g)
       then (heap v m)\<lparr>GameID := nextGameID v, PendingMatchmakingGame := nextGameID v, QueuedMatchID := 0\<rparr> else heap v m))"
proof -
  define q where "q = matchQueue v ! i"
  define g0 where "g0 = newGame (heap v) now (nextGameID v) (session q) [session q, session r] (attrs q) (cap q) (topology q) 1"
  define u where "u = fold (start_member (nextGameID v)) (Members g0)
    (v\<lparr>matchQueue := take i (matchQueue v) @ drop (Suc i) (matchQueue v),
      nextGameID := nextGameID v + 1, games := AList.update (nextGameID v) g0 (games v)\<rparr>)"
  obtain st1 g1 where g1: "gameSetup (heap u) now g0 = (st1, g1)" by fastforce
  obtain st2 g2 where g2: "gameSetup (heap u) now g1 = (st2, g2)" by fastforce
  have "same_game g0 g2"
    using gameSetup_keeps(2) [where H = "heap u" and now = now and g = g0]
      gameSetup_keeps(2) [where H = "heap u" and now = now and g = g1]
    by (simp add: g1 g2 same_game_def)
  moreover have "\<exists>a b. out = Paired q g2 a b" "w' = put_game g2 (nextGameID v) u"
    using assms unfolding pair_up_def Let_def q_def [symmetric] g0_def [symmetric] u_def [symmetric]
    by (auto simp: g1 g2 go_bind_Inr_iff)
  moreover have "heap u m = (if m \<in> set (Members g0)
      then (heap v m)\<lparr>GameID := nextGameID v, PendingMatchmakingGame := nextGameID v, QueuedMatchID := 0\<rparr> else heap v m)" for m
    by (simp add: u_def fold_start)
  ultimately show ?thesis unfolding q_def [symmetric] g0_def [symmetric] by (auto simp: same_game_def)
qed

lemma join_loop_frame: "join_loop now r ids w = Inr (res, w') \<Longrightarrow> \<exists>G. w' = w\<lparr>games := G\<rparr>"
proof (induction ids arbitrary: w)
  case Nil
  then have "w' = w\<lparr>games := games w\<rparr>" by simp
  then show ?case by blast
next
  case (Cons k ids)
  have put: "\<exists>G. put_game g k w = w\<lparr>games := G\<rparr>" for g by (auto simp: put_game_def)
  have step: "\<exists>G. w' = w\<lparr>games := G\<rparr>" if "join_loop now r ids (put_game g k w) = Inr (res, w')" for g
    using Cons.IH [OF that] by (auto simp: put_game_def)
  show ?case
    using Cons.prems Cons.IH put step
    by (auto simp: go_bind_Inr_iff split_beta split: option.splits if_splits)
qed

lemma find_match_first:
  "find_match q r i = Inr (Some j) \<Longrightarrow> x \<in> set (take (j - i) q) \<Longrightarrow> session x \<noteq> session r \<Longrightarrow>
   isCompatibleMatch x r = Inr False"
proof (induction q arbitrary: i)
  case (Cons y q)
  show ?case
  proof (cases "j = i")
    case True
    then show ?thesis using Cons.prems(2) by simp
  next
    case False
    then have n: "find_match q r (Suc i) = Inr (Some j)"
      using Cons.prems(1) by (auto simp: go_bind_Inr_iff split: if_splits)
    then have "j - i = Suc (j - Suc i)" using conjunct1 [OF find_match_hit [OF n]] by arith
    then have "x = y \<or> x \<in> set (take (j - Suc i) q)" using Cons.prems(2) by simp
    then show ?thesis
    proof
      assume "x = y"
      then show ?thesis using Cons.prems False by (auto simp: go_bind_Inr_iff split: if_splits)
    qed (use Cons.IH [OF n] Cons.prems(3) in blast)
  qed
qed simp

lemma searching_same:
  "games (searching h w) = games w" "nextGameID (searching h w) = nextGameID w"
  "PersonaID (heap (searching h w) x) = PersonaID (heap w x)"
  "refuses (searching h w) = refuses w" "accepts (searching h w) = accepts w"
proof -
  show s: "games (searching h w) = games w" "nextGameID (searching h w) = nextGameID w"
    "PersonaID (heap (searching h w) x) = PersonaID (heap w x)" for x
    by (simp_all add: searching_def)
  then show "refuses (searching h w) = refuses w" "accepts (searching h w) = accepts w"
    by (simp_all add: refuses_def accepts_def fun_eq_iff)
qed

lemma all_refuse:
  assumes "join_loop now c ids (searching h w) = Inr (None, v)" and "set ids = fst ` set (games w)"
    and "map_of (games w) j = Some g"
  shows "refuses w c g"
  using join_loop_choice [OF assms(1)] assms(2,3) by (force simp: choice_def searching_same dest: map_of_SomeD)

lemma searching_heap:
  "m \<noteq> h \<Longrightarrow> heap (searching h w) m = heap w m" "GameID (heap (searching h w) h) = 0"
  by (simp_all add: searching_def removeQueuedSessionLocked_def)

lemma member_ignored:
  assumes "lobby_ok s w" and "GameID (heap w h) \<noteq> 0"
  shows "queueMatch_locked now h req w = Inr ((nextMatchID w, InGame), w\<lparr>nextMatchID := nextMatchID w + 1\<rparr>)"
  using active_iff [OF assms(1), of h] assms(2) by (auto simp: queueMatch_locked_def Let_def)

lemma outcome_joined:
  assumes ok: "lobby_ok False w" and j: "join_loop now c ids (searching (session c) w) = Inr (Some g, v)"
    and o: "join_game now c g v = Inr (out, w')" and ids: "set ids = fst ` set (games w)" "sorted (map sint ids)"
  shows "\<exists>g2 a b k g0. out = Joined g2 c a b \<and> map_of (games w) k = Some g0 \<and> accepts w c g0 g2 \<and>
    map_of (games w') k = Some g2 \<and> GameID (heap w' (session c)) = k \<and> QueuedMatchID (heap w' (session c)) = 0 \<and>
    (\<forall>m. m \<noteq> session c \<longrightarrow> heap w' m = heap w m) \<and>
    (\<forall>j g1. map_of (games w) j = Some g1 \<and> sint j < sint k \<longrightarrow> refuses w c g1) \<and>
    matchQueue w' = filter (\<lambda>x. session x \<noteq> session c) (matchQueue w)"
proof -
  from join_loop_choice [OF j] obtain before k g0 after where
    k: "ids = before @ k # after" "map_of (games w) k = Some g0" "accepts w c g0 g"
      "\<forall>j \<in> set before. \<forall>g. map_of (games w) j = Some g \<longrightarrow> refuses w c g"
    by (auto simp: choice_def searching_same)
  from join_game_out [OF o] obtain g2 a b where
    out: "out = Joined g2 c a b" "same_game g g2" "GameID (heap w' (session c)) = ID g"
      "map_of (games w') (ID g) = Some g2" "\<forall>m. m \<noteq> session c \<longrightarrow> heap w' m = heap v m" "QueuedMatchID (heap w' (session c)) = 0"
    by auto
  obtain G where v: "v = (searching (session c) w)\<lparr>games := G\<rparr>" using join_loop_frame [OF j] by blast
  have q: "matchQueue w' = filter (\<lambda>x. session x \<noteq> session c) (matchQueue w)"
    using queue_join_game [OF o] queue_join_loop [OF j] by simp
  have others: "heap w' m = heap w m" if "m \<noteq> session c" for m using out(5) that by (simp add: v searching_heap)
  have "ID g = k" using lobby_game [OF ok k(2)] k(3) by (simp add: game_in_def accepts_def)
  moreover have "accepts w c g0 g2" using k(3) out(2) by (simp add: accepts_def same_game_def)
  moreover have "refuses w c g1" if "map_of (games w) j = Some g1" "sint j < sint k" for j g1
  proof -
    have "j \<in> set ids" using that(1) ids(1) by (force dest: map_of_SomeD)
    moreover have "j \<notin> set (k # after)" using that(2) ids(2) k(1) by (auto simp: sorted_append)
    ultimately show ?thesis using k(1,4) that(1) by auto
  qed
  ultimately show ?thesis using k(2) out q others by auto
qed

lemma outcome_paired:
  assumes j: "join_loop now c ids (searching (session c) w) = Inr (None, v)" and m: "find_match (matchQueue v) c 0 = Inr (Some i)"
    and o: "pair_up now c i v = Inr (out, w')"
  shows "\<exists>q g a b before after. out = Paired q g a b \<and> isCompatibleMatch q c = Inr True \<and>
    filter (\<lambda>x. session x \<noteq> session c) (matchQueue w) = before @ q # after \<and>
    (\<forall>x \<in> set before. isCompatibleMatch x c = Inr False) \<and> matchQueue w' = before @ after \<and>
    map_of (games w') (nextGameID w) = Some g \<and> ID g = nextGameID w \<and> Host g = session q \<and>
    Members g = (if PersonaID (heap w (session c)) = PersonaID (heap w (session q)) then [session q] else [session q, session c]) \<and>
    (\<forall>m \<in> set (Members g). GameID (heap w' m) = nextGameID w \<and> QueuedMatchID (heap w' m) = 0) \<and>
    (\<forall>m. m \<notin> set (Members g) \<longrightarrow> m \<noteq> session c \<longrightarrow> heap w' m = heap w m)"
proof -
  have mq: "matchQueue v = filter (\<lambda>x. session x \<noteq> session c) (matchQueue w)" using queue_join_loop [OF j] by simp
  obtain G where v: "v = (searching (session c) w)\<lparr>games := G\<rparr>" using join_loop_frame [OF j] by blast
  let ?q = "matchQueue v ! i"
  have hit: "i < length (matchQueue v)" "session ?q \<noteq> session c" "isCompatibleMatch ?q c = Inr True"
    using find_match_hit [OF m] by simp_all
  then have cap: "2 \<le> sint (cap ?q)" by (simp add: isCompatibleMatch_def split: if_splits)
  from pair_up_out [OF o] obtain g a b where out: "out = Paired ?q g a b" "map_of (games w') (nextGameID v) = Some g"
    "same_game (newGame (heap v) now (nextGameID v) (session ?q) [session ?q, session c] (attrs ?q) (cap ?q) (topology ?q) 1) g"
    "\<forall>m. heap w' m = (if m \<in> set (Members g)
       then (heap v m)\<lparr>GameID := nextGameID v, PendingMatchmakingGame := nextGameID v, QueuedMatchID := 0\<rparr> else heap v m)"
    by auto
  have g: "ID g = nextGameID w" "Host g = session ?q"
      "Members g = (if PersonaID (heap w (session c)) = PersonaID (heap w (session ?q)) then [session ?q] else [session ?q, session c])"
    using newGame_pair [OF cap hit(2), of "heap v" now "nextGameID v" "attrs ?q" "topology ?q" 1] out(3)
    by (simp_all add: same_game_def v searching_same)
  have first: "\<forall>x \<in> set (take i (matchQueue v)). isCompatibleMatch x c = Inr False"
  proof
    fix x assume x: "x \<in> set (take i (matchQueue v))"
    then have "session x \<noteq> session c" using in_set_takeD [OF x] by (simp add: mq)
    with x find_match_first [OF m, of x] show "isCompatibleMatch x c = Inr False" by simp
  qed
  have split: "filter (\<lambda>x. session x \<noteq> session c) (matchQueue w) = take i (matchQueue v) @ ?q # drop (Suc i) (matchQueue v)"
    using id_take_nth_drop [OF hit(1)] mq by simp
  have reg: "map_of (games w') (nextGameID w) = Some g" using out(2) by (simp add: v searching_same)
  have members: "\<forall>m \<in> set (Members g). GameID (heap w' m) = nextGameID w \<and> QueuedMatchID (heap w' m) = 0"
    using out(4) by (simp add: v searching_same)
  have others: "\<forall>m. m \<notin> set (Members g) \<longrightarrow> m \<noteq> session c \<longrightarrow> heap w' m = heap w m"
    using out(4) by (simp add: v searching_heap)
  show ?thesis
    by (rule exI [of _ ?q], rule exI [of _ g], rule exI [of _ a], rule exI [of _ b],
        rule exI [of _ "take i (matchQueue v)"], rule exI [of _ "drop (Suc i) (matchQueue v)"])
      (intro conjI out(1) hit(3) split first reg g queue_pair_up [OF o] members others)
qed

text \<open>
  Claim C5. A matchmaking request gets exactly what it should.  It is ignored exactly when the session is in
  a game.  Otherwise it leaves its old place in the queue and joins the lowest-numbered game that accepts it;
  when all refuse, it is paired with the first fitting request of the queue, whose session hosts the new
  game and which leaves the queue; and only when no other request fits either is it queued itself.  The
  sessions it puts into a game are in that game and in no queue, and no other session changes.
\<close>

theorem matchmaking_outcome:
  assumes run: "run lobby_start lobby_step ls w" and live: "live w h" and left: "numbers_left w"
    and r: "queueMatch_locked now h req w = Inr ((ms, out), w')"
  defines "c \<equiv> candidate h req ms"
  shows "(out = InGame \<longleftrightarrow> GameID (heap w h) \<noteq> 0) \<and> ms = nextMatchID w \<and>
    (case out of
      InGame \<Rightarrow> w' = w\<lparr>nextMatchID := ms + 1\<rparr>
    | Joined g r _ _ \<Rightarrow> r = c \<and> (\<exists>k g0. map_of (games w) k = Some g0 \<and> accepts w c g0 g \<and> map_of (games w') k = Some g \<and>
        GameID (heap w' h) = k \<and> QueuedMatchID (heap w' h) = 0 \<and> (\<forall>m. m \<noteq> h \<longrightarrow> heap w' m = heap w m) \<and>
        (\<forall>j g1. map_of (games w) j = Some g1 \<and> sint j < sint k \<longrightarrow> refuses w c g1) \<and>
        matchQueue w' = filter (\<lambda>x. session x \<noteq> h) (matchQueue w))
    | Queued \<Rightarrow> (\<forall>j g. map_of (games w) j = Some g \<longrightarrow> refuses w c g) \<and>
        (\<forall>x \<in> set (matchQueue w). session x \<noteq> h \<longrightarrow> isCompatibleMatch x c = Inr False) \<and>
        matchQueue w' = filter (\<lambda>x. session x \<noteq> h) (matchQueue w) @ [c] \<and>
        GameID (heap w' h) = 0 \<and> QueuedMatchID (heap w' h) = ms \<and> (\<forall>m. m \<noteq> h \<longrightarrow> heap w' m = heap w m)
    | Paired q g _ _ \<Rightarrow> (\<forall>j g. map_of (games w) j = Some g \<longrightarrow> refuses w c g) \<and> isCompatibleMatch q c = Inr True \<and>
        (\<exists>before after. filter (\<lambda>x. session x \<noteq> h) (matchQueue w) = before @ q # after \<and>
           (\<forall>x \<in> set before. isCompatibleMatch x c = Inr False) \<and> matchQueue w' = before @ after) \<and>
        map_of (games w') (nextGameID w) = Some g \<and> ID g = nextGameID w \<and> Host g = session q \<and>
        Members g = (if PersonaID (heap w h) = PersonaID (heap w (session q)) then [session q] else [session q, h]) \<and>
        (\<forall>m \<in> set (Members g). GameID (heap w' m) = nextGameID w \<and> QueuedMatchID (heap w' m) = 0) \<and>
        (\<forall>m. m \<notin> set (Members g) \<longrightarrow> m \<noteq> h \<longrightarrow> heap w' m = heap w m))"
proof -
  have ok: "lobby_ok False w" by (rule lobby.run_inv [OF run])
  have s: "session c = h" by (simp add: c_def)
  have member: "out = InGame" if "GameID (heap w h) \<noteq> 0" using r member_ignored [OF ok that, of now req] by simp
  from r show ?thesis
  proof (cases rule: queueMatch_cases)
    case (in_game g)
    then show ?thesis by simp
  next
    case (joined ids g v)
    from outcome_joined [OF ok joined(1,2) [folded c_def, folded s] joined(4,5)] member joined(3) show ?thesis
      unfolding s by auto
  next
    case (queued ids v)
    have mq: "matchQueue v = filter (\<lambda>x. session x \<noteq> h) (matchQueue w)" using queue_join_loop [OF queued(1)] by simp
    have "isCompatibleMatch x c = Inr False" if "x \<in> set (matchQueue w)" "session x \<noteq> h" for x
      using find_match_none [OF queued(2), of x] that by (simp add: mq c_def)
    moreover obtain G where "v = (searching h w)\<lparr>games := G\<rparr>" using join_loop_frame [OF queued(1)] by blast
    ultimately show ?thesis
      using all_refuse [OF queued(1,6)] queued(3,4,5) member by (auto simp: mq c_def searching_heap)
  next
    case (paired ids v i)
    from outcome_paired [OF paired(1-3) [folded c_def, folded s]] obtain q g a b where
      o: "out = Paired q g a b" by blast
    from outcome_paired [OF paired(1-3) [folded c_def, folded s]] all_refuse [OF paired(1,5)] member paired(4) show ?thesis
      unfolding s c_def [symmetric] by (simp add: o) fastforce
  qed
qed

definition quick_match :: Frame where
  "quick_match = bare_request ComponentGameManager CommandStartMatchmaking"

definition two_players :: Server where
  "two_players = authenticateSessionNamed 3 0 '''' (authenticateSessionNamed 2 0 '''' fresh_server)"

lemma two_players_run: "run lobby_start lobby_step [Login 2, Login 3] two_players"
proof -
  have "numbers_left (authenticateSessionNamed 2 0 '''' fresh_server)"
    by (simp add: authenticateSessionNamed_def choosePersona_def taken_def fresh_server_def New_def newSession_def
        Let_def numbers_left_def roomy_def)
  from run_step [OF run_login lobby_step.login [OF this]] show ?thesis by (simp add: two_players_def)
qed

lemma two_players_state:
  "PersonaID (heap two_players 2) = 1" "PersonaID (heap two_players 3) = 2" "GameID (heap two_players h) = 0"
  "numbers_left two_players" "live two_players 2" "live two_players 3" "matchQueue two_players = []" "games two_players = []"
  "clean_server two_players" "nextMatchID two_players = 1" "nextUserID two_players = 3"
  by (simp_all add: two_players_def authenticateSessionNamed_def choosePersona_def taken_def fresh_server_def New_def
      newSession_def Let_def numbers_left_def roomy_def live_def update_conv' clean_server_def clean_session_def)

lemma quick_match_fits: "isCompatibleMatch (candidate h quick_match i) (candidate k quick_match j) = Inr True"
  by (simp add: isCompatibleMatch_def candidate_def quick_match_def bare_request_def getMatchmakingCapacity_def
      getMatchmakingTopology_def frame_fields_def field_defs match_keys_def)

lemma first_waits:
  "\<exists>w. queueMatch_locked 5 2 quick_match two_players = Inr ((1, Queued), w) \<and> live w 3 \<and> numbers_left w \<and>
     GameID (heap w 3) = 0 \<and> matchQueue w = [candidate 2 quick_match 1] \<and> games w = [] \<and>
     PersonaID (heap w 2) = 1 \<and> PersonaID (heap w 3) = 2"
  using two_players_state
  by (simp add: queueMatch_locked_def Let_def candidate_def numbers_left_def roomy_def live_def removeQueuedSessionLocked_def upd_def)

theorem matchmaking_outcome_witness:
  "\<exists>w w' ms q g a b. run lobby_start lobby_step [Login 2, Login 3, Act 2] w \<and>
     queueMatch_locked 6 3 quick_match w = Inr ((ms, Paired q g a b), w') \<and> Members g = [2, 3] \<and> Host g = 2 \<and> matchQueue w' = []"
proof -
  obtain w where w: "queueMatch_locked 5 2 quick_match two_players = Inr ((1, Queued), w)"
    "live w 3" "numbers_left w" "GameID (heap w 3) = 0" "matchQueue w = [candidate 2 quick_match 1]"
    "games w = []" "PersonaID (heap w 2) = 1" "PersonaID (heap w 3) = 2"
    using first_waits by blast
  have run: "run lobby_start lobby_step [Login 2, Login 3, Act 2] w"
    using run_step [OF two_players_run lobby_step.matchmake [OF two_players_state(5,4) w(1)]] by simp
  have "clean_server w"
    using queueMatch_locked_clean [OF two_players_state(9), of quick_match 5 2] w(1) bare_request_clean
    by (auto simp: quick_match_def)
  then obtain ms out w' where m: "queueMatch_locked 6 3 quick_match w = Inr ((ms, out), w')"
    using queueMatch_locked_clean [of w quick_match 6 3] bare_request_clean by (auto simp: quick_match_def)
  note o = matchmaking_outcome [OF run w(2,3) m]
  show ?thesis
  proof (cases out)
    case (Paired q g a b)
    then have "Members g = [2, 3] \<and> Host g = 2 \<and> matchQueue w' = []"
      using o w(5-) by (auto simp: Cons_eq_append_conv)
    with run m Paired show ?thesis by blast
  qed (use o w(4-) quick_match_fits in simp_all)
qed

end
