(* ===== verification/Session_Properties.thy ===== *)
theory Session_Properties
  imports Match_Properties
begin

section \<open>Logging in\<close>

lemma persona_loop_more: "n \<le> f \<Longrightarrow> \<not> taken w (persona_loop n w p) \<Longrightarrow> persona_loop f w p = persona_loop n w p"
proof (induction n arbitrary: f p)
  case 0
  then show ?case by (cases f) simp_all
next
  case (Suc n)
  from Suc.prems(1) obtain f' where f: "f = Suc f'" "n \<le> f'" by (cases f) simp_all
  show ?case
  proof (cases "taken w p")
    case True
    then have "persona_loop f' w (p + 1) = persona_loop n w (p + 1)"
      using Suc.IH [OF f(2), of "p + 1"] Suc.prems(2) by simp
    with True f show ?thesis by simp
  qed (simp add: f)
qed

text \<open>
  Claim C24. The search for an unused persona ends: after at most as many rounds as there are
  registrations it stands at a persona that is neither active nor taken, and more fuel changes
  nothing, so the bounded loop of the model is the unbounded one of the code.
\<close>

theorem persona_search_terminates:
  assumes "length (activePersonas w) + length (users w) < 2 ^ 64"
    and "length (activePersonas w) + length (users w) \<le> fuel"
  shows "\<not> taken w (persona_loop fuel w p) \<and>
    persona_loop fuel w p = persona_loop (length (activePersonas w) + length (users w)) w p"
  using persona_loop_fresh [OF assms(1)] persona_loop_more [OF assms(2)] by metis

theorem persona_search_terminates_witness:
  "\<not> taken two_players (persona_loop 100 two_players 1) \<and> persona_loop 100 two_players 1 = 3"
proof -
  have l: "length (activePersonas two_players) + length (users two_players) = 4"
    and e: "persona_loop 4 two_players 1 = 3"
    by (simp_all add: two_players_def authenticateSessionNamed_def choosePersona_def taken_def fresh_server_def New_def
      newSession_def Let_def eval_nat_numeral)
  have n: "(4 :: nat) < 2 ^ 64" "(4 :: nat) \<le> 100" by simp_all
  show ?thesis by (rule persona_search_terminates [of two_players 100 1, unfolded l e, OF n])
qed

text \<open>
  Claim C10. A login by an unauthenticated session gives it a persona no connected session has,
  the requested one whenever that is positive and free; the identity registered under it is
  kept (its account, and its name unless the request gives one), a new one gets the persona's
  number as account; every other registration stays, and the connection gets the next session
  number.
\<close>

theorem login_identity_correct:
  assumes run: "run lobby_start lobby_step ls w" and left: "numbers_left w" and new: "PersonaID (heap w h) = 0"
  shows "\<exists>p. let s = heap (authenticateSessionNamed h r n w) h in
    PersonaID s = p \<and> p \<noteq> 0 \<and> map_of (activePersonas w) p = None \<and>
    (0 < sint r \<and> map_of (activePersonas w) r = None \<longrightarrow> p = r) \<and>
    AccountID s = (case map_of (users w) p of Some u \<Rightarrow> userAccountID u | None \<Rightarrow> p) \<and>
    Persona s = (if n \<noteq> '''' then n else case map_of (users w) p of Some u \<Rightarrow> Name u | None \<Rightarrow> personaName p) \<and>
    SessionID s = nextSessionID w \<and>
    map_of (activePersonas (authenticateSessionNamed h r n w)) = (map_of (activePersonas w))(p \<mapsto> h)"
proof -
  have ok: "auth_ok w" by (rule lobby_auth [OF lobby.run_inv [OF run]])
  have "map_of (activePersonas w) (choosePersona r w) = None"
    using left choosePersona_free by (simp add: numbers_left_def)
  moreover have "0 < sint r \<and> map_of (activePersonas w) r = None \<longrightarrow> choosePersona r w = r"
    by (auto simp: choosePersona_def)
  ultimately show ?thesis
    using choosePersona_nonzero [OF left]
    by (intro exI [of _ "choosePersona r w"])
      (simp add: authenticate_new [OF new ok] Let_def update_conv' login_identity_def split: option.splits)
qed

theorem login_identity_correct_witness:
  "PersonaID (heap (authenticateSessionNamed 3 7 ''bob'' (authenticateSessionNamed 2 7 ''ann'' fresh_server)) 3) \<noteq> 7 \<and>
   Persona (heap (authenticateSessionNamed 3 7 ''bob'' (authenticateSessionNamed 2 7 ''ann'' fresh_server)) 3) = ''bob''"
proof -
  let ?w = "authenticateSessionNamed 2 7 ''ann'' fresh_server"
  have w: "numbers_left ?w" "PersonaID (heap ?w 3) = 0" "map_of (activePersonas ?w) 7 = Some 2"
    by (simp_all add: authenticateSessionNamed_def choosePersona_def fresh_server_def New_def newSession_def
        Let_def numbers_left_def roomy_def update_conv')
  from login_identity_correct [OF run_login w(1,2), of 7 "''bob''"] w(3) show ?thesis by (auto simp: Let_def)
qed

text \<open>
  The persona counter overflows: after a login that requests the largest 64-bit number,
  the next login without a request gets a negative persona, which no later login can request.
\<close>

theorem persona_counter_overflows:
  "sint (PersonaID (heap (authenticateSessionNamed 3 0 ''''
      (authenticateSessionNamed 2 (2 ^ 63 - 1) '''' fresh_server)) 3)) = - (2 ^ 63)"
  by (simp add: authenticateSessionNamed_def choosePersona_def taken_def fresh_server_def New_def newSession_def Let_def)

end
