(* ===== verification/Go_Crypto.thy ===== *)
theory Go_Crypto
  imports HP_Prelude
begin

text \<open>
  What legacytls uses of Go's crypto packages: MD5, SHA-1 and HMAC over them, the RC4 stream
  cipher, and decryption with RSA under PKCS #1 v1.5.  Cryptographic strength is no concern of
  the model: the facts proved are the sizes of the results, that RC4 undoes itself, and what a
  padded block decrypts to.
\<close>

section \<open>Hash functions\<close>

definition put_le32 :: "u32 \<Rightarrow> bytes" where
  "put_le32 w = rev (put_u32 w)"

definition get_le32 :: "bytes \<Rightarrow> u32" where
  "get_le32 b = get_u32 (rev (take 4 b))"

definition put_u64 :: "u64 \<Rightarrow> bytes" where
  "put_u64 w = put_u32 (ucast (drop_bit 32 w)) @ put_u32 (ucast w)"

definition blocks :: "nat \<Rightarrow> 'a list \<Rightarrow> 'a list list" where
  "blocks n xs = map (\<lambda>i. take n (drop (n * i) xs)) [0..<length xs div n]"

text \<open>The padding of both functions, up to the byte order of the length.\<close>

definition hash_pad :: "(u64 \<Rightarrow> bytes) \<Rightarrow> bytes \<Rightarrow> bytes" where
  "hash_pad put_len m =
     m @ 0x80 # replicate ((119 - length m mod 64) mod 64) 0 @ put_len (8 * of_nat (length m))"

type_synonym md5_state = "u32 \<times> u32 \<times> u32 \<times> u32"

definition md5_table :: "u32 list" where
  "md5_table =
    [0xd76aa478, 0xe8c7b756, 0x242070db, 0xc1bdceee, 0xf57c0faf, 0x4787c62a, 0xa8304613, 0xfd469501,
     0x698098d8, 0x8b44f7af, 0xffff5bb1, 0x895cd7be, 0x6b901122, 0xfd987193, 0xa679438e, 0x49b40821,
     0xf61e2562, 0xc040b340, 0x265e5a51, 0xe9b6c7aa, 0xd62f105d, 0x02441453, 0xd8a1e681, 0xe7d3fbc8,
     0x21e1cde6, 0xc33707d6, 0xf4d50d87, 0x455a14ed, 0xa9e3e905, 0xfcefa3f8, 0x676f02d9, 0x8d2a4c8a,
     0xfffa3942, 0x8771f681, 0x6d9d6122, 0xfde5380c, 0xa4beea44, 0x4bdecfa9, 0xf6bb4b60, 0xbebfbc70,
     0x289b7ec6, 0xeaa127fa, 0xd4ef3085, 0x04881d05, 0xd9d4d039, 0xe6db99e5, 0x1fa27cf8, 0xc4ac5665,
     0xf4292244, 0x432aff97, 0xab9423a7, 0xfc93a039, 0x655b59c3, 0x8f0ccc92, 0xffeff47d, 0x85845dd1,
     0x6fa87e4f, 0xfe2ce6e0, 0xa3014314, 0x4e0811a1, 0xf7537e82, 0xbd3af235, 0x2ad7d2bb, 0xeb86d391]"

definition md5_shift :: "nat \<Rightarrow> nat" where
  "md5_shift i = [[7, 12, 17, 22], [5, 9, 14, 20], [4, 11, 16, 23], [6, 10, 15, 21]] ! (i div 16) ! (i mod 4)"

definition md5_round :: "u32 list \<Rightarrow> nat \<Rightarrow> md5_state \<Rightarrow> md5_state" where
  "md5_round M i = (\<lambda>(a, b, c, d).
     let (f, g) = (if i < 16 then ((b AND c) OR (NOT b AND d), i)
            else if i < 32 then ((d AND b) OR (NOT d AND c), (5 * i + 1) mod 16)
            else if i < 48 then (b XOR c XOR d, (3 * i + 5) mod 16)
            else (c XOR (b OR NOT d), 7 * i mod 16))
     in (d, b + word_rotl (md5_shift i) (f + a + md5_table ! i + M ! g), b, c))"

definition md5_block :: "bytes \<Rightarrow> md5_state \<Rightarrow> md5_state" where
  "md5_block block s =
     (let M = map get_le32 (blocks 4 block);
          (a, b, c, d) = s;
          (a', b', c', d') = fold (md5_round M) [0..<64] s
      in (a + a', b + b', c + c', d + d'))"

definition md5_sum :: "bytes \<Rightarrow> bytes" where
  "md5_sum m =
     (let (a, b, c, d) = fold md5_block (blocks 64 (hash_pad (\<lambda>n. rev (put_u64 n)) m))
        (0x67452301, 0xefcdab89, 0x98badcfe, 0x10325476)
      in put_le32 a @ put_le32 b @ put_le32 c @ put_le32 d)"

type_synonym sha1_state = "u32 \<times> u32 \<times> u32 \<times> u32 \<times> u32"

text \<open>The message schedule is kept newest word first.\<close>

fun sha1_schedule :: "nat \<Rightarrow> u32 list \<Rightarrow> u32 list" where
  "sha1_schedule 0 ws = ws"
| "sha1_schedule (Suc n) ws =
     sha1_schedule n (word_rotl 1 (ws ! 2 XOR ws ! 7 XOR ws ! 13 XOR ws ! 15) # ws)"

definition sha1_round :: "u32 list \<Rightarrow> nat \<Rightarrow> sha1_state \<Rightarrow> sha1_state" where
  "sha1_round W i = (\<lambda>(a, b, c, d, e).
     let (f, k) = (if i < 20 then ((b AND c) OR (NOT b AND d), 0x5a827999)
            else if i < 40 then (b XOR c XOR d, 0x6ed9eba1)
            else if i < 60 then ((b AND c) OR (b AND d) OR (c AND d), 0x8f1bbcdc)
            else (b XOR c XOR d, 0xca62c1d6))
     in (word_rotl 5 a + f + e + k + W ! i, a, word_rotl 30 b, c, d))"

definition sha1_block :: "bytes \<Rightarrow> sha1_state \<Rightarrow> sha1_state" where
  "sha1_block block s =
     (let W = rev (sha1_schedule 64 (rev (map get_u32 (blocks 4 block))));
          (a, b, c, d, e) = s;
          (a', b', c', d', e') = fold (sha1_round W) [0..<80] s
      in (a + a', b + b', c + c', d + d', e + e'))"

definition sha1_sum :: "bytes \<Rightarrow> bytes" where
  "sha1_sum m =
     (let (a, b, c, d, e) = fold sha1_block (blocks 64 (hash_pad put_u64 m))
        (0x67452301, 0xefcdab89, 0x98badcfe, 0x10325476, 0xc3d2e1f0)
      in put_u32 a @ put_u32 b @ put_u32 c @ put_u32 d @ put_u32 e)"

text \<open>The values \<open>md5.New\<close> and \<open>sha1.New\<close> of type \<open>func() hash.Hash\<close>, and the hash of all that was written.\<close>

datatype hash_alg = MD5 | SHA1

fun hash_sum :: "hash_alg \<Rightarrow> bytes \<Rightarrow> bytes" where
  "hash_sum MD5 m = md5_sum m"
| "hash_sum SHA1 m = sha1_sum m"

fun hash_size :: "hash_alg \<Rightarrow> nat" where
  "hash_size MD5 = 16"
| "hash_size SHA1 = 20"

text \<open>\<open>hmac.New(newHash, key)\<close> with \<open>message\<close> written; both hash functions have blocks of 64 bytes.\<close>

definition hmac :: "hash_alg \<Rightarrow> bytes \<Rightarrow> bytes \<Rightarrow> bytes" where
  "hmac alg key message =
     (let k0 = (if 64 < length key then hash_sum alg key else key);
          k = k0 @ replicate (64 - length k0) 0
      in hash_sum alg (map (\<lambda>b. b XOR 0x5c) k @ hash_sum alg (map (\<lambda>b. b XOR 0x36) k @ message)))"

lemma length_put_le32 [simp]: "length (put_le32 w) = 4"
  by (simp add: put_le32_def)

lemma length_put_u64 [simp]: "length (put_u64 w) = 8"
  by (simp add: put_u64_def)

lemma length_sums [simp]: "length (md5_sum m) = 16" "length (sha1_sum m) = 20"
  by (simp_all add: md5_sum_def sha1_sum_def split_beta)

lemma length_hash_sum [simp]: "length (hash_sum alg m) = hash_size alg"
  by (cases alg) simp_all

lemma length_hmac [simp]: "length (hmac alg key m) = hash_size alg"
  by (simp add: hmac_def Let_def)

lemma hash_size_pos [simp]: "0 < hash_size alg"
  by (cases alg) simp_all

lemma hash_size_le: "hash_size alg \<le> 20"
  by (cases alg) simp_all

section \<open>RC4\<close>

text \<open>\<open>rc4.Cipher\<close>: the permutation and the two indices.\<close>

record rc4 =
  perm :: "u8 list"
  rc4_i :: u8
  rc4_j :: u8

definition swap :: "nat \<Rightarrow> nat \<Rightarrow> 'a list \<Rightarrow> 'a list" where
  "swap i j xs = xs[i := xs ! j, j := xs ! i]"

text \<open>\<open>rc4.NewCipher\<close> on a key of 1 to 256 bytes.\<close>

definition NewCipher :: "bytes \<Rightarrow> rc4" where
  "NewCipher key =
     (let (s, j) = fold (\<lambda>i (s, j).
            let j' = j + s ! i + key ! (i mod length key) in (swap i (unat j') s, j'))
          [0..<256] (map of_nat [0..<256], 0 :: u8)
      in \<lparr>perm = s, rc4_i = 0, rc4_j = 0\<rparr>)"

definition rc4_next :: "rc4 \<Rightarrow> u8 \<times> rc4" where
  "rc4_next c =
     (let i = rc4_i c + 1; x = perm c ! unat i; j = rc4_j c + x; y = perm c ! unat j
      in ((perm c)[unat i := y, unat j := x] ! unat (x + y),
          \<lparr>perm = (perm c)[unat i := y, unat j := x], rc4_i = i, rc4_j = j\<rparr>))"

fun XORKeyStream :: "rc4 \<Rightarrow> bytes \<Rightarrow> bytes \<times> rc4" where
  "XORKeyStream c [] = ([], c)"
| "XORKeyStream c (b # bs) =
     (let (k, c1) = rc4_next c; (out, c2) = XORKeyStream c1 bs in ((b XOR k) # out, c2))"

lemma length_XORKeyStream [simp]: "length (fst (XORKeyStream c b)) = length b"
  by (induction b arbitrary: c) (simp_all add: split_beta)

text \<open>The same key stream decrypts, and both ends are then in the same state.\<close>

lemma XORKeyStream_twice: "XORKeyStream c (fst (XORKeyStream c b)) = (b, snd (XORKeyStream c b))"
  by (induction b arbitrary: c) (simp_all add: split_beta xor.assoc)

section \<open>RSA\<close>

record rsa_key =
  modulus :: nat
  exponent :: nat   \<comment> \<open>the private one\<close>

definition os2ip :: "bytes \<Rightarrow> nat" where
  "os2ip b = foldl (\<lambda>n x. 256 * n + unat x) 0 b"

fun i2osp :: "nat \<Rightarrow> nat \<Rightarrow> bytes" where
  "i2osp 0 n = []"
| "i2osp (Suc k) n = i2osp k (n div 256) @ [of_nat n]"

fun byte_size :: "nat \<Rightarrow> nat" where
  "byte_size n = (if n = 0 then 0 else Suc (byte_size (n div 256)))"

declare byte_size.simps [simp del]

definition key_size :: "rsa_key \<Rightarrow> nat" where
  "key_size key = byte_size (modulus key)"

text \<open>
  \<open>rsa.DecryptPKCS1v15\<close>, \<open>None\<close> for an error: the key must have 1024 bits, the ciphertext must be
  below the modulus, and the block must be 0, 2, at least eight nonzero bytes, 0 and the message.
\<close>

definition unpad :: "bytes \<Rightarrow> bytes option" where
  "unpad em =
     (let ps = takeWhile (\<lambda>b. b \<noteq> 0) (drop 2 em); rest = dropWhile (\<lambda>b. b \<noteq> 0) (drop 2 em)
      in if take 2 em = [0, 2] \<and> 8 \<le> length ps \<and> rest \<noteq> [] then Some (tl rest) else None)"

definition DecryptPKCS1v15 :: "rsa_key \<Rightarrow> bytes \<Rightarrow> bytes option" where
  "DecryptPKCS1v15 key ciphertext =
     (if modulus key < 2 ^ 1023 \<or> key_size key < length ciphertext \<or> modulus key \<le> os2ip ciphertext then None
      else unpad (i2osp (key_size key) (os2ip ciphertext ^ exponent key mod modulus key)))"

lemma os2ip_snoc [simp]: "os2ip (b @ [x]) = 256 * os2ip b + unat x"
  by (simp add: os2ip_def)

lemma i2osp_os2ip: "i2osp (length b) (os2ip b) = b"
proof (induction b rule: rev_induct)
  case (snoc x b)
  have "unat x < 256" using unsigned_less [of x] by simp
  then have "(256 * os2ip b + unat x) div 256 = os2ip b" by simp
  moreover have "(of_nat (256 * os2ip b + unat x) :: u8) = x"
  proof -
    have "(of_nat (256 * os2ip b) :: u8) = of_nat 256 * of_nat (os2ip b)" by simp
    also have "(of_nat 256 :: u8) = 0" by simp
    finally show ?thesis by simp
  qed
  ultimately show ?case using snoc by simp
qed simp

lemma unpad_padded: "list_all (\<lambda>b. b \<noteq> 0) ps \<Longrightarrow> 8 \<le> length ps \<Longrightarrow> unpad (0 # 2 # ps @ 0 # m) = Some m"
  by (simp add: unpad_def Let_def list_all_iff takeWhile_tail dropWhile_append3)

text \<open>A block that the public operation made of a padded message is decrypted to the message.\<close>

lemma Decrypt_padded:
  assumes "2 ^ 1023 \<le> modulus key" and "length c \<le> key_size key" and "os2ip c < modulus key"
    and "list_all (\<lambda>b. b \<noteq> 0) ps" and "8 \<le> length ps" and "length ps + length m + 3 = key_size key"
    and "os2ip c ^ exponent key mod modulus key = os2ip (0 # 2 # ps @ 0 # m)"
  shows "DecryptPKCS1v15 key c = Some m"
proof -
  have k: "key_size key = length (0 # 2 # ps @ 0 # m)" using assms(6) by simp
  have "i2osp (key_size key) (os2ip (0 # 2 # ps @ 0 # m)) = 0 # 2 # ps @ 0 # m"
    unfolding k by (rule i2osp_os2ip)
  then have "unpad (i2osp (key_size key) (os2ip c ^ exponent key mod modulus key)) = Some m"
    unfolding assms(7) using unpad_padded [OF assms(4,5)] by simp
  then show ?thesis
    using assms(1-3) unfolding DecryptPKCS1v15_def by (simp only: not_le [symmetric] if_False de_Morgan_disj simp_thms)
qed

section \<open>A published test vector\<close>

lemma md5_empty: "md5_sum [] =
    [0xd4, 0x1d, 0x8c, 0xd9, 0x8f, 0x00, 0xb2, 0x04, 0xe9, 0x80, 0x09, 0x98, 0xec, 0xf8, 0x42, 0x7e]"
  by code_simp

end
