(* ===== verification/Tls_Record.thy ===== *)
theory Tls_Record
  imports Legacy_Fire Go_Crypto
begin

text \<open>
  The record layer of legacytls (conn.go, types.go): the state of a connection, reading and
  writing records, their authentication codes, and the byte stream \<open>Read\<close> and \<open>Write\<close> make of them.
  Trace calls are left out.
\<close>

definition recordChangeCipherSpec :: u8 where "recordChangeCipherSpec = 20"
definition recordAlert :: u8 where "recordAlert = 21"
definition recordHandshake :: u8 where "recordHandshake = 22"
definition recordApplicationData :: u8 where "recordApplicationData = 23"

definition ssl30 :: u16 where "ssl30 = 0x0300"
definition tls10 :: u16 where "tls10 = 0x0301"
definition suiteRC4MD5 :: u16 where "suiteRC4MD5 = 0x0004"
definition suiteRC4SHA :: u16 where "suiteRC4SHA = 0x0005"

lemmas record_types = recordChangeCipherSpec_def recordAlert_def recordHandshake_def recordApplicationData_def
lemmas versions = ssl30_def tls10_def

section \<open>State\<close>

record Config =
  Certificate :: "bytes list"
  PrivateKey :: "rsa_key option"

text \<open>
  The fields other than \<open>active\<close> are read only when it is set, so their values before that
  (nil in the code) do not matter.
\<close>

record cipherState =
  active :: bool
  stream :: rc4
  macKey :: bytes
  newHash :: hash_alg
  seqno :: u64
  cipher_version :: u16

definition noCipher :: cipherState where
  "noCipher = \<lparr>active = False, stream = \<lparr>perm = [], rc4_i = 0, rc4_j = 0\<rparr>, macKey = [], newHash = MD5,
     seqno = 0, cipher_version = 0\<rparr>"

datatype tls_error =
    Io io_error
  | CertificateRequired
  | RandomFailed
  | UnsupportedRecord u16
  | OversizedRecord
  | ShortEncrypted
  | BadRecordMAC
  | PeerAlert bytes
  | UnexpectedRecord u8
  | NotClientHello u8
  | MalformedClientHello
  | ShortClientHello
  | UnsupportedVersion u16
  | MalformedSessionID
  | MalformedCipherSuites
  | NoCommonSuite
  | WaitingFor string tls_error
  | NotClientKeyExchange
  | MalformedClientKeyExchange
  | PremasterDecryption
  | NotChangeCipherSpec
  | NotFinished
  | MalformedFinished
  | FinishedVerification

text \<open>
  \<open>net\<close> is the state of the underlying \<open>net.Conn\<close> as a writer, \<open>input\<close> the bytes that still arrive on
  it before it is closed; \<open>once\<close> is \<open>None\<close> until the handshake ran, and then holds \<open>hsErr\<close>.
\<close>

record 'w Conn =
  net :: 'w
  input :: bytes
  config :: "Config option"
  once :: "tls_error option option"
  cin :: cipherState
  cout :: cipherState
  readBuf :: bytes
  firstRecord :: bool
  version :: u16

text \<open>\<open>legacytls.Server\<close>.\<close>

definition Tls_Server :: "'w \<Rightarrow> bytes \<Rightarrow> Config option \<Rightarrow> 'w Conn" where
  "Tls_Server w inp cfg = \<lparr>net = w, input = inp, config = cfg, once = None, cin = noCipher, cout = noCipher,
     readBuf = [], firstRecord = True, version = tls10\<rparr>"

definition makeCipher :: "bytes \<Rightarrow> bytes \<Rightarrow> hash_alg \<Rightarrow> u16 \<Rightarrow> cipherState" where
  "makeCipher key mac alg v =
     \<lparr>active = True, stream = NewCipher key, macKey = mac, newHash = alg, seqno = 0, cipher_version = v\<rparr>"

section \<open>Records\<close>

definition recordMAC :: "cipherState \<Rightarrow> u8 \<Rightarrow> bytes \<Rightarrow> bytes" where
  "recordMAC s typ data =
     (if cipher_version s = ssl30 then
        let padLen = (if hash_size (newHash s) = 16 then 48 else 40);
            inner = hash_sum (newHash s) (macKey s @ replicate padLen 0x36 @ put_u64 (seqno s) @
              typ # put_u16 (of_nat (length data)) @ data)
        in hash_sum (newHash s) (macKey s @ replicate padLen 0x5c @ inner)
      else hmac (newHash s) (macKey s)
        (put_u64 (seqno s) @ [typ, 3, 1] @ put_u16 (of_nat (length data)) @ data))"

text \<open>
  \<open>readRecord\<close> returns the type and the content.  When \<open>io.ReadFull\<close> fails it has taken all that was left.
\<close>

definition open_record :: "u8 \<Rightarrow> bytes \<Rightarrow> 'w Conn \<Rightarrow> (tls_error + (u8 \<times> bytes)) \<times> 'w Conn" where
  "open_record typ b c =
     (if \<not> active (cin c) then (Inr (typ, b), c)
      else
        let (b', st) = XORKeyStream (stream (cin c)) b;
            s = (cin c)\<lparr>stream := st\<rparr>;
            c1 = c\<lparr>cin := s\<rparr>;
            macLen = hash_size (newHash s)
        in
        if length b' < macLen then (Inl ShortEncrypted, c1)
        else
          let plain = take (length b' - macLen) b'; got = drop (length b' - macLen) b' in
          if got \<noteq> recordMAC s typ plain then (Inl BadRecordMAC, c1)
          else (Inr (typ, plain), c1\<lparr>cin := s\<lparr>seqno := seqno s + 1\<rparr>\<rparr>))"

definition readRecord :: "'w Conn \<Rightarrow> (tls_error + (u8 \<times> bytes)) \<times> 'w Conn" where
  "readRecord c =
     (case ReadFull (input c) 5 of
        Inl err \<Rightarrow> (Inl (Io err), c\<lparr>input := []\<rparr>)
      | Inr (h, r1) \<Rightarrow>
          let c1 = c\<lparr>input := r1\<rparr>; v = get_u16 (drop 1 h) in
          if v \<noteq> version c \<and> \<not> (firstRecord c \<and> v = ssl30 \<and> hd h = recordHandshake)
          then (Inl (UnsupportedRecord v), c1)
          else
            let c2 = c1\<lparr>firstRecord := False\<rparr>; n = unat (get_u16 (drop 3 h)) in
            if 18432 < n then (Inl OversizedRecord, c2)
            else
              (case ReadFull r1 n of
                 Inl err \<Rightarrow> (Inl (Io err), c2\<lparr>input := []\<rparr>)
               | Inr (b, r2) \<Rightarrow> open_record (hd h) b (c2\<lparr>input := r2\<rparr>)))"

definition record_header :: "u8 \<Rightarrow> u16 \<Rightarrow> bytes \<Rightarrow> bytes" where
  "record_header typ v data = typ # put_u16 v @ put_u16 (of_nat (length data))"

definition writeRawRecord ::
  "'w writer \<Rightarrow> u8 \<Rightarrow> bytes \<Rightarrow> 'w Conn \<Rightarrow> (tls_error option \<times> 'w Conn) go" where
  "writeRawRecord wr typ data c =
     go_bind (write_loop wr (net c) (record_header typ (version c) data @ data)) (\<lambda>(err, w).
       Inr (map_option Io err, c\<lparr>net := w\<rparr>))"

text \<open>What \<open>writeRecord\<close> makes of the content before it goes out.\<close>

definition seal :: "cipherState \<Rightarrow> u8 \<Rightarrow> bytes \<Rightarrow> bytes \<times> cipherState" where
  "seal s typ plain =
     (if active s then
        let (data, st) = XORKeyStream (stream s) (plain @ recordMAC s typ plain)
        in (data, s\<lparr>stream := st, seqno := seqno s + 1\<rparr>)
      else (plain, s))"

definition writeRecord ::
  "'w writer \<Rightarrow> u8 \<Rightarrow> bytes \<Rightarrow> 'w Conn \<Rightarrow> (tls_error option \<times> 'w Conn) go" where
  "writeRecord wr typ plain c =
     (let (data, s) = seal (cout c) typ plain in writeRawRecord wr typ data (c\<lparr>cout := s\<rparr>))"

section \<open>Reading and writing application data\<close>

lemma readRecord_shorter: "readRecord c = (Inr r, c') \<Longrightarrow> length (input c') < length (input c)"
  by (auto simp: readRecord_def ReadFull_def Let_def open_record_def split_beta split: sum.splits if_splits)

text \<open>The loop of \<open>Read\<close> that fills \<open>readBuf\<close>, and \<open>Read\<close> into a buffer of \<open>n\<close> bytes after the handshake.\<close>

function fill :: "'w Conn \<Rightarrow> tls_error option \<times> 'w Conn" where
  "fill c =
     (if readBuf c \<noteq> [] then (None, c)
      else
        (case readRecord c of
           (Inl err, c') \<Rightarrow> (Some err, c')
         | (Inr (typ, data), c') \<Rightarrow>
             if typ = recordApplicationData then fill (c'\<lparr>readBuf := data\<rparr>)
             else if typ = recordAlert then
               (if 2 \<le> length data \<and> data ! 1 = 0 then (Some (Io EOF), c') else (Some (PeerAlert data), c'))
             else (Some (UnexpectedRecord typ), c')))"
  by pat_completeness auto

termination
  by (relation "measure (\<lambda>c. length (input c))") (auto dest!: readRecord_shorter [OF sym])

declare fill.simps [simp del]

definition read_data :: "nat \<Rightarrow> 'w Conn \<Rightarrow> (tls_error + bytes) \<times> 'w Conn" where
  "read_data n c =
     (case fill c of
        (Some err, c') \<Rightarrow> (Inl err, c')
      | (None, c') \<Rightarrow> (Inr (take n (readBuf c')), c'\<lparr>readBuf := drop n (readBuf c')\<rparr>))"

text \<open>The loop of \<open>Write\<close> after the handshake: how much was written, and the error.\<close>

function write_data :: "'w writer \<Rightarrow> nat \<Rightarrow> bytes \<Rightarrow> 'w Conn \<Rightarrow> ((nat \<times> tls_error option) \<times> 'w Conn) go" where
  "write_data wr written p c =
     (if p = [] then Inr ((written, None), c)
      else
        let n = min (length p) 16384 in
        go_bind (writeRecord wr recordApplicationData (take n p) c) (\<lambda>(err, c').
          if err \<noteq> None then Inr ((written, err), c')
          else write_data wr (written + n) (drop n p) c'))"
  by pat_completeness auto

termination
  by (relation "measure (\<lambda>(_, _, p, _). length p)") auto

declare write_data.simps [simp del]

end
