(* ===== verification/Tls_Handshake.thy ===== *)
theory Tls_Handshake
  imports Tls_Record
begin

text \<open>
  The handshake of legacytls (conn.go): the messages, the key schedule of SSL 3.0 and TLS 1.0,
  and the server's side of the exchange, in the order of \<open>Conn.handshake\<close>.  The time and the
  random bytes are arguments (\<open>None\<close> when reading the random source fails).
\<close>

section \<open>Messages\<close>

definition putUint24 :: "nat \<Rightarrow> bytes" where
  "putUint24 n = [of_nat (n div 65536), of_nat (n div 256), of_nat n]"

definition handshakeMessage :: "u8 \<Rightarrow> bytes \<Rightarrow> bytes" where
  "handshakeMessage typ body = typ # putUint24 (length body) @ body"

function splitHandshake :: "bytes \<Rightarrow> bytes list option" where
  "splitHandshake b =
     (if b = [] then Some []
      else if length b < 4 then None
      else
        let n = unat (b ! 1) * 65536 + unat (b ! 2) * 256 + unat (b ! 3) in
        if length b < n + 4 then None
        else map_option (\<lambda>out. take (n + 4) b # out) (splitHandshake (drop (n + 4) b)))"
  by pat_completeness auto

termination
  by (relation "measure length") auto

declare splitHandshake.simps [simp del]

section \<open>Key schedule\<close>

text \<open>The loop of \<open>pHash\<close>: \<open>a\<close> is the running value, \<open>out\<close> what was produced.\<close>

function pHash_loop :: "hash_alg \<Rightarrow> bytes \<Rightarrow> bytes \<Rightarrow> nat \<Rightarrow> bytes \<Rightarrow> bytes \<Rightarrow> bytes" where
  "pHash_loop alg secret seed n a out =
     (if length out < n then
        let a' = hmac alg secret a in pHash_loop alg secret seed n a' (out @ hmac alg secret (a' @ seed))
      else out)"
  by pat_completeness auto

termination
  by (relation "measure (\<lambda>(_, _, _, n, _, out). n - length out)") (auto simp: diff_less_mono2)

declare pHash_loop.simps [simp del]

definition pHash :: "hash_alg \<Rightarrow> bytes \<Rightarrow> bytes \<Rightarrow> nat \<Rightarrow> bytes" where
  "pHash alg secret seed n = take n (pHash_loop alg secret seed n seed [])"

definition prf_bytes :: "bytes \<Rightarrow> string \<Rightarrow> bytes \<Rightarrow> nat \<Rightarrow> bytes" where
  "prf_bytes secret label seed n =
     (let full = str_bytes label @ seed;
          half = (length secret + 1) div 2;
          a = pHash MD5 (take half secret) full n;
          b = pHash SHA1 (drop (length secret - half) secret) full n
      in map2 (\<lambda>x y. x XOR y) a b)"

text \<open>The loop of \<open>ssl3Generate\<close>; the letter is computed in a byte.\<close>

function ssl3_loop :: "bytes \<Rightarrow> bytes \<Rightarrow> nat \<Rightarrow> nat \<Rightarrow> bytes \<Rightarrow> bytes" where
  "ssl3_loop secret randoms n i out =
     (if length out < n then
        let letter = 0x41 + of_nat i - 1;
            s = hash_sum SHA1 (replicate i letter @ secret @ randoms)
        in ssl3_loop secret randoms n (i + 1) (out @ hash_sum MD5 (secret @ s))
      else out)"
  by pat_completeness auto

termination
  by (relation "measure (\<lambda>(_, _, n, _, out). n - length out)") (auto simp: diff_less_mono2)

declare ssl3_loop.simps [simp del]

definition ssl3Generate :: "bytes \<Rightarrow> bytes \<Rightarrow> nat \<Rightarrow> bytes" where
  "ssl3Generate secret randoms n = take n (ssl3_loop secret randoms n 1 [])"

definition masterSecret :: "u16 \<Rightarrow> bytes \<Rightarrow> bytes \<Rightarrow> bytes \<Rightarrow> bytes" where
  "masterSecret v premaster clientRandom serverRandom =
     (if v = tls10 then prf_bytes premaster ''master secret'' (clientRandom @ serverRandom) 48
      else ssl3Generate premaster (clientRandom @ serverRandom) 48)"

definition expandKeys :: "u16 \<Rightarrow> bytes \<Rightarrow> bytes \<Rightarrow> bytes \<Rightarrow> nat \<Rightarrow> bytes" where
  "expandKeys v master clientRandom serverRandom n =
     (if v = tls10 then prf_bytes master ''key expansion'' (serverRandom @ clientRandom) n
      else ssl3Generate master (serverRandom @ clientRandom) n)"

definition handshakeHash :: "bytes \<Rightarrow> bytes" where
  "handshakeHash b = hash_sum MD5 b @ hash_sum SHA1 b"

definition ssl3FinishedHash :: "hash_alg \<Rightarrow> nat \<Rightarrow> bytes \<Rightarrow> bytes \<Rightarrow> bytes \<Rightarrow> bytes" where
  "ssl3FinishedHash alg padLen master transcript sender =
     hash_sum alg (master @ replicate padLen 0x5c @
       hash_sum alg (transcript @ sender @ master @ replicate padLen 0x36))"

definition finishedVerify :: "u16 \<Rightarrow> bytes \<Rightarrow> bytes \<Rightarrow> bool \<Rightarrow> bytes" where
  "finishedVerify v master transcript client =
     (if v = tls10 then
        prf_bytes master (if client then ''client finished'' else ''server finished'') (handshakeHash transcript) 12
      else
        let sender = str_bytes (if client then ''CLNT'' else ''SRVR'') in
        ssl3FinishedHash MD5 48 master transcript sender @ ssl3FinishedHash SHA1 40 master transcript sender)"

section \<open>The ClientHello\<close>

text \<open>The loop over the offered suites; \<open>s\<close> is the choice so far.\<close>

fun pick_suite :: "u16 \<Rightarrow> bytes \<Rightarrow> u16" where
  "pick_suite s (a # b # rest) =
     (let v = get_u16 [a, b] in
      if v = suiteRC4SHA then v else pick_suite (if v = suiteRC4MD5 then v else s) rest)"
| "pick_suite s _ = s"

record Hello =
  hello_version :: u16
  clientRandom :: bytes
  suite :: u16

text \<open>The checks on the message \<open>ch\<close>, in the order of the code: its version, and then the rest.\<close>

definition parse_version :: "bytes \<Rightarrow> tls_error + u16" where
  "parse_version ch =
     (if length ch < 4 + 2 + 32 + 1 then Inl ShortClientHello
      else let v = get_u16 (drop 4 ch) in
        if v \<noteq> ssl30 \<and> v \<noteq> tls10 then Inl (UnsupportedVersion v) else Inr v)"

definition parse_suites :: "u16 \<Rightarrow> bytes \<Rightarrow> tls_error + Hello" where
  "parse_suites v body =
     (let sidLen = unat (body ! 34) in
      if length body < 35 + sidLen + 2 then Inl MalformedSessionID
      else
        let csLen = unat (get_u16 (drop (35 + sidLen) body)); off = 35 + sidLen + 2 in
        if csLen mod 2 \<noteq> 0 \<or> length body < off + csLen + 1 then Inl MalformedCipherSuites
        else
          let s = pick_suite 0 (take csLen (drop off body)) in
          if s = 0 then Inl NoCommonSuite
          else Inr \<lparr>hello_version = v, clientRandom = take 32 (drop 2 body), suite = s\<rparr>)"

section \<open>The server's flight\<close>

definition server_hello :: "u16 \<Rightarrow> bytes \<Rightarrow> u16 \<Rightarrow> bytes" where
  "server_hello v serverRandom s =
     handshakeMessage 2 (put_u16 v @ serverRandom @ [0] @ put_u16 s @ [0])"

definition certificate_message :: "bytes list \<Rightarrow> bytes" where
  "certificate_message certs =
     handshakeMessage 11 (putUint24 (sum_list (map (\<lambda>c. 3 + length c) certs)) @
       concat (map (\<lambda>c. putUint24 (length c) @ c) certs))"

definition server_flight :: "Config \<Rightarrow> Hello \<Rightarrow> bytes \<Rightarrow> bytes" where
  "server_flight cfg hello serverRandom =
     server_hello (hello_version hello) serverRandom (suite hello) @
     certificate_message (Certificate cfg) @ handshakeMessage 14 []"

section \<open>Keys\<close>

record Keys =
  master :: bytes
  key_hash :: hash_alg
  clientMAC :: bytes
  serverMAC :: bytes
  clientKey :: bytes
  serverKey :: bytes

definition derive_keys :: "Hello \<Rightarrow> bytes \<Rightarrow> bytes \<Rightarrow> Keys" where
  "derive_keys hello serverRandom premaster =
     (let v = hello_version hello;
          m = masterSecret v premaster (clientRandom hello) serverRandom;
          alg = (if suite hello = suiteRC4MD5 then MD5 else SHA1);
          macLen = hash_size alg;
          keyBlock = expandKeys v m (clientRandom hello) serverRandom (2 * macLen + 32)
      in \<lparr>master = m, key_hash = alg, clientMAC = take macLen keyBlock,
          serverMAC = take macLen (drop macLen keyBlock),
          clientKey = take 16 (drop (2 * macLen) keyBlock), serverKey = drop (2 * macLen + 16) keyBlock\<rparr>)"

section \<open>The handshake\<close>

text \<open>
  A step may fail with an error of the protocol, changes the connection, and may panic (which only
  a writer that breaks its contract can cause).
\<close>

type_synonym ('w, 'a) step = "'w Conn \<Rightarrow> ((tls_error + 'a) \<times> 'w Conn) go"

definition tls_bind :: "('w, 'a) step \<Rightarrow> ('a \<Rightarrow> ('w, 'b) step) \<Rightarrow> ('w, 'b) step" where
  "tls_bind m f c = go_bind (m c) (\<lambda>(r, c'). case r of Inl e \<Rightarrow> Inr (Inl e, c') | Inr x \<Rightarrow> f x c')"

definition tls_return :: "'a \<Rightarrow> ('w, 'a) step" where
  "tls_return x c = Inr (Inr x, c)"

definition tls_fail :: "tls_error \<Rightarrow> ('w, 'a) step" where
  "tls_fail e c = Inr (Inl e, c)"

definition tls_read :: "(tls_error \<Rightarrow> tls_error) \<Rightarrow> ('w, u8 \<times> bytes) step" where
  "tls_read wrap c = (case readRecord c of (Inl e, c') \<Rightarrow> Inr (Inl (wrap e), c') | (Inr r, c') \<Rightarrow> Inr (Inr r, c'))"

definition tls_write :: "('w Conn \<Rightarrow> (tls_error option \<times> 'w Conn) go) \<Rightarrow> ('w, unit) step" where
  "tls_write f c = go_bind (f c) (\<lambda>(e, c'). Inr (case e of Some e \<Rightarrow> Inl e | None \<Rightarrow> Inr (), c'))"

text \<open>Reading a handshake record that holds one message of the type \<open>typ\<close>.\<close>

definition one_message :: "u8 \<Rightarrow> bytes \<Rightarrow> bytes option" where
  "one_message typ data =
     (case splitHandshake data of
        Some [msg] \<Rightarrow> if msg ! 0 = typ then Some msg else None
      | _ \<Rightarrow> None)"

definition read_hello :: "('w, bytes \<times> Hello) step" where
  "read_hello =
     tls_bind (tls_read id) (\<lambda>(typ, clientHello).
       if typ \<noteq> recordHandshake then tls_fail (NotClientHello typ)
       else case one_message 1 clientHello of
         None \<Rightarrow> tls_fail MalformedClientHello
       | Some ch \<Rightarrow>
           (case parse_version ch of
              Inl e \<Rightarrow> tls_fail e
            | Inr v \<Rightarrow>
                tls_bind (\<lambda>c. Inr (Inr (), c\<lparr>version := v\<rparr>)) (\<lambda>_.
                case parse_suites v (drop 4 ch) of
                  Inl e \<Rightarrow> tls_fail e
                | Inr hello \<Rightarrow> tls_return (ch, hello))))"

text \<open>TLS puts the length before the encrypted secret, SSL 3.0 does not.\<close>

definition strip_length :: "bytes \<Rightarrow> bytes" where
  "strip_length enc =
     (if 2 \<le> length enc \<and> int (unat (get_u16 enc)) = int (length enc) - 2 then drop 2 enc else enc)"

definition read_premaster :: "rsa_key \<Rightarrow> ('w, bytes \<times> bytes) step" where
  "read_premaster key =
     tls_bind (tls_read (WaitingFor ''ClientKeyExchange'')) (\<lambda>(typ, ckxData).
       if typ \<noteq> recordHandshake then tls_fail NotClientKeyExchange
       else case one_message 16 ckxData of
         None \<Rightarrow> tls_fail MalformedClientKeyExchange
       | Some ckx \<Rightarrow>
           (case DecryptPKCS1v15 key (strip_length (drop 4 ckx)) of
              Some premaster \<Rightarrow>
                if length premaster = 48 then tls_return (ckx, premaster) else tls_fail PremasterDecryption
            | None \<Rightarrow> tls_fail PremasterDecryption))"

definition read_finished :: "Hello \<Rightarrow> Keys \<Rightarrow> bytes \<Rightarrow> ('w, bytes) step" where
  "read_finished hello keys transcript =
     tls_bind (tls_read (WaitingFor ''ChangeCipherSpec'')) (\<lambda>(typ, ccs).
     if typ \<noteq> recordChangeCipherSpec \<or> ccs \<noteq> [1] then tls_fail NotChangeCipherSpec
     else tls_bind (\<lambda>c. Inr (Inr (), c\<lparr>cin := makeCipher (clientKey keys) (clientMAC keys) (key_hash keys)
         (hello_version hello)\<rparr>)) (\<lambda>_.
     tls_bind (tls_read (WaitingFor ''encrypted Finished'')) (\<lambda>(typ, finData).
     if typ \<noteq> recordHandshake then tls_fail NotFinished
     else case one_message 20 finData of
       None \<Rightarrow> tls_fail MalformedFinished
     | Some fin \<Rightarrow>
         if length fin \<noteq> 4 + (if hello_version hello = ssl30 then 36 else 12) then tls_fail MalformedFinished
         else if drop 4 fin \<noteq> finishedVerify (hello_version hello) (master keys) transcript True
         then tls_fail FinishedVerification
         else tls_return fin)))"

definition send_finished :: "'w writer \<Rightarrow> Hello \<Rightarrow> Keys \<Rightarrow> bytes \<Rightarrow> ('w, unit) step" where
  "send_finished wr hello keys transcript =
     tls_bind (tls_write (writeRawRecord wr recordChangeCipherSpec [1])) (\<lambda>_.
     tls_bind (\<lambda>c. Inr (Inr (), c\<lparr>cout := makeCipher (serverKey keys) (serverMAC keys) (key_hash keys)
         (hello_version hello)\<rparr>)) (\<lambda>_.
     tls_write (writeRecord wr recordHandshake
       (handshakeMessage 20 (finishedVerify (hello_version hello) (master keys) transcript False)))))"

definition handshake :: "'w writer \<Rightarrow> i64 \<Rightarrow> (nat \<Rightarrow> u8) option \<Rightarrow> ('w, unit) step" where
  "handshake wr now random c =
     (case config c of
        Some cfg \<Rightarrow>
          (case PrivateKey cfg of
             Some key \<Rightarrow>
               if Certificate cfg = [] then tls_fail CertificateRequired c
               else
                 tls_bind read_hello (\<lambda>(ch, hello).
                 case random of
                   None \<Rightarrow> tls_fail RandomFailed
                 | Some rnd \<Rightarrow>
                     let serverRandom = put_u32 (ucast now) @ map rnd [0..<28];
                         flight = server_flight cfg hello serverRandom
                     in
                     tls_bind (tls_write (writeRawRecord wr recordHandshake flight)) (\<lambda>_.
                     tls_bind (read_premaster key) (\<lambda>(ckx, premaster).
                     let keys = derive_keys hello serverRandom premaster; transcript = ch @ flight @ ckx in
                     tls_bind (read_finished hello keys transcript) (\<lambda>fin.
                     send_finished wr hello keys (transcript @ fin))))) c
           | None \<Rightarrow> tls_fail CertificateRequired c)
      | None \<Rightarrow> tls_fail CertificateRequired c)"

text \<open>\<open>Handshake\<close>, \<open>Read\<close> and \<open>Write\<close> of a connection: the handshake runs once, and its error stays.\<close>

definition Handshake :: "'w writer \<Rightarrow> i64 \<Rightarrow> (nat \<Rightarrow> u8) option \<Rightarrow> 'w Conn \<Rightarrow> (tls_error option \<times> 'w Conn) go" where
  "Handshake wr now random c =
     (case once c of
        Some hsErr \<Rightarrow> Inr (hsErr, c)
      | None \<Rightarrow> go_bind (handshake wr now random c) (\<lambda>(r, c').
          let hsErr = (case r of Inl e \<Rightarrow> Some e | Inr _ \<Rightarrow> None) in Inr (hsErr, c'\<lparr>once := Some hsErr\<rparr>)))"

definition Tls_Read ::
  "'w writer \<Rightarrow> i64 \<Rightarrow> (nat \<Rightarrow> u8) option \<Rightarrow> nat \<Rightarrow> 'w Conn \<Rightarrow> ((tls_error + bytes) \<times> 'w Conn) go" where
  "Tls_Read wr now random n c =
     go_bind (Handshake wr now random c) (\<lambda>(err, c').
       case err of Some e \<Rightarrow> Inr (Inl e, c') | None \<Rightarrow> Inr (read_data n c'))"

definition Tls_Write ::
  "'w writer \<Rightarrow> i64 \<Rightarrow> (nat \<Rightarrow> u8) option \<Rightarrow> bytes \<Rightarrow> 'w Conn \<Rightarrow> ((nat \<times> tls_error option) \<times> 'w Conn) go" where
  "Tls_Write wr now random p c =
     go_bind (Handshake wr now random c) (\<lambda>(err, c').
       case err of Some e \<Rightarrow> Inr ((0, Some e), c') | None \<Rightarrow> write_data wr 0 p c')"

end
