(* ===== verification/Tls_Stream.thy ===== *)
theory Tls_Stream
  imports Tls_Handshake
begin

text \<open>
  The record layer as a byte stream: what one end seals the other opens, however the data is cut
  into records, and \<open>io.ReadFull\<close> over a connection is \<open>ReadFull\<close> on the bytes it delivers.
\<close>

section \<open>Sealed records are opened\<close>

lemma length_recordMAC [simp]: "length (recordMAC s typ p) = hash_size (newHash s)"
  by (simp add: recordMAC_def Let_def)

lemma recordMAC_stream [simp]: "recordMAC (s\<lparr>stream := x\<rparr>) typ p = recordMAC s typ p"
  by (simp add: recordMAC_def)

lemma open_seal:
  "cin c = s \<Longrightarrow> open_record typ (fst (seal s typ p)) c = (Inr (typ, p), c\<lparr>cin := snd (seal s typ p)\<rparr>)"
  by (auto simp: open_record_def seal_def Let_def split_beta XORKeyStream_twice)

lemma length_seal: "length (fst (seal s typ p)) \<le> length p + 20"
  using hash_size_le [of "newHash s"] by (simp add: seal_def split_beta)

definition record_bytes :: "u8 \<Rightarrow> u16 \<Rightarrow> bytes \<Rightarrow> bytes" where
  "record_bytes typ v data = record_header typ v data @ data"

lemma header_fields:
  "length (record_header typ v data) = 5" "hd (record_header typ v data @ r) = typ"
  "get_u16 (drop (Suc 0) (record_header typ v data @ r)) = v"
  "get_u16 (drop 3 (record_header typ v data @ r)) = of_nat (length data)"
  by (simp_all add: record_header_def drop_append)

lemma readRecord_sealed:
  assumes "input c = record_bytes typ rv (fst (seal (cin c) typ p)) @ rest"
    and "length (fst (seal (cin c) typ p)) \<le> 18432"
    and "rv = version c \<or> firstRecord c \<and> rv = ssl30 \<and> typ = recordHandshake"
  shows "readRecord c =
    (Inr (typ, p), c\<lparr>input := rest, firstRecord := False, cin := snd (seal (cin c) typ p)\<rparr>)"
proof -
  let ?d = "fst (seal (cin c) typ p)"
  have n: "unat (of_nat (length ?d) :: u16) = length ?d"
    using assms(2) by (simp add: unat_of_nat)
  have f: "ReadFull (input c) 5 = Inr (record_header typ rv ?d, ?d @ rest)"
    by (simp add: ReadFull_def assms(1) record_bytes_def header_fields)
  have o: "open_record typ ?d (c\<lparr>input := rest, firstRecord := False\<rparr>) =
      (Inr (typ, p), c\<lparr>input := rest, firstRecord := False, cin := snd (seal (cin c) typ p)\<rparr>)"
    by (simp add: open_seal)
  have c: "c\<lparr>firstRecord := False, input := rest\<rparr> = c\<lparr>input := rest, firstRecord := False\<rparr>"
    by (cases c) simp
  show ?thesis
    unfolding readRecord_def f
    using assms(2,3) n o [folded c] header_fields(2-4) [of "typ" rv ?d "[]"]
    by (auto simp: Let_def ReadFull_def)
qed

section \<open>Application data\<close>

text \<open>The records \<open>Write\<close> makes of its argument, and the cipher state after them.\<close>

function app_stream :: "u16 \<Rightarrow> cipherState \<Rightarrow> bytes \<Rightarrow> bytes \<times> cipherState" where
  "app_stream v s p =
     (if p = [] then ([], s)
      else
        let (data, s1) = seal s recordApplicationData (take 16384 p);
            (out, s2) = app_stream v s1 (drop 16384 p)
        in (record_bytes recordApplicationData v data @ out, s2))"
  by pat_completeness auto

termination
  by (relation "measure (\<lambda>(_, _, p). length p)") auto

declare app_stream.simps [simp del]

lemma app_stream_Nil [simp]: "app_stream v s [] = ([], s)"
  by (simp add: app_stream.simps)

lemma app_stream_step:
  "p \<noteq> [] \<Longrightarrow> app_stream v s p =
    (let d = seal s recordApplicationData (take 16384 p); r = app_stream v (snd d) (drop 16384 p)
     in (record_bytes recordApplicationData v (fst d) @ fst r, snd r))"
  by (subst app_stream.simps) (simp add: Let_def split_beta)

lemma write_data_step:
  assumes "p \<noteq> []"
  shows "write_data wr k0 p c =
    go_bind (writeRecord wr recordApplicationData (take 16384 p) c) (\<lambda>(err, c').
      if err \<noteq> None then Inr ((k0, err), c')
      else write_data wr (k0 + length (take 16384 p)) (drop 16384 p) c')"
proof -
  have n: "length (take 16384 p) = min (length p) 16384" "take 16384 p = take (min (length p) 16384) p"
      "drop 16384 p = drop (min (length p) 16384) p"
    by (simp_all add: min_def)
  show ?thesis unfolding n(1) unfolding n(2,3) by (subst write_data.simps) (simp add: assms Let_def)
qed

lemma write_data_stream:
  assumes law: "\<And>w p n w'. wr w p = ((n, None), w') \<Longrightarrow> n \<le> length p \<and> written w' = written w @ take n p"
  shows "\<exists>k err c'. write_data wr k0 p c = Inr ((k, err), c') \<and> (err = None \<longrightarrow> k = k0 + length p \<and>
    c' = c\<lparr>net := net c', cout := snd (app_stream (version c) (cout c) p)\<rparr> \<and>
    written (net c') = written (net c) @ fst (app_stream (version c) (cout c) p))"
proof (induction p arbitrary: k0 c rule: length_induct)
  case (1 p)
  show ?case
  proof (cases "p = []")
    case True
    then show ?thesis by (simp add: write_data.simps)
  next
    case False
    let ?x = "seal (cout c) recordApplicationData (take 16384 p)"
    obtain e w where wl: "write_loop wr (net c) (record_bytes recordApplicationData (version c) (fst ?x)) = Inr (e, w)"
      and wr: "e = None \<longrightarrow> written w = written (net c) @ record_bytes recordApplicationData (version c) (fst ?x)"
      using write_loop_total [of wr written "net c", OF law] by blast
    have r: "writeRecord wr recordApplicationData (take 16384 p) c = Inr (map_option Io e, c\<lparr>cout := snd ?x, net := w\<rparr>)"
      using wl by (simp add: writeRecord_def writeRawRecord_def record_bytes_def split_beta)
    show ?thesis
    proof (cases e)
      case (Some err)
      with r False show ?thesis by (simp add: write_data_step del: length_take)
    next
      case None
      have "length (drop 16384 p) < length p" using False by simp
      then obtain k err c' where
        w2: "write_data wr (k0 + length (take 16384 p)) (drop 16384 p) (c\<lparr>cout := snd ?x, net := w\<rparr>) = Inr ((k, err), c')"
        and s: "err = None \<longrightarrow> k = k0 + length (take 16384 p) + length (drop 16384 p) \<and>
          c' = c\<lparr>net := net c', cout := snd (app_stream (version c) (snd ?x) (drop 16384 p))\<rparr> \<and>
          written (net c') = written w @ fst (app_stream (version c) (snd ?x) (drop 16384 p))"
        using "1.IH" by (fastforce simp: )
      have "write_data wr k0 p c = Inr ((k, err), c')"
        using w2 r None False by (simp add: write_data_step del: length_take)
      then show ?thesis using s wr None False by (auto simp: app_stream_step Let_def)
    qed
  qed
qed

section \<open>What a connection delivers\<close>

text \<open>The application data that still arrives, and the error that ends it.\<close>

function delivered :: "'w Conn \<Rightarrow> bytes \<times> tls_error" where
  "delivered c =
     (case readRecord c of
        (Inl err, _) \<Rightarrow> (readBuf c, err)
      | (Inr (typ, data), c') \<Rightarrow>
          if typ = recordApplicationData
          then (let (p, e) = delivered (c'\<lparr>readBuf := data\<rparr>) in (readBuf c @ p, e))
          else (readBuf c,
            if typ = recordAlert then (if 2 \<le> length data \<and> data ! 1 = 0 then Io EOF else PeerAlert data)
            else UnexpectedRecord typ))"
  by pat_completeness auto

termination
  by (relation "measure (\<lambda>c. length (input c))") (auto dest!: readRecord_shorter [OF sym])

declare delivered.simps [simp del]

lemma open_buf: "open_record typ b (c\<lparr>readBuf := q\<rparr>) =
    (fst (open_record typ b c), (snd (open_record typ b c))\<lparr>readBuf := q\<rparr>)"
  by (cases c) (simp add: open_record_def Let_def split_beta)

lemma readRecord_buf: "readRecord (c\<lparr>readBuf := q\<rparr>) = (fst (readRecord c), (snd (readRecord c))\<lparr>readBuf := q\<rparr>)"
proof -
  have "open_record t b (c\<lparr>readBuf := q, firstRecord := f, input := r\<rparr>) =
      (fst (open_record t b (c\<lparr>firstRecord := f, input := r\<rparr>)),
       (snd (open_record t b (c\<lparr>firstRecord := f, input := r\<rparr>)))\<lparr>readBuf := q\<rparr>)" for t b r f
    using open_buf [of t b q "c\<lparr>firstRecord := f, input := r\<rparr>"] by (cases c) simp
  then show ?thesis
    by (simp add: readRecord_def Let_def split: sum.splits prod.splits)
qed

lemma delivered_buf: "delivered c = (readBuf c @ fst (delivered (c\<lparr>readBuf := []\<rparr>)), snd (delivered (c\<lparr>readBuf := []\<rparr>)))"
  by (subst (1 2 3) delivered.simps) (simp add: readRecord_buf split_beta split: sum.splits prod.splits)

lemma delivered_take: "delivered (c\<lparr>readBuf := drop n (readBuf c)\<rparr>) =
    (if n \<le> length (readBuf c) then (drop n (fst (delivered c)), snd (delivered c))
     else delivered (c\<lparr>readBuf := []\<rparr>))"
  by (subst (1 2 3) delivered_buf) simp

lemma fill_delivered:
  "case fill c of (None, c') \<Rightarrow> readBuf c' \<noteq> [] \<and> delivered c' = delivered c
   | (Some e, c') \<Rightarrow> delivered c = ([], e)"
proof (induction c rule: fill.induct)
  case (1 c)
  show ?case
  proof (cases "readBuf c = []")
    case False
    then show ?thesis by (simp add: fill.simps)
  next
    case True
    obtain r c' where r: "readRecord c = (r, c')" by fastforce
    show ?thesis
    proof (cases "\<exists>data. r = Inr (recordApplicationData, data)")
      case t: True
      then obtain data where d: "r = Inr (recordApplicationData, data)" by blast
      have "fill c = fill (c'\<lparr>readBuf := data\<rparr>)" using True r d by (subst fill.simps) simp
      moreover have "delivered c = delivered (c'\<lparr>readBuf := data\<rparr>)"
        using True r d by (subst delivered.simps) (simp add: split_beta)
      ultimately show ?thesis using "1.IH" [of r c' "(recordApplicationData, data)" recordApplicationData data] True r d
        by (auto split: prod.splits option.splits)
    next
      case False
      then show ?thesis
        using True r by (subst fill.simps, subst delivered.simps) (auto split: sum.splits)
    qed
  qed
qed

lemma read_data_step:
  assumes "delivered c = (P, e)"
  shows "case read_data n c of
      (Inl err, c') \<Rightarrow> P = [] \<and> err = e
    | (Inr b, c') \<Rightarrow> b = take (length b) P \<and> length b \<le> n \<and> (0 < n \<longrightarrow> b \<noteq> []) \<and> delivered c' = (drop (length b) P, e)"
proof -
  obtain r c' where f: "fill c = (r, c')" by fastforce
  show ?thesis
  proof (cases r)
    case (Some err)
    then show ?thesis using fill_delivered [of c] f assms by (simp add: read_data_def)
  next
    case None
    then have d: "readBuf c' \<noteq> []" "delivered c' = (P, e)" using fill_delivered [of c] f assms by simp_all
    let ?D = "delivered (c'\<lparr>readBuf := []\<rparr>)"
    have P: "P = readBuf c' @ fst ?D" "e = snd ?D"
      using d(2) delivered_buf [of c'] by simp_all
    have "delivered (c'\<lparr>readBuf := drop n (readBuf c')\<rparr>) = (drop n (readBuf c') @ fst ?D, e)"
      using delivered_buf [of "c'\<lparr>readBuf := drop n (readBuf c')\<rparr>"] P(2) by simp
    then show ?thesis using d(1) f None by (auto simp: read_data_def P(1) min_def)
  qed
qed

text \<open>\<open>io.ReadFull\<close> over a connection: \<open>acc\<close> was read so far.\<close>

function conn_ReadFull :: "nat \<Rightarrow> bytes \<Rightarrow> 'w Conn \<Rightarrow> (tls_error + bytes) \<times> 'w Conn" where
  "conn_ReadFull n acc c =
     (if n \<le> length acc then (Inr acc, c)
      else
        (case read_data (n - length acc) c of
           (Inl err, c') \<Rightarrow> (Inl (if acc \<noteq> [] \<and> err = Io EOF then Io ErrUnexpectedEOF else err), c')
         | (Inr b, c') \<Rightarrow> conn_ReadFull n (acc @ b) c'))"
  by pat_completeness auto

termination
proof (relation "measure (\<lambda>(n, acc, _). n - length acc)", goal_cases)
  case (2 n acc c r c' b)
  then have "b \<noteq> []" using read_data_step [of c "fst (delivered c)" "snd (delivered c)" "n - length acc"]
    by (auto split: prod.splits)
  with 2(1) show ?case by (cases b) auto
qed simp

declare conn_ReadFull.simps [simp del]

lemma conn_ReadFull_delivers:
  "delivered c = (P, e) \<Longrightarrow> length acc \<le> n \<Longrightarrow>
   (if n \<le> length acc + length P
    then \<exists>c'. conn_ReadFull n acc c = (Inr (acc @ take (n - length acc) P), c') \<and>
      delivered c' = (drop (n - length acc) P, e)
    else fst (conn_ReadFull n acc c) = Inl (if e = Io EOF \<and> acc @ P \<noteq> [] then Io ErrUnexpectedEOF else e))"
proof (induction n acc c arbitrary: P rule: conn_ReadFull.induct)
  case (1 n acc c)
  show ?case
  proof (cases "n = length acc")
    case True
    then show ?thesis using "1.prems" by (subst conn_ReadFull.simps) simp
  next
    case False
    then have n: "\<not> n \<le> length acc" using "1.prems"(2) by simp
    obtain r c' where r: "read_data (n - length acc) c = (r, c')" by fastforce
    note s = read_data_step [OF "1.prems"(1), of "n - length acc"]
    show ?thesis
    proof (cases r)
      case (Inl err)
      then show ?thesis using n s r by (subst (1 2) conn_ReadFull.simps) auto
    next
      case (Inr b)
      then have b: "b = take (length b) P" "length b \<le> n - length acc" "b \<noteq> []"
        "delivered c' = (drop (length b) P, e)" using s r n by simp_all
      have l: "length b \<le> length P" by (metis b(1) length_take min.bounded_iff order_refl)
      have "length (acc @ b) \<le> n" using b(2) n by simp
      note ih = "1.IH" [OF n r [symmetric] Inr b(4) this]
      have st: "conn_ReadFull n acc c = conn_ReadFull n (acc @ b) c'"
        using n r Inr by (subst conn_ReadFull.simps) simp
      obtain P' where P: "P = b @ P'" by (metis b(1) append_take_drop_id)
      have k: "n - length acc = length b + (n - length (acc @ b))" using b(2) by simp
      show ?thesis
        using ih b(3) n unfolding st by (simp add: P k take_add add.assoc split: if_splits)
    qed
  qed
qed

text \<open>
  Claim C17. A connection is the byte stream it delivers: \<open>io.ReadFull\<close> over it, which calls \<open>Read\<close> until
  enough arrived, takes from the delivered bytes what \<open>ReadFull\<close> takes from a plain stream, with
  the same error at its end, however the bytes are cut into records; a protocol error or an alert
  at the end of the stream is reported in place of the end.
\<close>

theorem connection_refines_stream:
  assumes "delivered c = (P, e)"
  shows "case ReadFull P n of
      Inr (b, rest) \<Rightarrow> \<exists>c'. conn_ReadFull n [] c = (Inr b, c') \<and> delivered c' = (rest, e)
    | Inl err \<Rightarrow> fst (conn_ReadFull n [] c) = Inl (if e = Io EOF then Io err else e)"
  using conn_ReadFull_delivers [OF assms, of "[]" n] by (auto simp: ReadFull_def)

section \<open>What one end writes the other delivers\<close>

lemma app_record_type [simp]: "recordApplicationData \<noteq> recordHandshake"
  by (simp add: record_types)

lemma delivered_app:
  "input c = fst (app_stream (version c) (cin c) p) @ rest \<Longrightarrow> \<not> firstRecord c \<Longrightarrow>
   delivered c = (let D = delivered (c\<lparr>readBuf := [], input := rest, cin := snd (app_stream (version c) (cin c) p)\<rparr>)
     in (readBuf c @ p @ fst D, snd D))"
proof (induction p arbitrary: c rule: length_induct)
  case (1 p)
  show ?case
  proof (cases "p = []")
    case True
    have "c\<lparr>readBuf := [], input := rest, cin := cin c\<rparr> = c\<lparr>readBuf := []\<rparr>"
      using "1.prems" True by (cases c) simp
    then show ?thesis using True delivered_buf [of c] by (simp add: Let_def)
  next
    case False
    let ?q = "take 16384 p" let ?x = "seal (cin c) recordApplicationData ?q"
    let ?r = "app_stream (version c) (snd ?x) (drop 16384 p)"
    have inp: "input c = record_bytes recordApplicationData (version c) (fst ?x) @ fst ?r @ rest"
      using "1.prems"(1) False by (simp add: app_stream_step Let_def)
    have l: "length (fst ?x) \<le> 18432"
      using length_seal [of "cin c" recordApplicationData ?q] by simp
    have rr: "readRecord c = (Inr (recordApplicationData, ?q),
        c\<lparr>input := fst ?r @ rest, firstRecord := False, cin := snd ?x\<rparr>)" (is "_ = (_, ?c)")
      by (rule readRecord_sealed [OF inp l]) simp
    have less: "length (drop 16384 p) < length p" using False by simp
    have ih: "delivered (?c\<lparr>readBuf := ?q\<rparr>) =
      (let D = delivered (?c\<lparr>readBuf := [], input := rest, cin := snd ?r\<rparr>) in (?q @ drop 16384 p @ fst D, snd D))"
      using "1.IH" [rule_format, OF less, of "?c\<lparr>readBuf := ?q\<rparr>"] by (simp add: Let_def)
    have e: "?c\<lparr>readBuf := [], input := rest, cin := snd ?r\<rparr> =
        c\<lparr>readBuf := [], input := rest, cin := snd (app_stream (version c) (cin c) p)\<rparr>"
      using "1.prems"(2) False by (cases c) (simp add: app_stream_step Let_def)
    have "delivered c = (readBuf c @ fst (delivered (?c\<lparr>readBuf := ?q\<rparr>)), snd (delivered (?c\<lparr>readBuf := ?q\<rparr>)))"
      by (subst delivered.simps) (simp add: rr split_beta)
    then show ?thesis unfolding ih e by (simp add: Let_def append_assoc [symmetric] del: append_assoc)
  qed
qed

end
