(* ===== verification/Connection.thy ===== *)
theory Connection
  imports Handlers Tls_Stream
begin

text \<open>
  A connection from end to end (\<open>serveConn\<close> and \<open>writeLoop\<close> of hpserver/server.go): frames read from a
  TLS connection, the loop that serves them until the connection ends, and the loop that writes the
  frames a session has queued.
\<close>

section \<open>Reading frames from a connection\<close>

text \<open>\<open>legacyfire.Read\<close> over a connection whose handshake is done.\<close>

definition conn_Read :: "'w Conn \<Rightarrow> ((tls_error + Frame) \<times> 'w Conn) go" where
  "conn_Read c =
     (case conn_ReadFull HeaderSize [] c of
        (Inl err, c1) \<Rightarrow> Inr (Inl err, c1)
      | (Inr headerBytes, c1) \<Rightarrow>
          (case ParseHeader headerBytes of
             Inl err \<Rightarrow> Inr (Inl (Io err), c1)
           | Inr h \<Rightarrow>
               (case conn_ReadFull (unat (PayloadSize h)) [] c1 of
                  (Inl err, c2) \<Rightarrow> Inr (Inl err, c2)
                | (Inr payload, c2) \<Rightarrow>
                    (let f = \<lparr>Header = h, Payload = payload, TDF = None\<rparr> in
                     if payload \<noteq> []
                     then go_bind (DecodeTDF payload) (\<lambda>(decoded, consumed).
                            Inr (Inr (if 0 \<le> consumed then f\<lparr>TDF := Some decoded\<rparr> else f), c2))
                     else Inr (Inr f, c2)))))"

definition end_error :: "tls_error \<Rightarrow> io_error \<Rightarrow> tls_error" where
  "end_error e err = (if e = Io EOF then Io err else e)"

text \<open>What \<open>conn_Read\<close> does when the plain \<open>Read\<close> on the delivered bytes returns \<open>r\<close>.\<close>

definition reads_as :: "'w Conn \<Rightarrow> tls_error \<Rightarrow> (io_error + (Frame \<times> bytes)) go \<Rightarrow> bool" where
  "reads_as c e r =
     (case r of
        Inl p \<Rightarrow> conn_Read c = Inl p
      | Inr (Inl err) \<Rightarrow> (\<exists>c'. conn_Read c = Inr (Inl (end_error e err), c'))
      | Inr (Inr (f, rest)) \<Rightarrow> (\<exists>c'. conn_Read c = Inr (Inr f, c') \<and> delivered c' = (rest, e)))"

lemma conn_ReadFull_as:
  assumes "delivered c = (P, e)"
  shows "(\<exists>b rest c'. ReadFull P n = Inr (b, rest) \<and> conn_ReadFull n [] c = (Inr b, c') \<and> delivered c' = (rest, e)) \<or>
    (\<exists>err c'. ReadFull P n = Inl err \<and> conn_ReadFull n [] c = (Inl (end_error e err), c'))"
  using conn_ReadFull_delivers [OF assms, of "[]" n]
  by (cases "conn_ReadFull n [] c") (auto simp: ReadFull_def end_error_def split: if_splits)

lemma conn_Read_refines:
  assumes "delivered c = (P, e)"
  shows "reads_as c e (Read P)"
proof -
  consider (short) err c' where "ReadFull P HeaderSize = Inl err" "conn_ReadFull HeaderSize [] c = (Inl (end_error e err), c')"
    | (header) b rest c' where "ReadFull P HeaderSize = Inr (b, rest)" "conn_ReadFull HeaderSize [] c = (Inr b, c')"
        "delivered c' = (rest, e)"
    using conn_ReadFull_as [OF assms] by blast
  then show ?thesis
  proof cases
    case short
    then show ?thesis by (simp add: reads_as_def Read_def conn_Read_def)
  next
    case header
    have "length b = HeaderSize" using header(1) by (auto simp: ReadFull_def split: if_splits)
    then obtain h where h: "ParseHeader b = Inr h" by (simp add: ParseHeader_def)
    from conn_ReadFull_as [OF header(3), of "unat (PayloadSize h)"] show ?thesis
    proof (elim disjE exE conjE)
      fix payload rest' c2
      assume "ReadFull rest (unat (PayloadSize h)) = Inr (payload, rest')"
        "conn_ReadFull (unat (PayloadSize h)) [] c' = (Inr payload, c2)" "delivered c2 = (rest', e)"
      then show ?thesis
        using header(1,2) h by (cases "DecodeTDF payload") (auto simp: reads_as_def Read_def conn_Read_def Let_def)
    qed (use header(1,2) h in \<open>simp add: reads_as_def Read_def conn_Read_def\<close>)
  qed
qed

lemma conn_Read_shorter:
  assumes "conn_Read c = Inr (Inr f, c')"
  shows "length (fst (delivered c')) < length (fst (delivered c))"
proof -
  obtain P e where d: "delivered c = (P, e)" by fastforce
  then obtain rest where "Read P = Inr (Inr (f, rest))" "delivered c' = (rest, e)"
    using conn_Read_refines [OF d] assms by (auto simp: reads_as_def split: sum.splits)
  then show ?thesis using Read_shorter d by simp
qed

section \<open>Serving a connection\<close>

text \<open>
  The loop of \<open>serveConn\<close>.  What is not its own is given by the number of the round: the clock, what
  other connections do to the server while this one waits for a frame, and whether the writer has
  reported an error before.  Every way out runs the deferred \<open>removeSession\<close>.
\<close>

record Environment =
  clock :: "nat \<Rightarrow> i64"
  others :: "nat \<Rightarrow> Server \<Rightarrow> Server"
  writer_failed :: "nat \<Rightarrow> bool"

function serve_loop :: "Environment \<Rightarrow> handle \<Rightarrow> nat \<Rightarrow> 'w Conn \<Rightarrow> Server \<Rightarrow> Server go" where
  "serve_loop env h i c w =
     (if writer_failed env i then removeSession h w
      else
        go_bind (conn_Read c) (\<lambda>(r, c').
          case r of
            Inl _ \<Rightarrow> removeSession h (others env i w)
          | Inr request \<Rightarrow>
              go_bind (serve_request (clock env i) h request (others env i w)) (\<lambda>(open, w').
                if open then serve_loop env h (Suc i) c' w' else removeSession h w')))"
  by pat_completeness auto

termination
  by (relation "measure (\<lambda>(_, _, _, c, _). length (fst (delivered c)))") (auto dest: conn_Read_shorter)

declare serve_loop.simps [simp del]

definition serveConn ::
  "'w writer \<Rightarrow> i64 \<Rightarrow> (nat \<Rightarrow> u8) option \<Rightarrow> Environment \<Rightarrow> handle \<Rightarrow> remote_addr \<Rightarrow> 'w Conn \<Rightarrow> Server \<Rightarrow> Server go" where
  "serveConn wr now random env h remote c w =
     (let w0 = upd h (\<lambda>_. newSession remote) w in
      go_bind (Handshake wr now random c) (\<lambda>(err, c').
        case err of Some _ \<Rightarrow> removeSession h w0 | None \<Rightarrow> serve_loop env h 0 c' w0))"

section \<open>Writing what a session queued\<close>

text \<open>
  \<open>writeLoop\<close> over the frames the session queues in its life.  The context may be cancelled, at round \<open>i\<close>,
  before a frame is taken or while its delay runs; once nothing more is queued the loop only
  ends by being cancelled.
\<close>

datatype write_end = Canceled | WriteFailed io_error

fun writeLoop ::
  "'w writer \<Rightarrow> (nat \<Rightarrow> bool) \<Rightarrow> (nat \<Rightarrow> bool) \<Rightarrow> nat \<Rightarrow> outboundFrame list \<Rightarrow> 'w \<Rightarrow> (write_end \<times> 'w) go" where
  "writeLoop wr done_before done_waiting i [] w = Inr (Canceled, w)"
| "writeLoop wr done_before done_waiting i (item # items) w =
     (if done_before i then Inr (Canceled, w)
      else if 0 < delay item \<and> done_waiting i then Inr (Canceled, w)
      else
        go_bind (Write wr w (frame item)) (\<lambda>((err, w'), _).
          case err of
            Some e \<Rightarrow> Inr (WriteFailed e, w')
          | None \<Rightarrow> writeLoop wr done_before done_waiting (Suc i) items w'))"

end
