(* ===== verification/Request_Properties.thy ===== *)
theory Request_Properties
  imports Match_Properties
begin

text \<open>
  What a request does to the session that sent it and to others: the order in which frames are
  queued around the reply, and who may remove a player.
\<close>

section \<open>The order of frames\<close>

text \<open>Held-back notifications as they are queued: the first one carries the delay.\<close>

definition flushed :: "int \<Rightarrow> Frame list \<Rightarrow> outboundFrame list" where
  "flushed d fs = (case fs of [] \<Rightarrow> [] | f # fs' \<Rightarrow> \<lparr>frame = f, delay = d\<rparr> # map (\<lambda>f. \<lparr>frame = f, delay = 0\<rparr>) fs')"

lemma flush_loop_queue:
  "outbound s = Some q \<Longrightarrow> \<not> closed s \<Longrightarrow> flush_loop d fs s = s\<lparr>outbound := Some (q @ flushed d fs)\<rparr>"
proof (induction d fs s arbitrary: q rule: flush_loop.induct)
  case (1 d s)
  then show ?case by (cases s) (simp add: flushed_def)
next
  case (2 d f fs s)
  have "flushed d (f # fs) = \<lparr>frame = f, delay = d\<rparr> # flushed 0 fs"
    by (cases fs) (simp_all add: flushed_def)
  moreover have e: "enqueue \<lparr>frame = f, delay = d\<rparr> s = (True, s\<lparr>outbound := Some (q @ [\<lparr>frame = f, delay = d\<rparr>])\<rparr>)"
    using "2.prems" by (simp add: enqueue_def)
  ultimately show ?case using "2.IH" [OF e [symmetric]] "2.prems" by simp
qed

text \<open>
  Claim C19. The reply to a request precedes the notifications the handler held back: serving one that
  keeps the connection open ran the handler registered for it and then queued, behind what the
  session had in its queue, the reply and then every held notification in order, only the first
  of them delayed; none stays held, and no other session is touched after the handler.
\<close>

theorem reply_precedes_held:
  assumes "serve_request now h request w = Inr (True, w')"
  shows "\<exists>f response w1 q. map_of Handlers (key (Component (Header request)) (Command (Header request))) = Some f \<and>
    f now h request w = Inr (response, w1) \<and> outbound (heap w1 h) = Some q \<and>
    outbound (heap w' h) = Some (q @ \<lparr>frame = response, delay = 0\<rparr> #
      flushed (NotificationDelay (heap w1 h)) (Notifications (heap w1 h))) \<and>
    Notifications (heap w' h) = [] \<and> (\<forall>k. k \<noteq> h \<longrightarrow> heap w' k = heap w1 k)"
proof -
  obtain f where f1: "map_of Handlers (key (Component (Header request)) (Command (Header request))) = Some f"
    using assms by (auto simp: serve_request_def split: option.splits)
  obtain response w1 where f2: "f now h request w = Inr (response, w1)"
    using assms f1 by (auto simp: serve_request_def go_bind_Inr_iff)
  note f = f1 f2
  obtain s where e: "enqueue \<lparr>frame = response, delay = 0\<rparr> (heap w1 h) = (True, s)"
    and w': "w' = upd h (\<lambda>_. flushNotifications s) w1"
    using assms f by (cases "enqueue \<lparr>frame = response, delay = 0\<rparr> (heap w1 h)";
      cases "fst (enqueue \<lparr>frame = response, delay = 0\<rparr> (heap w1 h))") (auto simp: serve_request_def)
  obtain q where q: "outbound (heap w1 h) = Some q" "\<not> closed (heap w1 h)"
    and s: "s = (heap w1 h)\<lparr>outbound := Some (q @ [\<lparr>frame = response, delay = 0\<rparr>])\<rparr>"
    using e by (auto simp: enqueue_def split: option.splits if_splits)
  have "flushNotifications s = s\<lparr>Notifications := [], NotificationDelay := 0,
      outbound := Some ((q @ [\<lparr>frame = response, delay = 0\<rparr>]) @ flushed (NotificationDelay s) (Notifications s))\<rparr>"
    unfolding flushNotifications_def by (rule flush_loop_queue) (simp_all add: s q)
  then show ?thesis using f q(1) by (auto simp: w' s upd_def)
qed

text \<open>
  A broadcast or a delivery of the handler goes to the queue at once: asked to remove a player of a
  game it does not know, the server queues the removal before the acknowledgement.
\<close>

lemma removal_precedes_acknowledgement:
  assumes "outbound (heap w h) = Some q" and "\<not> closed (heap w h)"
    and "map_of (games w) (int_field (frame_fields request) ''GID'') = None"
    and "removePlayer now h request w = Inr (response, w')"
  shows "\<exists>f. Command (Header f) = NotifyPlayerRemoved \<and> outbound (heap w' h) = Some (q @ [\<lparr>frame = f, delay = 0\<rparr>])"
  using assms
  by (auto simp: removePlayer_def removePlayer_locked_def Let_def go_bind_Inr_iff playerRemovedNotification_def
      game_notification_def notification_def deliver_def notify_def enqueue_def upd_def)

section \<open>Who may remove a player\<close>

text \<open>
  Claim C20. Only the player itself or the host of its game removes a player: if a request to remove one
  changes the game of any session, the request named a game and a player of it, came from a
  session that is that player or hosts that game, and the session changed is that player, or a
  member of the game whose host left.
\<close>

theorem only_self_or_host_removes:
  assumes "GameID (heap (snd (removePlayer_locked h gameID playerID w)) m) \<noteq> GameID (heap w m)"
  shows "\<exists>game target. map_of (games w) gameID = Some game \<and> sessionForPlayerID (heap w) game playerID = Some target \<and>
    sessionForPlayerID (heap w) game (PersonaID (heap w h)) \<noteq> None \<and> (target = h \<or> Host game = h) \<and>
    (m = target \<or> target = Host game \<and> m \<in> set (Members game))"
proof -
  obtain game caller target where g: "map_of (games w) gameID = Some game"
    "sessionForPlayerID (heap w) game (PersonaID (heap w h)) = Some caller"
    "sessionForPlayerID (heap w) game playerID = Some target" "target = h \<or> Host game = h"
    using assms by (auto simp: removePlayer_locked_def split: option.splits if_splits)
  let ?g = "snd (removeMember (heap w) target game)"
  have "Host ?g = Host game" "set (Members ?g) \<subseteq> set (Members game)"
    using set_remove1_subset [of target "Members game"] by (simp_all add: removeMember_eq)
  then have "m = target \<or> target = Host game \<and> m \<in> set (Members game)"
    using assms g
    by (auto simp: removePlayer_locked_def Let_def fold_release removeQueuedSessionLocked_def split: if_splits)
  with g show ?thesis by blast
qed

section \<open>Witnesses\<close>

definition waiting_news :: Server where
  "waiting_news = upd 2 (hold [notification ComponentUserSessions NotifyUserAdded []]) fresh_server"

theorem reply_precedes_held_witness:
  "\<exists>w' r n. serve_request 5 2 (bare_request ComponentAuthentication CommandLogout) waiting_news = Inr (True, w') \<and>
     outbound (heap w' 2) = Some [r, n] \<and> MessageType (Header (frame r)) = MessageReply \<and>
     Command (Header (frame n)) = NotifyUserAdded"
proof -
  let ?r = "bare_request ComponentAuthentication CommandLogout"
  have f: "map_of Handlers (key (Component (Header ?r)) (Command (Header ?r))) = Some acknowledge"
    unfolding Handlers_registered
    by (rule map_of_is_SomeI [OF distinct_keys]) (simp add: registerDefaultHandlers_def bare_request_def)
  have a: "acknowledge 5 2 ?r waiting_news = Inr (Reply ?r [], waiting_news)" by (simp add: acknowledge_def)
  have w: "outbound (heap waiting_news 2) = Some []" "\<not> closed (heap waiting_news 2)"
    "NotificationDelay (heap waiting_news 2) = 0"
    "Notifications (heap waiting_news 2) = [notification ComponentUserSessions NotifyUserAdded []]"
    by (simp_all add: waiting_news_def upd_def hold_def fresh_server_def newSession_def)
  obtain w' where s: "serve_request 5 2 ?r waiting_news = Inr (True, w')"
    using f a w by (simp add: serve_request_def enqueue_def)
  from reply_precedes_held [OF s] f a w s show ?thesis
    by (auto simp: flushed_def Reply_def notification_def)
qed

definition duel :: Server where
  "duel = two_players\<lparr>games := [(5, \<lparr>ID = 5, Host = 2, Members = [2, 3], Attrs = [], Capacity = 8, Topology = 130,
       State = 1, Settings = 0, Slots = [], JoinedAt = [], PlayerAttrs = [], PlayerStates = [], Mesh = [], MeshReady = []\<rparr>)],
     heap := (\<lambda>h. (heap two_players h)\<lparr>GameID := 5\<rparr>)\<rparr>"

theorem only_self_or_host_removes_witness:
  "GameID (heap (snd (removePlayer_locked 2 5 2 duel)) 3) \<noteq> GameID (heap duel 3) \<and>
   (\<exists>game. map_of (games duel) 5 = Some game \<and> sessionForPlayerID (heap duel) game 2 = Some 3 \<and> Host game = 2)"
proof -
  have c: "GameID (heap (snd (removePlayer_locked 2 5 2 duel)) 3) \<noteq> GameID (heap duel 3)"
    using two_players_state(1,2)
    by (simp add: duel_def removePlayer_locked_def sessionForPlayerID_def canonicalPlayerID_def Let_def removeMember_def
        upd_def removeQueuedSessionLocked_def)
  from only_self_or_host_removes [OF c] c two_players_state(1,2) show ?thesis
    by (auto simp: duel_def sessionForPlayerID_def canonicalPlayerID_def split: if_splits)
qed

end
