(* ===== verification/Tls_Client.thy ===== *)
theory Tls_Client
  imports Tls_Stream
begin

text \<open>
  The client's side of the handshake, as the messages a client may send, and the parsing of them
  by the server: each check of the server accepts exactly the messages a client may build.
\<close>

section \<open>Records and messages, read backwards\<close>

lemma open_record_iff:
  "open_record typ b c = (Inr r, c') \<longleftrightarrow>
   (\<exists>p. r = (typ, p) \<and> b = fst (seal (cin c) typ p) \<and> c' = c\<lparr>cin := snd (seal (cin c) typ p)\<rparr>)"
proof (cases "active (cin c)")
  case False
  then show ?thesis by (auto simp: open_record_def seal_def)
next
  case True
  let ?s = "cin c"
  show ?thesis
  proof
    assume o: "open_record typ b c = (Inr r, c')"
    let ?x = "XORKeyStream (stream ?s) b"
    let ?n = "length b - hash_size (newHash ?s)"
    let ?p = "take ?n (fst ?x)"
    have m: "drop ?n (fst ?x) = recordMAC ?s typ ?p" and r: "r = (typ, ?p)"
      and c': "c' = c\<lparr>cin := ?s\<lparr>stream := snd ?x, seqno := seqno ?s + 1\<rparr>\<rparr>"
      using o True by (auto simp: open_record_def Let_def split_beta split: if_splits)
    have x: "?p @ recordMAC ?s typ ?p = fst ?x" using m by (metis append_take_drop_id)
    have s: "seal ?s typ ?p = (b, ?s\<lparr>stream := snd ?x, seqno := seqno ?s + 1\<rparr>)"
      using True unfolding seal_def x by (simp add: XORKeyStream_twice)
    show "\<exists>p. r = (typ, p) \<and> b = fst (seal ?s typ p) \<and> c' = c\<lparr>cin := snd (seal ?s typ p)\<rparr>"
      by (intro exI [of _ ?p]) (simp add: s r c')
  qed (auto simp: open_seal)
qed

lemma put_get_u16: "put_u16 (get_u16 (a # b # r)) = [a, b]"
proof -
  have "\<not> bit b (8 + n)" for n using bit_imp_le_length [of b "8 + n"] by auto
  then show ?thesis by (auto simp: put_u16_def bit_simps intro!: bit_word_eqI)
qed

lemma ReadFull_header:
  assumes "ReadFull inp 5 = Inr (h, r)"
  shows "inp = h @ r" "h = hd h # put_u16 (get_u16 (drop (Suc 0) h)) @ put_u16 (get_u16 (drop 3 h))"
proof -
  have "length h = 5" and inp: "inp = h @ r" using assms by (auto simp: ReadFull_def split: if_splits)
  then obtain t a b c d where "h = [t, a, b, c, d]" by (auto simp: eval_nat_numeral length_Suc_conv)
  then show "inp = h @ r" "h = hd h # put_u16 (get_u16 (drop (Suc 0) h)) @ put_u16 (get_u16 (drop 3 h))"
    using inp put_get_u16 [of a b "[c, d]"] put_get_u16 [of c d "[]"]
    by (simp_all del: get_u16.simps)
qed

lemma readRecord_iff:
  "readRecord c = (Inr (typ, p), c') \<longleftrightarrow>
   (\<exists>rv rest. input c = record_bytes typ rv (fst (seal (cin c) typ p)) @ rest \<and>
     length (fst (seal (cin c) typ p)) \<le> 18432 \<and>
     (rv = version c \<or> firstRecord c \<and> rv = ssl30 \<and> typ = recordHandshake) \<and>
     c' = c\<lparr>input := rest, firstRecord := False, cin := snd (seal (cin c) typ p)\<rparr>)"
    (is "?L \<longleftrightarrow> ?R")
proof
  assume L: ?L
  then obtain h r1 where h: "ReadFull (input c) 5 = Inr (h, r1)"
    by (auto simp: readRecord_def split: sum.splits)
  let ?v = "get_u16 (drop (Suc 0) h)" let ?l = "get_u16 (drop 3 h)"
  obtain b r2 where b: "ReadFull r1 (unat ?l) = Inr (b, r2)" "unat ?l \<le> 18432"
    and v: "?v = version c \<or> firstRecord c \<and> ?v = ssl30 \<and> hd h = recordHandshake"
    and o: "open_record (hd h) b (c\<lparr>firstRecord := False, input := r2\<rparr>) = (Inr (typ, p), c')"
    using L h by (auto simp: readRecord_def Let_def split: if_splits sum.splits)
  have lb: "length b = unat ?l" and r1: "r1 = b @ r2"
    using b(1) by (auto simp: ReadFull_def split: if_splits)
  have t: "typ = hd h" and bs: "b = fst (seal (cin c) typ p)"
    and c': "c' = c\<lparr>firstRecord := False, input := r2, cin := snd (seal (cin c) typ p)\<rparr>"
    using o by (auto simp: open_record_iff)
  have hh: "h = record_header typ ?v b"
    using ReadFull_header(2) [OF h] by (simp add: record_header_def lb t)
  have "input c = record_bytes typ ?v b @ r2"
    using ReadFull_header(1) [OF h] r1 by (simp add: record_bytes_def flip: hh)
  with b(2) v lb c' t bs show ?R by (cases c) auto
next
  assume ?R
  then show ?L by (auto simp: readRecord_sealed)
qed

text \<open>A handshake record that holds one message.\<close>

lemma digits24:
  assumes "x < 256" "y < 256" "z < (256 :: nat)"
  shows "n = x * 65536 + y * 256 + z \<longleftrightarrow>
    n div 65536 mod 256 = x \<and> n div 256 mod 256 = y \<and> n mod 256 = z \<and> n < 2 ^ 24"
proof
  assume n: "n = x * 65536 + y * 256 + z"
  then have "n div 256 = x * 256 + y" using assms(3) by simp
  moreover have "n div 65536 = n div 256 div 256" by (simp add: div_mult2_eq [symmetric])
  moreover have "n = z + (x * 256 + y) * 256" using n by simp
  then have "n mod 256 = z" using assms(3) by (simp only: mod_mult_self1 mod_less)
  ultimately show "n div 65536 mod 256 = x \<and> n div 256 mod 256 = y \<and> n mod 256 = z \<and> n < 2 ^ 24"
    using assms n by simp
next
  assume d: "n div 65536 mod 256 = x \<and> n div 256 mod 256 = y \<and> n mod 256 = z \<and> n < 2 ^ 24"
  then have "n div 65536 < 256" by (simp add: div_less_iff_less_mult)
  with d have "n div 65536 = x" by simp
  moreover have "n div 65536 = n div 256 div 256" by (simp add: div_mult2_eq [symmetric])
  ultimately show "n = x * 65536 + y * 256 + z"
    using d div_mult_mod_eq [of n 256] div_mult_mod_eq [of "n div 256" 256] by simp
qed

lemma uint24_iff:
  "n = unat b1 * 65536 + unat b2 * 256 + unat (b3 :: u8) \<longleftrightarrow> putUint24 n = [b1, b2, b3] \<and> n < 2 ^ 24"
proof -
  have b: "unat b1 < 256" "unat b2 < 256" "unat b3 < 256"
    using unsigned_less [of b1] unsigned_less [of b2] unsigned_less [of b3] by simp_all
  have "putUint24 n = [b1, b2, b3] \<longleftrightarrow>
    n div 65536 mod 256 = unat b1 \<and> n div 256 mod 256 = unat b2 \<and> n mod 256 = unat b3"
    by (auto simp: putUint24_def word_unat_eq_iff unat_of_nat)
  then show ?thesis unfolding digits24 [OF b] by blast
qed

lemma splitHandshake_Nil [simp]: "splitHandshake b = Some [] \<longleftrightarrow> b = []"
  by (subst splitHandshake.simps) (auto simp: Let_def)

lemma one_message_iff:
  "one_message typ data = Some m \<longleftrightarrow> m = data \<and> (\<exists>body. data = handshakeMessage typ body \<and> length body < 2 ^ 24)"
proof -
  have *: "splitHandshake data = Some [m] \<longleftrightarrow>
      m = data \<and> (\<exists>t body. data = handshakeMessage t body \<and> length body < 2 ^ 24)"
  proof (cases "4 \<le> length data")
    case False
    then show ?thesis by (subst splitHandshake.simps) (auto simp: handshakeMessage_def putUint24_def)
  next
    case True
    then obtain t b1 b2 b3 body where d: "data = t # b1 # b2 # b3 # body"
      by (auto simp: eval_nat_numeral Suc_le_length_iff)
    let ?n = "unat b1 * 65536 + unat b2 * 256 + unat b3"
    have "splitHandshake data = Some [m] \<longleftrightarrow> length body = ?n \<and> m = data"
      by (subst splitHandshake.simps) (auto simp: d Let_def)
    also have "length body = ?n \<longleftrightarrow> (\<exists>t' body'. data = handshakeMessage t' body' \<and> length body' < 2 ^ 24)"
      unfolding uint24_iff by (auto simp: d handshakeMessage_def putUint24_def)
    finally show ?thesis by blast
  qed
  have "one_message typ data = Some m \<longleftrightarrow> splitHandshake data = Some [m] \<and> m ! 0 = typ"
    by (auto simp: one_message_def split: option.splits list.splits)
  then show ?thesis unfolding * by (auto simp: handshakeMessage_def)
qed

section \<open>What a client sends\<close>

text \<open>
  The choices of a client: the version, the version on the record of its first message, its random
  bytes, the session identifier, the suites it offers, what follows them (compression methods and
  extensions), the encrypted premaster secret, and whether its length is put before it.
\<close>

record Client =
  c_version :: u16
  c_record :: u16
  c_random :: bytes
  c_session :: bytes
  c_suites :: "u16 list"
  c_more :: bytes
  c_encrypted :: bytes
  c_prefixed :: bool

definition hello_message :: "Client \<Rightarrow> bytes" where
  "hello_message x = handshakeMessage 1 (put_u16 (c_version x) @ c_random x @
     of_nat (length (c_session x)) # c_session x @ put_u16 (of_nat (2 * length (c_suites x))) @
     concat (map put_u16 (c_suites x)) @ c_more x)"

definition hello_of :: "Client \<Rightarrow> Hello" where
  "hello_of x = \<lparr>hello_version = c_version x, clientRandom = c_random x,
     suite = (if suiteRC4SHA \<in> set (c_suites x) then suiteRC4SHA else suiteRC4MD5)\<rparr>"

definition exchange_message :: "Client \<Rightarrow> bytes" where
  "exchange_message x = handshakeMessage 16
     ((if c_prefixed x then put_u16 (of_nat (length (c_encrypted x))) else []) @ c_encrypted x)"

definition good_hello :: "Client \<Rightarrow> bool" where
  "good_hello x \<longleftrightarrow> c_version x \<in> {ssl30, tls10} \<and> c_record x \<in> {ssl30, tls10} \<and> length (c_random x) = 32 \<and>
     length (c_session x) < 256 \<and> 2 * length (c_suites x) < 65536 \<and>
     (suiteRC4SHA \<in> set (c_suites x) \<or> suiteRC4MD5 \<in> set (c_suites x)) \<and> c_more x \<noteq> [] \<and>
     length (hello_message x) \<le> 18432"

text \<open>A secret sent without its length must not look like one sent with it.\<close>

definition good_exchange :: "Client \<Rightarrow> bool" where
  "good_exchange x \<longleftrightarrow> length (exchange_message x) \<le> 18432 \<and>
     (\<not> c_prefixed x \<longrightarrow> \<not> (2 \<le> length (c_encrypted x) \<and>
        unat (get_u16 (c_encrypted x)) + 2 = length (c_encrypted x)))"

section \<open>The server reads exactly these\<close>

lemma pick_suite_offered:
  "pick_suite s (concat (map put_u16 us)) =
     (if suiteRC4SHA \<in> set us then suiteRC4SHA else if suiteRC4MD5 \<in> set us then suiteRC4MD5 else s)"
proof (induction us arbitrary: s)
  case (Cons u us)
  obtain a b where u: "put_u16 u = [a, b]" "get_u16 [a, b] = u"
    using get_put_u16 [of u "[]"] by (simp add: put_u16_def)
  show ?case using Cons u by (auto simp del: get_u16.simps)
qed simp

lemma even_bytes: "even (length b) \<Longrightarrow> \<exists>us. b = concat (map put_u16 us) \<and> 2 * length us = length b"
proof (induction b rule: induct_list012)
  case 1
  then show ?case by simp
next
  case (2 x)
  then show ?case by simp
next
  case (3 x y zs)
  then obtain us where "zs = concat (map put_u16 us)" "2 * length us = length zs" by auto
  then show ?case using put_get_u16 [of x y "[]"] by (intro exI [of _ "get_u16 [x, y] # us"]) simp
qed

lemma length_suites: "length (concat (map put_u16 us)) = 2 * length us"
  by (induction us) simp_all

lemma suites_differ: "suiteRC4SHA \<noteq> 0" "suiteRC4MD5 \<noteq> 0" "suiteRC4SHA \<noteq> suiteRC4MD5"
  by (simp_all add: suiteRC4SHA_def suiteRC4MD5_def)

lemma parse_suites_body:
  assumes "body = p @ cr @ s # sid @ put_u16 cs @ rest" and "length p = 2" and "length cr = 32"
    and "length sid = unat s"
  shows "parse_suites v body =
    (if unat cs mod 2 \<noteq> 0 \<or> length rest < unat cs + 1 then Inl MalformedCipherSuites
     else let q = pick_suite 0 (take (unat cs) rest)
       in if q = 0 then Inl NoCommonSuite
          else Inr \<lparr>hello_version = v, clientRandom = cr, suite = q\<rparr>)"
proof -
  have n: "body ! 34 = s" using assms by (simp add: nth_append)
  have d1: "drop (35 + unat s) body = put_u16 cs @ rest" using assms by simp
  have "drop (35 + unat s + 2) body = drop 2 (drop (35 + unat s) body)"
    by (simp only: drop_drop add.commute)
  then have d2: "drop (35 + unat s + 2) body = rest" by (simp add: d1)
  have t: "take 32 (drop 2 body) = cr" using assms by simp
  have l: "length body = 35 + unat s + 2 + length rest" using assms by simp
  show ?thesis unfolding parse_suites_def Let_def n d1 d2 t by (simp add: l)
qed

lemma split_at: "n \<le> length b \<Longrightarrow> \<exists>x y. b = x @ y \<and> length x = n"
  by (metis append_take_drop_id length_take min.absorb2)

lemma drop_message [simp]: "drop 4 (handshakeMessage t body) = body"
  by (simp add: handshakeMessage_def putUint24_def)

lemma length_message [simp]: "length (handshakeMessage t body) = length body + 4"
  by (simp add: handshakeMessage_def putUint24_def)

lemma hello_back:
  assumes "good_hello x"
  shows "parse_version (hello_message x) = Inr (c_version x)"
    and "parse_suites (c_version x) (drop 4 (hello_message x)) = Inr (hello_of x)"
proof -
  have v: "c_version x = ssl30 \<or> c_version x = tls10" using assms by (simp add: good_hello_def)
  have w: "get_u16 (drop 4 (hello_message x)) = c_version x" by (simp add: hello_message_def del: drop_message)
     (simp add: drop_message)
  have l: "39 \<le> length (hello_message x)" using assms by (simp add: hello_message_def good_hello_def)
  show "parse_version (hello_message x) = Inr (c_version x)"
    unfolding parse_version_def w using v l by (auto simp: Let_def)
  have s: "length (c_session x) = unat (of_nat (length (c_session x)) :: u8)"
    using assms by (simp add: good_hello_def unat_of_nat)
  have c: "unat (of_nat (2 * length (c_suites x)) :: u16) = 2 * length (c_suites x)"
    using assms unfolding good_hello_def by (subst unat_of_nat) simp
  have r: "length (c_random x) = 32" "c_more x \<noteq> []"
    "suiteRC4SHA \<in> set (c_suites x) \<or> suiteRC4MD5 \<in> set (c_suites x)"
    using assms by (simp_all add: good_hello_def)
  have b: "drop 4 (hello_message x) = put_u16 (c_version x) @ c_random x @ of_nat (length (c_session x)) # c_session x @
      put_u16 (of_nat (2 * length (c_suites x))) @ concat (map put_u16 (c_suites x)) @ c_more x"
    by (simp add: hello_message_def)
  show "parse_suites (c_version x) (drop 4 (hello_message x)) = Inr (hello_of x)"
    unfolding parse_suites_body [OF b length_put(1) r(1) s] c
    using r suites_differ by (auto simp: length_suites pick_suite_offered hello_of_def Let_def)
qed

lemma hello_read:
  assumes ch: "ch = handshakeMessage 1 body" and len: "length ch \<le> 18432"
    and v: "parse_version ch = Inr v" and h: "parse_suites v (drop 4 ch) = Inr hello" and rv: "rv \<in> {ssl30, tls10}"
  shows "\<exists>x. good_hello x \<and> ch = hello_message x \<and> hello = hello_of x \<and> c_version x = v \<and> c_record x = rv \<and>
    c_encrypted x = enc \<and> c_prefixed x = pre"
proof -
  have d: "drop 4 ch = body" by (simp add: ch)
  have l: "35 \<le> length body" and v': "v = get_u16 body" "v = ssl30 \<or> v = tls10"
    using v unfolding parse_version_def d Let_def by (auto simp: ch split: if_splits)
  obtain p b1 where p: "body = p @ b1" "length p = 2" using split_at [of 2 body] l by auto
  obtain cr b2 where cr: "b1 = cr @ b2" "length cr = 32" using split_at [of 32 b1] l p by auto
  obtain s b3 where s: "b2 = s # b3" using l p cr by (cases b2) auto
  have s34: "body ! 34 = s" using p cr s by (simp add: nth_append)
  have l2: "unat s + 2 \<le> length b3"
    using h unfolding d parse_suites_def Let_def s34 by (auto simp: p cr s split: if_splits)
  obtain sid b4 where sid: "b3 = sid @ b4" "length sid = unat s" using split_at [of "unat s" b3] l2 by auto
  obtain a b rest where b4: "b4 = a # b # rest" using l2 sid by (auto simp: eval_nat_numeral Suc_le_length_iff)
  let ?cs = "get_u16 [a, b]"
  have body: "body = p @ cr @ s # sid @ put_u16 ?cs @ rest"
    using put_get_u16 [of a b "[]"] by (simp add: p cr s sid b4 del: get_u16.simps)
  note ps = h [unfolded d parse_suites_body [OF body p(2) cr(2) sid(2)]]
  have e: "even (unat ?cs)" and lr: "unat ?cs + 1 \<le> length rest"
    and q: "pick_suite 0 (take (unat ?cs) rest) \<noteq> 0"
    and hello: "hello = \<lparr>hello_version = v, clientRandom = cr, suite = pick_suite 0 (take (unat ?cs) rest)\<rparr>"
    using ps by (auto simp: Let_def even_iff_mod_2_eq_zero simp del: get_u16.simps split: if_splits)
  obtain sb more where sb: "rest = sb @ more" "length sb = unat ?cs" using split_at [of "unat ?cs" rest] lr by auto
  obtain us where us: "sb = concat (map put_u16 us)" "2 * length us = unat ?cs"
    using even_bytes [of sb] e sb(2) by auto
  let ?x = "\<lparr>c_version = v, c_record = rv, c_random = cr, c_session = sid, c_suites = us, c_more = more,
    c_encrypted = enc, c_prefixed = pre\<rparr>"
  have pv: "p = put_u16 v"
  proof -
    obtain y z where "p = [y, z]" using p(2) by (auto simp: eval_nat_numeral length_Suc_conv)
    then show ?thesis using v'(1) put_get_u16 [of y z b1] p(1) by simp
  qed
  have cs: "(of_nat (2 * length us) :: u16) = ?cs" unfolding us(2) by (simp del: get_u16.simps)
  have m: "ch = hello_message ?x"
    unfolding hello_message_def ch body
    using cs by (simp add: pv sid(2) sb us(1) del: get_u16.simps)
  have g: "good_hello ?x"
    unfolding good_hello_def m [symmetric]
    using v'(2) rv cr(2) sid(2) us(2) q lr sb len unsigned_less [of s] unsigned_less [of ?cs]
    by (auto simp: us(1) pick_suite_offered simp del: get_u16.simps split: if_splits)
  have "hello = hello_of ?x"
    using hello q us(2) sb by (auto simp: hello_of_def us(1) pick_suite_offered simp del: get_u16.simps split: if_splits)
  with m g show ?thesis by (intro exI [of _ ?x]) simp
qed

end
