(* ===== verification/Tls_Agreement.thy ===== *)
theory Tls_Agreement
  imports Tls_Client
begin

text \<open>
  The two ends of a handshake: what a client that follows the protocol sends, what the server
  answers, the connection it is left with, and that each step of the server succeeds exactly on
  such input, by inverting its reads one after the other.
\<close>

section \<open>Sizes\<close>

lemma pHash_loop_length: "n \<le> length (pHash_loop alg secret seed n a out)"
  by (induction alg secret seed n a out rule: pHash_loop.induct) (subst pHash_loop.simps, simp add: Let_def)

lemma ssl3_loop_length: "n \<le> length (ssl3_loop secret randoms n i out)"
  by (induction secret randoms n i out rule: ssl3_loop.induct) (subst ssl3_loop.simps, simp add: Let_def)

lemma length_pHash [simp]: "length (pHash alg secret seed n) = n"
  by (simp add: pHash_def min.absorb2 pHash_loop_length)

lemma key_lengths [simp]:
  "length (prf_bytes secret label seed n) = n" "length (ssl3Generate secret randoms n) = n"
  "length (expandKeys v m c s n) = n"
  by (simp_all add: prf_bytes_def ssl3Generate_def expandKeys_def Let_def min.absorb2 ssl3_loop_length)

lemma length_finishedVerify: "length (finishedVerify v m t c) = (if v = tls10 then 12 else 36)"
  by (simp add: finishedVerify_def ssl3FinishedHash_def Let_def)

section \<open>Both ends' view of a handshake\<close>

definition transcript_of :: "Config \<Rightarrow> bytes \<Rightarrow> Client \<Rightarrow> bytes" where
  "transcript_of cfg sr x = hello_message x @ server_flight cfg (hello_of x) sr @ exchange_message x"

definition client_cipher :: "bytes \<Rightarrow> bytes \<Rightarrow> Client \<Rightarrow> cipherState" where
  "client_cipher sr premaster x = (let k = derive_keys (hello_of x) sr premaster
     in makeCipher (clientKey k) (clientMAC k) (key_hash k) (c_version x))"

definition server_cipher :: "bytes \<Rightarrow> bytes \<Rightarrow> Client \<Rightarrow> cipherState" where
  "server_cipher sr premaster x = (let k = derive_keys (hello_of x) sr premaster
     in makeCipher (serverKey k) (serverMAC k) (key_hash k) (c_version x))"

definition client_finished :: "Config \<Rightarrow> bytes \<Rightarrow> bytes \<Rightarrow> Client \<Rightarrow> bytes" where
  "client_finished cfg sr premaster x = handshakeMessage 20
     (finishedVerify (c_version x) (master (derive_keys (hello_of x) sr premaster)) (transcript_of cfg sr x) True)"

definition server_finished :: "Config \<Rightarrow> bytes \<Rightarrow> bytes \<Rightarrow> Client \<Rightarrow> bytes" where
  "server_finished cfg sr premaster x = handshakeMessage 20
     (finishedVerify (c_version x) (master (derive_keys (hello_of x) sr premaster))
       (transcript_of cfg sr x @ client_finished cfg sr premaster x) False)"

text \<open>What the client sends, and what the server answers.\<close>

definition client_bytes :: "Config \<Rightarrow> bytes \<Rightarrow> bytes \<Rightarrow> Client \<Rightarrow> bytes" where
  "client_bytes cfg sr premaster x =
     record_bytes recordHandshake (c_record x) (hello_message x) @
     record_bytes recordHandshake (c_version x) (exchange_message x) @
     record_bytes recordChangeCipherSpec (c_version x) [1] @
     record_bytes recordHandshake (c_version x)
       (fst (seal (client_cipher sr premaster x) recordHandshake (client_finished cfg sr premaster x)))"

definition server_bytes :: "Config \<Rightarrow> bytes \<Rightarrow> bytes \<Rightarrow> Client \<Rightarrow> bytes" where
  "server_bytes cfg sr premaster x =
     record_bytes recordHandshake (c_version x) (server_flight cfg (hello_of x) sr) @
     record_bytes recordChangeCipherSpec (c_version x) [1] @
     record_bytes recordHandshake (c_version x)
       (fst (seal (server_cipher sr premaster x) recordHandshake (server_finished cfg sr premaster x)))"

text \<open>The server's connection after the handshake: each cipher is where the client's is.\<close>

definition established :: "Config \<Rightarrow> bytes \<Rightarrow> bytes \<Rightarrow> Client \<Rightarrow> 'w \<Rightarrow> bytes \<Rightarrow> 'w Conn" where
  "established cfg sr premaster x w rest =
     \<lparr>net = w, input = rest, config = Some cfg, once = None,
      cin = snd (seal (client_cipher sr premaster x) recordHandshake (client_finished cfg sr premaster x)),
      cout = snd (seal (server_cipher sr premaster x) recordHandshake (server_finished cfg sr premaster x)),
      readBuf = [], firstRecord = False, version = c_version x\<rparr>"

definition server_random :: "i64 \<Rightarrow> (nat \<Rightarrow> u8) \<Rightarrow> bytes" where
  "server_random now rnd = put_u32 (ucast now) @ map rnd [0..<28]"

section \<open>Steps that succeed\<close>

lemma tls_bind_iff:
  "tls_bind m f c = Inr (Inr y, c2) \<longleftrightarrow> (\<exists>x c1. m c = Inr (Inr x, c1) \<and> f x c1 = Inr (Inr y, c2))"
proof (cases "m c")
  case (Inr r)
  then show ?thesis by (cases r, cases "fst r") (auto simp: tls_bind_def)
qed (simp add: tls_bind_def)

lemma tls_step_iff:
  "tls_return x c = Inr (Inr y, c') \<longleftrightarrow> y = x \<and> c' = c"
  "tls_fail e c \<noteq> Inr (Inr y, c')"
  "tls_read wrap c = Inr (Inr r, c') \<longleftrightarrow> readRecord c = (Inr r, c')"
  "tls_write f c = Inr (Inr u, c') \<longleftrightarrow> f c = Inr (None, c')"
  by (auto simp: tls_return_def tls_fail_def tls_read_def tls_write_def go_bind_Inr_iff
      split: prod.splits sum.splits option.splits)

lemmas tls_iff = tls_bind_iff tls_step_iff

lemma write_raw_iff:
  "writeRawRecord wr typ data c = Inr (None, c') \<longleftrightarrow>
   (\<exists>w. write_loop wr (net c) (record_bytes typ (version c) data) = Inr (None, w) \<and> c' = c\<lparr>net := w\<rparr>)"
  by (auto simp: writeRawRecord_def record_bytes_def go_bind_Inr_iff)

lemma write_record_iff:
  "writeRecord wr typ p c = Inr (None, c') \<longleftrightarrow>
   (\<exists>w. write_loop wr (net c) (record_bytes typ (version c) (fst (seal (cout c) typ p))) = Inr (None, w) \<and>
     c' = c\<lparr>cout := snd (seal (cout c) typ p), net := w\<rparr>)"
  by (simp add: writeRecord_def split_beta write_raw_iff)

lemma seal_inactive: "\<not> active s \<Longrightarrow> seal s typ p = (p, s)"
  by (simp add: seal_def)

lemma hello_parts [simp]:
  "hello_message (x\<lparr>c_encrypted := e, c_prefixed := b\<rparr>) = hello_message x"
  "hello_of (x\<lparr>c_encrypted := e, c_prefixed := b\<rparr>) = hello_of x"
  "good_hello (x\<lparr>c_encrypted := e, c_prefixed := b\<rparr>) = good_hello x"
  by (simp_all add: hello_message_def hello_of_def good_hello_def)

lemma hello_version_of [simp]: "hello_version (hello_of x) = c_version x"
  by (simp add: hello_of_def)

text \<open>The first message.\<close>

lemma read_hello_iff:
  assumes "\<not> active (cin c)" and "version c = tls10" and "firstRecord c"
  shows "read_hello c = Inr (Inr (ch, hello), c') \<longleftrightarrow>
    (\<exists>x rest. good_hello x \<and> input c = record_bytes recordHandshake (c_record x) (hello_message x) @ rest \<and>
       ch = hello_message x \<and> hello = hello_of x \<and>
       c' = c\<lparr>input := rest, firstRecord := False, version := c_version x\<rparr>)" (is "?L \<longleftrightarrow> ?R")
proof
  assume ?L
  then obtain data c1 v where r: "readRecord c = (Inr (recordHandshake, data), c1)"
    and m: "one_message 1 data = Some ch" and v: "parse_version ch = Inr v"
    and h: "parse_suites v (drop 4 ch) = Inr hello" and c': "c' = c1\<lparr>version := v\<rparr>"
    by (auto simp: read_hello_def tls_iff split: if_splits option.splits sum.splits)
  obtain rv rest where i: "input c = record_bytes recordHandshake rv data @ rest" "length data \<le> 18432"
    "rv = tls10 \<or> rv = ssl30" "c1 = c\<lparr>input := rest, firstRecord := False, cin := cin c\<rparr>"
    using r assms unfolding readRecord_iff by (auto simp: seal_inactive)
  obtain body where b: "ch = data" "ch = handshakeMessage 1 body" using m unfolding one_message_iff by auto
  obtain x where x: "good_hello x" "ch = hello_message x" "hello = hello_of x" "c_version x = v" "c_record x = rv"
    using hello_read [OF b(2) _ v h, of rv] i(2,3) b(1) by auto
  with i b(1) c' show ?R by (cases c) auto
next
  assume ?R
  then obtain x rest where x: "good_hello x"
    and i: "input c = record_bytes recordHandshake (c_record x) (hello_message x) @ rest"
    and e: "ch = hello_message x" "hello = hello_of x" "c' = c\<lparr>input := rest, firstRecord := False, version := c_version x\<rparr>"
    by blast
  have l: "length (hello_message x) \<le> 18432" "c_record x = ssl30 \<or> c_record x = tls10"
    using x by (auto simp: good_hello_def)
  have r: "readRecord c = (Inr (recordHandshake, hello_message x), c\<lparr>input := rest, firstRecord := False, cin := cin c\<rparr>)"
    using assms i l unfolding readRecord_iff by (auto simp: seal_inactive)
  have m: "one_message 1 (hello_message x) = Some (hello_message x)"
    unfolding one_message_iff using l(1) by (auto simp: hello_message_def)
  show ?L
    unfolding read_hello_def tls_iff
    using r m hello_back [OF x] e by (cases c) (auto simp: tls_iff)
qed

text \<open>The key exchange; \<open>x\<close> supplies the choices made before.\<close>

lemma exchange_secret:
  assumes "good_exchange x" and "body = (if c_prefixed x then put_u16 (of_nat (length (c_encrypted x))) else []) @ c_encrypted x"
  shows "strip_length body = c_encrypted x"
proof (cases "c_prefixed x")
  case True
  have "length (c_encrypted x) < 65536" using assms True by (simp add: good_exchange_def exchange_message_def)
  then have "unat (of_nat (length (c_encrypted x)) :: u16) = length (c_encrypted x)" by (simp add: unat_of_nat)
  with assms True show ?thesis by (simp add: strip_length_def)
next
  case False
  then have "int (unat (get_u16 body)) = int (length body) - 2 \<longleftrightarrow> unat (get_u16 body) + 2 = length body"
    by linarith
  with assms False show ?thesis by (auto simp: good_exchange_def strip_length_def)
qed

lemma exchange_split:
  assumes "length body \<le> 18432"
  shows "\<exists>e b. body = (if b then put_u16 (of_nat (length e)) else []) @ e \<and>
    (\<not> b \<longrightarrow> \<not> (2 \<le> length e \<and> unat (get_u16 e) + 2 = length e))"
proof (cases "2 \<le> length body \<and> unat (get_u16 body) + 2 = length body")
  case True
  then obtain y z r where b: "body = y # z # r" by (auto simp: eval_nat_numeral Suc_le_length_iff)
  with True have "unat (get_u16 [y, z]) = length r" by simp
  then have "(of_nat (length r) :: u16) = of_nat (unat (get_u16 [y, z]))" by (simp only:)
  then have "(of_nat (length r) :: u16) = get_u16 [y, z]" by (simp del: get_u16.simps)
  then have "body = put_u16 (of_nat (length r)) @ r" using b put_get_u16 [of y z "[]"] by simp
  then show ?thesis by (intro exI [of _ r] exI [of _ True]) simp
next
  case False
  then show ?thesis by (intro exI [of _ body] exI [of _ False]) simp
qed

lemma same_first: "\<not> firstRecord c \<Longrightarrow> c\<lparr>input := r, firstRecord := False, cin := s\<rparr> = c\<lparr>input := r, cin := s\<rparr>"
  by (cases c) simp

lemma same_cin: "c\<lparr>input := r, cin := cin c\<rparr> = c\<lparr>input := r\<rparr>"
  by (cases c) simp

lemma readRecord_plain:
  assumes "\<not> active (cin c)" and "\<not> firstRecord c"
  shows "readRecord c = (Inr (typ, p), c') \<longleftrightarrow>
    (\<exists>rest. input c = record_bytes typ (version c) p @ rest \<and> length p \<le> 18432 \<and> c' = c\<lparr>input := rest\<rparr>)"
  unfolding readRecord_iff using assms by (auto simp: seal_inactive same_first same_cin)

lemma read_premaster_iff:
  assumes "\<not> active (cin c)" and "\<not> firstRecord c"
  shows "read_premaster key c = Inr (Inr (ckx, pm), c') \<longleftrightarrow>
    (\<exists>e b rest. good_exchange (x\<lparr>c_encrypted := e, c_prefixed := b\<rparr>) \<and>
       input c = record_bytes recordHandshake (version c) (exchange_message (x\<lparr>c_encrypted := e, c_prefixed := b\<rparr>)) @ rest \<and>
       ckx = exchange_message (x\<lparr>c_encrypted := e, c_prefixed := b\<rparr>) \<and>
       DecryptPKCS1v15 key e = Some pm \<and> length pm = 48 \<and> c' = c\<lparr>input := rest\<rparr>)" (is "?L \<longleftrightarrow> ?R")
proof
  assume ?L
  then obtain data where r: "readRecord c = (Inr (recordHandshake, data), c')"
    and m: "one_message 16 data = Some ckx"
    and pm: "DecryptPKCS1v15 key (strip_length (drop 4 ckx)) = Some pm" "length pm = 48"
    by (auto simp: read_premaster_def tls_iff Let_def split: if_splits option.splits)
  obtain rest where i: "input c = record_bytes recordHandshake (version c) data @ rest" "length data \<le> 18432"
    "c' = c\<lparr>input := rest\<rparr>"
    using r unfolding readRecord_plain [OF assms] by auto
  obtain body where b: "ckx = data" "data = handshakeMessage 16 body" using m unfolding one_message_iff by auto
  obtain e p where e: "body = (if p then put_u16 (of_nat (length e)) else []) @ e"
    "\<not> p \<longrightarrow> \<not> (2 \<le> length e \<and> unat (get_u16 e) + 2 = length e)"
    using exchange_split [of body] i(2) b(2) by auto
  let ?x = "x\<lparr>c_encrypted := e, c_prefixed := p\<rparr>"
  have d: "data = exchange_message ?x" by (simp add: exchange_message_def b(2) e(1))
  have g: "good_exchange ?x" using e(2) i(2) d by (simp add: good_exchange_def)
  have "strip_length body = c_encrypted ?x" by (rule exchange_secret [OF g]) (simp add: e(1))
  then have "DecryptPKCS1v15 key e = Some pm" using pm(1) by (simp add: b)
  with g i b(1) d pm(2) show ?R by blast
next
  assume ?R
  then obtain e p rest where g: "good_exchange (x\<lparr>c_encrypted := e, c_prefixed := p\<rparr>)"
    and i: "input c = record_bytes recordHandshake (version c) (exchange_message (x\<lparr>c_encrypted := e, c_prefixed := p\<rparr>)) @ rest"
    and o: "ckx = exchange_message (x\<lparr>c_encrypted := e, c_prefixed := p\<rparr>)" "c' = c\<lparr>input := rest\<rparr>"
      "DecryptPKCS1v15 key e = Some pm" "length pm = 48" by blast
  let ?x = "x\<lparr>c_encrypted := e, c_prefixed := p\<rparr>"
  have r: "readRecord c = (Inr (recordHandshake, exchange_message ?x), c\<lparr>input := rest\<rparr>)"
    using g i unfolding readRecord_plain [OF assms] by (auto simp: good_exchange_def)
  have m: "one_message 16 (exchange_message ?x) = Some (exchange_message ?x)"
    unfolding one_message_iff using g by (auto simp: exchange_message_def good_exchange_def)
  have "strip_length (drop 4 (exchange_message ?x)) = e"
    using exchange_secret [OF g refl] by (simp add: exchange_message_def Let_def)
  then show ?L
    unfolding read_premaster_def tls_iff using r m o by (auto simp: tls_iff Let_def)
qed

text \<open>The end of the handshake.\<close>

lemma finished_message:
  assumes "v \<in> {ssl30, tls10}"
  shows "one_message 20 data = Some fin \<and> length fin = 4 + (if v = ssl30 then 36 else 12) \<and>
      drop 4 fin = finishedVerify v m t b \<longleftrightarrow>
    fin = data \<and> data = handshakeMessage 20 (finishedVerify v m t b)"
  using assms unfolding one_message_iff by (auto simp: length_finishedVerify versions)

lemma read_finished_iff:
  fixes keys :: Keys and hello :: Hello and t :: bytes
  assumes "\<not> active (cin c)" and "\<not> firstRecord c" and v: "hello_version hello \<in> {ssl30, tls10}"
  defines "k \<equiv> makeCipher (clientKey keys) (clientMAC keys) (key_hash keys) (hello_version hello)"
    and "m \<equiv> handshakeMessage 20 (finishedVerify (hello_version hello) (master keys) t True)"
  shows "read_finished hello keys t c = Inr (Inr fin, c') \<longleftrightarrow>
    (\<exists>rest. input c = record_bytes recordChangeCipherSpec (version c) [1] @
         record_bytes recordHandshake (version c) (fst (seal k recordHandshake m)) @ rest \<and>
       fin = m \<and> c' = c\<lparr>input := rest, cin := snd (seal k recordHandshake m)\<rparr>)" (is "?L \<longleftrightarrow> ?R")
proof -
  have l: "length (fst (seal k recordHandshake m)) \<le> 18432"
    using length_seal [of k recordHandshake m] by (simp add: m_def length_finishedVerify split: if_splits)
  have "?L \<longleftrightarrow> (\<exists>c1 data. readRecord c = (Inr (recordChangeCipherSpec, [1]), c1) \<and>
      readRecord (c1\<lparr>cin := k\<rparr>) = (Inr (recordHandshake, data), c') \<and> one_message 20 data = Some fin \<and>
      length fin = 4 + (if hello_version hello = ssl30 then 36 else 12) \<and>
      drop 4 fin = finishedVerify (hello_version hello) (master keys) t True)"
    unfolding read_finished_def k_def [symmetric] tls_iff
    by (fastforce simp: tls_iff split: if_splits option.splits)
  also have "\<dots> \<longleftrightarrow> (\<exists>c1. readRecord c = (Inr (recordChangeCipherSpec, [1]), c1) \<and>
      readRecord (c1\<lparr>cin := k\<rparr>) = (Inr (recordHandshake, m), c') \<and> fin = m)"
    unfolding finished_message [OF v] m_def by blast
  also have "\<dots> \<longleftrightarrow> ?R"
  proof
    assume "\<exists>c1. readRecord c = (Inr (recordChangeCipherSpec, [1]), c1) \<and>
      readRecord (c1\<lparr>cin := k\<rparr>) = (Inr (recordHandshake, m), c') \<and> fin = m"
    then obtain r1 where i: "input c = record_bytes recordChangeCipherSpec (version c) [1] @ r1"
      and r: "readRecord (c\<lparr>input := r1, cin := k\<rparr>) = (Inr (recordHandshake, m), c')" "fin = m"
      unfolding readRecord_plain [OF assms(1,2)] by auto
    then show ?R using assms(2) unfolding readRecord_iff by (cases c) auto
  next
    assume ?R
    then obtain rest where i: "input c = record_bytes recordChangeCipherSpec (version c) [1] @
         record_bytes recordHandshake (version c) (fst (seal k recordHandshake m)) @ rest"
      and f: "fin = m" "c' = c\<lparr>input := rest, cin := snd (seal k recordHandshake m)\<rparr>" by blast
    let ?c = "c\<lparr>input := record_bytes recordHandshake (version c) (fst (seal k recordHandshake m)) @ rest\<rparr>"
    have "readRecord c = (Inr (recordChangeCipherSpec, [1]), ?c)"
      using i unfolding readRecord_plain [OF assms(1,2)] by auto
    moreover have "readRecord (?c\<lparr>cin := k\<rparr>) = (Inr (recordHandshake, m), c')"
      using f(2) l assms(2) unfolding readRecord_iff by (cases c) auto
    ultimately show "\<exists>c1. readRecord c = (Inr (recordChangeCipherSpec, [1]), c1) \<and>
      readRecord (c1\<lparr>cin := k\<rparr>) = (Inr (recordHandshake, m), c') \<and> fin = m" using f(1) by blast
  qed
  finally show ?thesis .
qed

lemma send_finished_iff:
  fixes keys :: Keys and hello :: Hello and t :: bytes
  defines "s \<equiv> makeCipher (serverKey keys) (serverMAC keys) (key_hash keys) (hello_version hello)"
    and "m \<equiv> handshakeMessage 20 (finishedVerify (hello_version hello) (master keys) t False)"
  shows "send_finished wr hello keys t c = Inr (Inr u, c') \<longleftrightarrow>
    (\<exists>w1 w2. write_loop wr (net c) (record_bytes recordChangeCipherSpec (version c) [1]) = Inr (None, w1) \<and>
       write_loop wr w1 (record_bytes recordHandshake (version c) (fst (seal s recordHandshake m))) = Inr (None, w2) \<and>
       c' = c\<lparr>net := w2, cout := snd (seal s recordHandshake m)\<rparr>)"
  unfolding send_finished_def s_def [symmetric] m_def [symmetric] tls_iff write_raw_iff
  by (cases c) (auto simp: tls_iff write_record_iff)

section \<open>The handshake succeeds exactly with such a client\<close>

definition may_connect :: "Config \<Rightarrow> Client \<Rightarrow> bytes \<Rightarrow> bool" where
  "may_connect cfg x premaster \<longleftrightarrow> Certificate cfg \<noteq> [] \<and> good_hello x \<and> good_exchange x \<and> length premaster = 48 \<and>
     (\<exists>key. PrivateKey cfg = Some key \<and> DecryptPKCS1v15 key (c_encrypted x) = Some premaster)"

definition server_writes :: "'w writer \<Rightarrow> Config \<Rightarrow> bytes \<Rightarrow> bytes \<Rightarrow> Client \<Rightarrow> 'w \<Rightarrow> 'w \<Rightarrow> bool" where
  "server_writes wr cfg sr premaster x w w' \<longleftrightarrow> (\<exists>w1 w2.
     write_loop wr w (record_bytes recordHandshake (c_version x) (server_flight cfg (hello_of x) sr)) = Inr (None, w1) \<and>
     write_loop wr w1 (record_bytes recordChangeCipherSpec (c_version x) [1]) = Inr (None, w2) \<and>
     write_loop wr w2 (record_bytes recordHandshake (c_version x)
       (fst (seal (server_cipher sr premaster x) recordHandshake (server_finished cfg sr premaster x)))) = Inr (None, w'))"

lemma Tls_Server_fields [simp]:
  "net (Tls_Server w inp cfg) = w" "input (Tls_Server w inp cfg) = inp" "config (Tls_Server w inp cfg) = cfg"
  "cin (Tls_Server w inp cfg) = noCipher" "version (Tls_Server w inp cfg) = tls10" "firstRecord (Tls_Server w inp cfg)"
  "once (Tls_Server w inp cfg) = None" "\<not> active noCipher"
  by (simp_all add: Tls_Server_def noCipher_def)

lemma handshake_only:
  assumes L: "handshake wr now random (Tls_Server w inp (Some cfg)) = Inr (Inr u, c')"
  shows "\<exists>rnd x pm rest w'. random = Some rnd \<and> may_connect cfg x pm \<and>
    inp = client_bytes cfg (server_random now rnd) pm x @ rest \<and>
    server_writes wr cfg (server_random now rnd) pm x w w' \<and>
    c' = established cfg (server_random now rnd) pm x w' rest"
proof -
  from L obtain key where key: "PrivateKey cfg = Some key" "Certificate cfg \<noteq> []"
    by (auto simp: handshake_def tls_iff split: option.splits if_splits)
  obtain ch hello c1 where hl: "read_hello (Tls_Server w inp (Some cfg)) = Inr (Inr (ch, hello), c1)" and random: "random \<noteq> None"
    using L key by (auto simp: handshake_def tls_iff split: option.splits)
  obtain rnd where rnd: "random = Some rnd" using random by blast
  let ?sr = "server_random now rnd"
  obtain x0 r0 where x0: "good_hello x0" "inp = record_bytes recordHandshake (c_record x0) (hello_message x0) @ r0"
    "ch = hello_message x0" "hello = hello_of x0"
    and c1: "c1 = (Tls_Server w inp (Some cfg))\<lparr>input := r0, firstRecord := False, version := c_version x0\<rparr>"
    using hl by (auto simp: read_hello_iff)
  let ?fl = "server_flight cfg (hello_of x0) ?sr"
  obtain w1 ckx pm c3 fin c4 where
    w1: "write_loop wr w (record_bytes recordHandshake (c_version x0) ?fl) = Inr (None, w1)"
    and pm: "read_premaster key (c1\<lparr>net := w1\<rparr>) = Inr (Inr (ckx, pm), c3)"
    and fin: "read_finished hello (derive_keys hello ?sr pm) (ch @ ?fl @ ckx) c3 = Inr (Inr fin, c4)"
    and send: "send_finished wr hello (derive_keys hello ?sr pm) ((ch @ ?fl @ ckx) @ fin) c4 = Inr (Inr u, c')"
    using L key hl rnd x0(4) c1
    by (auto simp: handshake_def tls_iff write_raw_iff Let_def server_random_def)
  have c1': "\<not> active (cin (c1\<lparr>net := w1\<rparr>))" "\<not> firstRecord (c1\<lparr>net := w1\<rparr>)" by (simp_all add: c1)
  obtain e b r1 where g: "good_exchange (x0\<lparr>c_encrypted := e, c_prefixed := b\<rparr>)"
    and r0: "r0 = record_bytes recordHandshake (c_version x0) (exchange_message (x0\<lparr>c_encrypted := e, c_prefixed := b\<rparr>)) @ r1"
    and ckx: "ckx = exchange_message (x0\<lparr>c_encrypted := e, c_prefixed := b\<rparr>)"
    and d: "DecryptPKCS1v15 key e = Some pm" "length pm = 48" and c3: "c3 = c1\<lparr>net := w1, input := r1\<rparr>"
    using pm unfolding read_premaster_iff [OF c1', where x = x0] by (auto simp: c1)
  let ?x = "x0\<lparr>c_encrypted := e, c_prefixed := b\<rparr>"
  have v: "hello_version hello \<in> {ssl30, tls10}" using x0(1,4) by (auto simp: good_hello_def)
  have c3': "\<not> active (cin c3)" "\<not> firstRecord c3" by (simp_all add: c3 c1)
  have h: "hello = hello_of ?x" "ch = hello_message ?x" "c_version ?x = c_version x0" "c_record ?x = c_record x0"
    using x0(3,4) by simp_all
  have t: "ch @ ?fl @ ckx = transcript_of cfg ?sr ?x" by (simp add: transcript_of_def x0(3) ckx)
  have hv: "hello_version hello = c_version ?x" using x0(4) by simp
  obtain r2 where r1: "r1 = record_bytes recordChangeCipherSpec (c_version x0) [1] @
      record_bytes recordHandshake (c_version x0) (fst (seal (client_cipher ?sr pm ?x) recordHandshake (client_finished cfg ?sr pm ?x))) @ r2"
    and f: "fin = client_finished cfg ?sr pm ?x"
    and c4: "c4 = c3\<lparr>input := r2, cin := snd (seal (client_cipher ?sr pm ?x) recordHandshake (client_finished cfg ?sr pm ?x))\<rparr>"
    using iffD1 [OF read_finished_iff [OF c3' v] fin] unfolding t hv h(1)
    by (auto simp: client_finished_def client_cipher_def Let_def c3 c1)
  obtain w2 w3 where ws: "write_loop wr w1 (record_bytes recordChangeCipherSpec (c_version x0) [1]) = Inr (None, w2)"
    "write_loop wr w2 (record_bytes recordHandshake (c_version x0)
       (fst (seal (server_cipher ?sr pm ?x) recordHandshake (server_finished cfg ?sr pm ?x)))) = Inr (None, w3)"
    and c': "c' = c4\<lparr>net := w3, cout := snd (seal (server_cipher ?sr pm ?x) recordHandshake (server_finished cfg ?sr pm ?x))\<rparr>"
    using send unfolding send_finished_iff t hv h(1) f
    by (auto simp: server_finished_def server_cipher_def Let_def c4 c3 c1)
  have "may_connect cfg ?x pm" using x0(1) g d key by (simp add: may_connect_def)
  moreover have "inp = client_bytes cfg ?sr pm ?x @ r2" by (simp add: x0(2) r0 r1 client_bytes_def)
  moreover have "server_writes wr cfg ?sr pm ?x w w3" using w1 ws by (auto simp: server_writes_def)
  moreover have "c' = established cfg ?sr pm ?x w3 r2"
    by (simp add: c' c4 c3 c1 established_def Tls_Server_def)
  ultimately show ?thesis using rnd by blast
qed

lemma handshake_works:
  assumes x: "may_connect cfg x pm" and wrs: "server_writes wr cfg (server_random now rnd) pm x w w3"
  shows "handshake wr now (Some rnd) (Tls_Server w (client_bytes cfg (server_random now rnd) pm x @ rest) (Some cfg)) =
    Inr (Inr u, established cfg (server_random now rnd) pm x w3 rest)"
proof -
  obtain key w1 w2 where cert: "Certificate cfg \<noteq> []" and g: "good_hello x" "good_exchange x" and pm: "length pm = 48"
    and key: "PrivateKey cfg = Some key" "DecryptPKCS1v15 key (c_encrypted x) = Some pm"
    and ws: "write_loop wr w (record_bytes recordHandshake (c_version x) (server_flight cfg (hello_of x) (server_random now rnd))) = Inr (None, w1)"
      "write_loop wr w1 (record_bytes recordChangeCipherSpec (c_version x) [1]) = Inr (None, w2)"
      "write_loop wr w2 (record_bytes recordHandshake (c_version x) (fst (seal (server_cipher (server_random now rnd) pm x)
         recordHandshake (server_finished cfg (server_random now rnd) pm x)))) = Inr (None, w3)"
    using x wrs by (auto simp: may_connect_def server_writes_def)
  let ?sr = "server_random now rnd"
  let ?fin = "record_bytes recordHandshake (c_version x) (fst (seal (client_cipher ?sr pm x) recordHandshake (client_finished cfg ?sr pm x)))"
  let ?r1 = "record_bytes recordChangeCipherSpec (c_version x) [1] @ ?fin @ rest"
  let ?r0 = "record_bytes recordHandshake (c_version x) (exchange_message x) @ ?r1"
  let ?c = "Tls_Server w (client_bytes cfg ?sr pm x @ rest) (Some cfg)"
  let ?c1 = "?c\<lparr>input := ?r0, firstRecord := False, version := c_version x\<rparr>"
  have s1: "read_hello ?c = Inr (Inr (hello_message x, hello_of x), ?c1)"
    using g(1) by (auto simp: read_hello_iff client_bytes_def)
  have xx: "x\<lparr>c_encrypted := c_encrypted x, c_prefixed := c_prefixed x\<rparr> = x" by simp
  let ?c2 = "?c1\<lparr>net := w1\<rparr>" let ?c3 = "?c2\<lparr>input := ?r1\<rparr>"
  have a2: "\<not> active (cin ?c2)" "\<not> firstRecord ?c2" by simp_all
  have s2: "read_premaster key ?c2 = Inr (Inr (exchange_message x, pm), ?c3)"
    unfolding read_premaster_iff [OF a2, where x = x]
    by (intro exI [of _ "c_encrypted x"] exI [of _ "c_prefixed x"] exI [of _ ?r1]) (simp add: xx g key pm)
  let ?k = "derive_keys (hello_of x) ?sr pm"
  let ?c4 = "?c3\<lparr>input := rest, cin := snd (seal (client_cipher ?sr pm x) recordHandshake (client_finished cfg ?sr pm x))\<rparr>"
  have v: "hello_version (hello_of x) \<in> {ssl30, tls10}" using g(1) by (auto simp: good_hello_def)
  have a3: "\<not> active (cin ?c3)" "\<not> firstRecord ?c3" by simp_all
  have s3: "read_finished (hello_of x) ?k (transcript_of cfg ?sr x) ?c3 = Inr (Inr (client_finished cfg ?sr pm x), ?c4)"
    unfolding read_finished_iff [OF a3 v]
    by (intro exI [of _ rest]) (simp add: client_finished_def client_cipher_def Let_def)
  have s4: "send_finished wr (hello_of x) ?k (transcript_of cfg ?sr x @ client_finished cfg ?sr pm x) ?c4 = Inr (Inr u, established cfg ?sr pm x w3 rest)"
    unfolding send_finished_iff using ws(2,3)
    by (auto simp: established_def Tls_Server_def server_finished_def server_cipher_def Let_def)
  show ?thesis
    using s1 s2 s3 s4 ws(1) cert key(1)
    by (simp add: handshake_def tls_iff write_raw_iff Let_def transcript_of_def flip: server_random_def)
qed

end
