(* ===== verification/Tls_Properties.thy ===== *)
theory Tls_Properties
  imports Tls_Agreement
begin

text \<open>
  The properties of legacytls: the handshake is total, succeeds exactly with a client that follows
  the protocol, and leaves both ends with the same keys; legacy FIRE frames arrive over it.
\<close>

section \<open>The handshake is total\<close>

definition total_step :: "('w, 'a) step \<Rightarrow> bool" where
  "total_step m \<longleftrightarrow> (\<forall>c. \<exists>r. m c = Inr r)"

lemma total_bind: "total_step m \<Longrightarrow> (\<And>x. total_step (f x)) \<Longrightarrow> total_step (tls_bind m f)"
  unfolding total_step_def
proof
  fix c assume m: "\<forall>c. \<exists>r. m c = Inr r" and f: "\<And>x. \<forall>c. \<exists>r. f x c = Inr r"
  obtain r c1 where "m c = Inr (r, c1)" using m by (metis surj_pair)
  then show "\<exists>r. tls_bind m f c = Inr r" using f by (cases r) (simp_all add: tls_bind_def)
qed

lemma total_steps:
  "total_step (tls_return x)" "total_step (tls_fail e)" "total_step (tls_read wrap)" "total_step (\<lambda>c. Inr (g c))"
  by (auto simp: total_step_def tls_return_def tls_fail_def tls_read_def split: prod.split sum.split)

text \<open>A writer that keeps the contract of \<open>io.Writer\<close>.\<close>

definition lawful :: "'w writer \<Rightarrow> ('w \<Rightarrow> bytes) \<Rightarrow> bool" where
  "lawful wr written \<longleftrightarrow>
     (\<forall>w p n w'. wr w p = ((n, None), w') \<longrightarrow> n \<le> length p \<and> written w' = written w @ take n p)"

lemma lawful_write_loop:
  "lawful wr written \<Longrightarrow> \<exists>e w'. write_loop wr w p = Inr (e, w') \<and> (e = None \<longrightarrow> written w' = written w @ p)"
  using write_loop_total [of wr written w p] by (simp add: lawful_def)

lemma total_write:
  assumes "lawful wr written"
  shows "total_step (tls_write (writeRawRecord wr typ data))" "total_step (tls_write (writeRecord wr typ p))"
proof -
  have raw: "\<exists>r. writeRawRecord wr t d c = Inr r" for t d c
    using lawful_write_loop [OF assms, of "net c" "record_header t (version c) d @ d"]
    by (auto simp: writeRawRecord_def)
  moreover have "\<exists>r. writeRecord wr t d c = Inr r" for t d c
    using raw by (simp add: writeRecord_def split_beta)
  ultimately show "total_step (tls_write (writeRawRecord wr typ data))" "total_step (tls_write (writeRecord wr typ p))"
    unfolding total_step_def tls_write_def by (metis (no_types, lifting) go_bind_simps(2) split_beta)+
qed

lemmas total_intros = total_bind total_steps total_write

lemma total_reads:
  "total_step read_hello" "total_step (read_premaster key)" "total_step (read_finished hello keys t)"
  unfolding read_hello_def read_premaster_def read_finished_def Let_def
  by (intro total_bind total_steps; auto intro!: total_bind total_steps split: prod.split option.split sum.split)+

lemma total_send: "lawful wr written \<Longrightarrow> total_step (send_finished wr hello keys t)"
  unfolding send_finished_def by (intro total_intros)

lemma total_apply: "total_step m \<Longrightarrow> \<exists>r c'. m c = Inr (r, c')"
  by (metis surj_pair total_step_def)

lemma handshake_total:
  assumes "lawful wr written"
  shows "\<exists>r c'. handshake wr now random c = Inr (r, c')"
  unfolding handshake_def Let_def
  by (auto intro!: total_apply total_bind total_steps total_write [OF assms] total_reads total_send [OF assms]
      split: option.split prod.split)

section \<open>Who completes the handshake\<close>

lemma server_writes_lawful:
  assumes "lawful wr written" and "server_writes wr cfg sr pm x w w'"
  shows "written w' = written w @ server_bytes cfg sr pm x"
  using assms(2) lawful_write_loop [OF assms(1)] unfolding server_writes_def server_bytes_def
  by (metis Inr_inject append_assoc prod.inject)

lemma no_config: "handshake wr now random (Tls_Server w inp None) = Inr (Inl CertificateRequired, Tls_Server w inp None)"
  by (simp add: handshake_def tls_fail_def)

text \<open>
  Claim C3. The handshake always returns, and succeeds only with a client that follows the
  protocol: the server has a certificate and a key, the input begins with the four records of a
  client whose hello offers RC4 and SSL 3.0 or TLS 1.0, whose encrypted secret decrypts to 48
  bytes and whose Finished verifies the whole exchange under the keys both derive; the server has
  then sent exactly its flight, its ChangeCipherSpec and its Finished, and continues, with both
  directions encrypted under those keys, behind the client's records.
\<close>

theorem handshake_verifies_client:
  assumes "lawful wr written"
  shows "\<exists>r c'. handshake wr now random (Tls_Server w inp cfg0) = Inr (r, c') \<and>
    (r = Inr () \<longrightarrow> (\<exists>cfg rnd x premaster rest. cfg0 = Some cfg \<and> random = Some rnd \<and> may_connect cfg x premaster \<and>
       inp = client_bytes cfg (server_random now rnd) premaster x @ rest \<and>
       c' = established cfg (server_random now rnd) premaster x (net c') rest \<and>
       written (net c') = written w @ server_bytes cfg (server_random now rnd) premaster x))"
proof -
  obtain r c' where h: "handshake wr now random (Tls_Server w inp cfg0) = Inr (r, c')"
    using handshake_total [OF assms] by blast
  show ?thesis
  proof (cases "r = Inr ()")
    case True
    then obtain cfg where cfg: "cfg0 = Some cfg" using h by (cases cfg0) (simp_all add: no_config)
    from handshake_only [OF h [unfolded cfg True]] obtain rnd x pm rest w' where
      x: "random = Some rnd" "may_connect cfg x pm" "inp = client_bytes cfg (server_random now rnd) pm x @ rest"
      and ws: "server_writes wr cfg (server_random now rnd) pm x w w'"
      and c': "c' = established cfg (server_random now rnd) pm x w' rest"
      by blast
    have n: "net c' = w'" by (simp add: c' established_def)
    show ?thesis
      by (rule exI [of _ r], rule exI [of _ c'], intro conjI impI h, rule exI [of _ cfg], rule exI [of _ rnd],
          rule exI [of _ x], rule exI [of _ pm], rule exI [of _ rest])
        (simp add: x cfg n server_writes_lawful [OF assms ws], simp add: c')
  qed (use h in blast)
qed

text \<open>A writer that never fails, however little it takes at a time.\<close>

definition reliable :: "'w writer \<Rightarrow> ('w \<Rightarrow> bytes) \<Rightarrow> bool" where
  "reliable wr written \<longleftrightarrow> (\<forall>w p. p \<noteq> [] \<longrightarrow>
     (\<exists>n w'. wr w p = ((n, None), w') \<and> 0 < n \<and> n \<le> length p \<and> written w' = written w @ take n p))"

lemma reliable_write_loop:
  assumes "reliable wr written"
  shows "\<exists>w'. write_loop wr w p = Inr (None, w') \<and> written w' = written w @ p"
proof (induction p arbitrary: w rule: length_induct)
  case (1 p)
  show ?case
  proof (cases "p = []")
    case True
    then show ?thesis by (subst write_loop.simps) simp
  next
    case False
    then obtain n w1 where n: "wr w p = ((n, None), w1)" "0 < n" "n \<le> length p" "written w1 = written w @ take n p"
      using assms unfolding reliable_def by blast
    have "length (drop n p) < length p" using n(2) False by simp
    then obtain w2 where "write_loop wr w1 (drop n p) = Inr (None, w2)" "written w2 = written w1 @ drop n p"
      using "1.IH" by blast
    then show ?thesis using n False by (subst write_loop.simps) simp
  qed
qed

lemma server_writes_reliable:
  assumes "reliable wr written"
  shows "\<exists>w'. server_writes wr cfg sr pm x w w' \<and> written w' = written w @ server_bytes cfg sr pm x"
  using reliable_write_loop [OF assms] unfolding server_writes_def server_bytes_def
  by (metis append_assoc)

text \<open>
  Claim C16. A client that follows the protocol completes the handshake, over any connection that
  takes what is written, however little at a time: the server answers with its flight, its
  ChangeCipherSpec and its Finished, and its two ciphers are then where the client's are.
\<close>

theorem honest_client_completes:
  assumes "reliable wr written" and "may_connect cfg x premaster"
  shows "\<exists>w'. handshake wr now (Some rnd)
      (Tls_Server w (client_bytes cfg (server_random now rnd) premaster x @ rest) (Some cfg)) =
      Inr (Inr (), established cfg (server_random now rnd) premaster x w' rest) \<and>
    written w' = written w @ server_bytes cfg (server_random now rnd) premaster x"
proof -
  obtain w' where w': "server_writes wr cfg (server_random now rnd) premaster x w w'"
    "written w' = written w @ server_bytes cfg (server_random now rnd) premaster x"
    using server_writes_reliable [OF assms(1)] by blast
  show ?thesis using handshake_works [OF assms(2) w'(1)] w'(2) by blast
qed

section \<open>Frames over the connection\<close>

text \<open>Writing several pieces one after the other.\<close>

fun send_all :: "'w writer \<Rightarrow> bytes list \<Rightarrow> 'w Conn \<Rightarrow> (tls_error option \<times> 'w Conn) go" where
  "send_all wr [] c = Inr (None, c)"
| "send_all wr (p # ps) c =
     go_bind (write_data wr 0 p c) (\<lambda>((_, err), c'). if err \<noteq> None then Inr (err, c') else send_all wr ps c')"

lemma send_all_delivered:
  assumes "lawful wr written"
  shows "send_all wr ps a = Inr (None, a') \<Longrightarrow>
    \<exists>bs. written (net a') = written (net a) @ bs \<and>
      (\<forall>(b :: 'z Conn) rest. cin b = cout a \<longrightarrow> version b = version a \<longrightarrow> \<not> firstRecord b \<longrightarrow> input b = bs @ rest \<longrightarrow>
        delivered b = (let D = delivered (b\<lparr>readBuf := [], input := rest, cin := cout a'\<rparr>)
          in (readBuf b @ concat ps @ fst D, snd D)))"
proof (induction ps arbitrary: a)
  case Nil
  have base: "delivered b = (let D = delivered (b\<lparr>readBuf := [], input := rest, cin := cout a'\<rparr>)
      in (readBuf b @ concat [] @ fst D, snd D))" if "cin b = cout a'" "input b = rest" for b :: "'z Conn" and rest
  proof -
    have "b\<lparr>readBuf := [], input := rest, cin := cout a'\<rparr> = b\<lparr>readBuf := []\<rparr>" using that by (cases b) simp
    then show ?thesis using delivered_buf [of b] by (simp add: Let_def)
  qed
  show ?case using Nil by (intro exI [of _ "[]"] conjI allI impI) (simp, rule base, simp_all)
next
  case (Cons p ps)
  obtain k a1 where a1: "write_data wr 0 p a = Inr ((k, None), a1)" and r: "send_all wr ps a1 = Inr (None, a')"
    using Cons.prems by (auto simp: go_bind_Inr_iff split: if_splits)
  let ?s = "app_stream (version a) (cout a) p"
  have w: "cout a1 = snd ?s" "version a1 = version a" "written (net a1) = written (net a) @ fst ?s"
    using write_data_stream [of wr written 0 p a] assms a1 unfolding lawful_def by (auto; metis Conn.select_convs Conn.update_convs Conn.surjective)+
  obtain bs where bs: "written (net a') = written (net a1) @ bs"
    and ih: "\<And>(b :: 'z Conn) rest. cin b = cout a1 \<Longrightarrow> version b = version a1 \<Longrightarrow> \<not> firstRecord b \<Longrightarrow> input b = bs @ rest \<Longrightarrow>
        delivered b = (let D = delivered (b\<lparr>readBuf := [], input := rest, cin := cout a'\<rparr>)
          in (readBuf b @ concat ps @ fst D, snd D))"
    using Cons.IH [OF r] by blast
  show ?case
  proof (intro exI [of _ "fst ?s @ bs"] conjI allI impI)
    show "written (net a') = written (net a) @ fst ?s @ bs" by (simp add: bs w(3))
    fix b :: "'z Conn" and rest
    assume b: "cin b = cout a" "version b = version a" "\<not> firstRecord b" "input b = (fst ?s @ bs) @ rest"
    let ?b = "b\<lparr>readBuf := [], input := bs @ rest, cin := snd ?s\<rparr>"
    have d: "delivered b = (readBuf b @ p @ fst (delivered ?b), snd (delivered ?b))"
      using delivered_app [of b p "bs @ rest"] b by (simp add: Let_def)
    show "delivered b = (let D = delivered (b\<lparr>readBuf := [], input := rest, cin := cout a'\<rparr>)
        in (readBuf b @ concat (p # ps) @ fst D, snd D))"
      unfolding d using ih [of ?b rest] b w by (simp add: Let_def)
  qed
qed

lemma delivered_end: "input c = [] \<Longrightarrow> delivered c = (readBuf c, Io EOF)"
  by (subst delivered.simps) (simp add: readRecord_def ReadFull_def)

lemma established_fields:
  "cin (established cfg sr pm x w rest) = snd (seal (client_cipher sr pm x) recordHandshake (client_finished cfg sr pm x))"
  "version (established cfg sr pm x w rest) = c_version x" "\<not> firstRecord (established cfg sr pm x w rest)"
  "input (established cfg sr pm x w rest) = rest" "readBuf (established cfg sr pm x w rest) = []"
  by (simp_all add: established_def)

text \<open>What a client that completed the handshake writes, in any pieces, the server's connection delivers.\<close>

lemma client_data_delivered:
  fixes a a' :: "'c Conn"
  assumes server: "reliable wr written" and client: "lawful wr' written'" and x: "may_connect cfg x premaster"
    and a: "cout a = snd (seal (client_cipher (server_random now rnd) premaster x) recordHandshake
      (client_finished cfg (server_random now rnd) premaster x))" "version a = c_version x"
    and sent: "send_all wr' ps a = Inr (None, a')" "written' (net a') = written' (net a) @ bs"
  shows "\<exists>c'. handshake wr now (Some rnd)
      (Tls_Server w (client_bytes cfg (server_random now rnd) premaster x @ bs) (Some cfg)) = Inr (Inr (), c') \<and>
    delivered c' = (concat ps, Io EOF)"
proof -
  let ?sr = "server_random now rnd"
  obtain w' where h: "handshake wr now (Some rnd) (Tls_Server w (client_bytes cfg ?sr premaster x @ bs) (Some cfg)) =
      Inr (Inr (), established cfg ?sr premaster x w' bs)" (is "_ = Inr (_, ?c)")
    using server_writes_reliable [OF server] handshake_works [OF x] by metis
  have "delivered ?c = (concat ps, Io EOF)"
    using send_all_delivered [OF client sent(1)] sent(2) a
    by (auto dest!: spec [of _ ?c] spec [of _ "[]"] simp: established_fields Let_def delivered_end)
  with h show ?thesis by blast
qed

text \<open>
  Claim C7. Frames arrive over the connection, from end to end: a client that completes the handshake
  and then writes legacy frames, each with a call of \<open>Write\<close> that reports no error, leaves on the
  wire what the server's connection delivers as exactly those frames, in order, followed by the
  end of the stream, however the frames are cut into records.
\<close>

theorem frames_over_tls:
  fixes a a' :: "'c Conn"
  assumes server: "reliable wr written" and client: "lawful wr' written'"
    and x: "may_connect cfg x premaster" and fs: "list_all frame_ok fs"
    and a: "cout a = snd (seal (client_cipher (server_random now rnd) premaster x) recordHandshake
      (client_finished cfg (server_random now rnd) premaster x))" "version a = c_version x"
    and sent: "send_all wr' (map frame_bytes fs) a = Inr (None, a')" "written' (net a') = written' (net a) @ bs"
  shows "\<exists>c' P. handshake wr now (Some rnd)
      (Tls_Server w (client_bytes cfg (server_random now rnd) premaster x @ bs) (Some cfg)) = Inr (Inr (), c') \<and>
    delivered c' = (P, Io EOF) \<and> dec_many dec_frame (length fs) P = Some (map received fs, length P)"
  using client_data_delivered [OF server client x a sent] fire.decode_stream [OF fs, of "[]"] by fastforce

section \<open>A concrete client\<close>

definition demo_key :: rsa_key where
  "demo_key = \<lparr>modulus = 256 ^ 128 - 1, exponent = 1\<rparr>"

definition demo_secret :: bytes where
  "demo_secret = 0 # 2 # replicate 77 1 @ 0 # replicate 48 7"

definition demo_config :: Config where
  "demo_config = \<lparr>Certificate = [[0x30, 0]], PrivateKey = Some demo_key\<rparr>"

definition demo_client :: Client where
  "demo_client = \<lparr>c_version = tls10, c_record = ssl30, c_random = replicate 32 9, c_session = [],
     c_suites = [suiteRC4SHA], c_more = [1, 0], c_encrypted = demo_secret, c_prefixed = True\<rparr>"

lemma byte_size_top: "byte_size (256 ^ n - 1) = n"
proof (induction n)
  case (Suc n)
  have "(1 :: nat) \<le> 256 ^ n" by simp
  then have "(256 ^ Suc n - 1 :: nat) div 256 = 256 ^ n - 1" by simp
  moreover have "1 < (256 :: nat) ^ Suc n" by (rule one_less_power) simp_all
  then have "(256 ^ Suc n - 1 :: nat) \<noteq> 0" by simp
  ultimately show ?case using Suc by (subst byte_size.simps) simp
qed (simp add: byte_size.simps)

lemma os2ip_less: "os2ip b < 256 ^ length b"
proof (induction b rule: rev_induct)
  case (snoc x b)
  have "unat x < 256" using unsigned_less [of x] by simp
  moreover have "256 * os2ip b + 256 \<le> 256 * 256 ^ length b" using snoc by simp
  ultimately show ?case by simp
qed (simp add: os2ip_def)

lemma demo_connects: "may_connect demo_config demo_client (replicate 48 7)"
proof -
  let ?m = "2 # replicate 77 1 @ 0 # replicate 48 7 :: bytes"
  have z: "os2ip demo_secret = os2ip ?m" by (simp add: demo_secret_def os2ip_def)
  have l: "length demo_secret = 128" by (simp add: demo_secret_def)
  have "os2ip ?m < 256 ^ 127" using os2ip_less [of ?m] by simp
  then have less: "os2ip demo_secret < 256 ^ 128 - 1" unfolding z by simp
  have k: "key_size demo_key = 128" unfolding key_size_def demo_key_def by (simp only: rsa_key.simps byte_size_top)
  have "DecryptPKCS1v15 demo_key demo_secret = Some (replicate 48 7)"
  proof (rule Decrypt_padded [where ps = "replicate 77 1"])
    show "2 ^ 1023 \<le> modulus demo_key" by (simp add: demo_key_def)
    show "os2ip demo_secret < modulus demo_key" using less by (simp add: demo_key_def)
    show "os2ip demo_secret ^ exponent demo_key mod modulus demo_key = os2ip (0 # 2 # replicate 77 1 @ 0 # replicate 48 7)"
      using less by (simp add: demo_key_def demo_secret_def)
  qed (simp_all add: k l list_all_iff)
  moreover have "good_hello demo_client"
    by (simp add: good_hello_def demo_client_def hello_message_def versions)
  moreover have "good_exchange demo_client"
    by (simp add: good_exchange_def demo_client_def exchange_message_def l)
  ultimately show ?thesis by (simp add: may_connect_def demo_config_def demo_client_def)
qed

text \<open>A connection that takes five bytes at a time.\<close>

definition slow :: "bytes writer" where
  "slow w p = ((min 5 (length p), None), w @ take 5 p)"

lemma slow_laws: "reliable slow (\<lambda>w. w)" "lawful slow (\<lambda>w. w)"
  by (auto simp: reliable_def lawful_def slow_def min_def)

theorem handshake_verifies_client_witness:
  "\<exists>c' x premaster. handshake slow 5 (Some (\<lambda>_. 3)) (Tls_Server [] (client_bytes demo_config
        (server_random 5 (\<lambda>_. 3)) (replicate 48 7) demo_client) (Some demo_config)) = Inr (Inr (), c') \<and>
     may_connect demo_config x premaster \<and> net c' = server_bytes demo_config (server_random 5 (\<lambda>_. 3)) premaster x"
proof -
  let ?c = "Tls_Server [] (client_bytes demo_config (server_random 5 (\<lambda>_. 3)) (replicate 48 7) demo_client) (Some demo_config)"
  obtain w' where "server_writes slow demo_config (server_random 5 (\<lambda>_. 3)) (replicate 48 7) demo_client [] w'"
    using server_writes_reliable [OF slow_laws(1)] by blast
  then have "handshake slow 5 (Some (\<lambda>_. 3)) ?c =
      Inr (Inr (), established demo_config (server_random 5 (\<lambda>_. 3)) (replicate 48 7) demo_client w' [])"
    using handshake_works [OF demo_connects, of slow 5 "\<lambda>_. 3" "[]" w' "[]"] by simp
  then show ?thesis
    using handshake_verifies_client [OF slow_laws(2), of 5 "Some (\<lambda>_. 3)" "[]"
        "client_bytes demo_config (server_random 5 (\<lambda>_. 3)) (replicate 48 7) demo_client" "Some demo_config"]
    by fastforce
qed

theorem honest_client_completes_witness:
  "\<exists>w'. handshake slow 5 (Some (\<lambda>_. 3)) (Tls_Server [9] (client_bytes demo_config
        (server_random 5 (\<lambda>_. 3)) (replicate 48 7) demo_client @ [1, 2]) (Some demo_config)) =
      Inr (Inr (), established demo_config (server_random 5 (\<lambda>_. 3)) (replicate 48 7) demo_client w' [1, 2]) \<and>
    w' = [9] @ server_bytes demo_config (server_random 5 (\<lambda>_. 3)) (replicate 48 7) demo_client"
  using honest_client_completes [OF slow_laws(1) demo_connects] by blast

theorem connection_refines_stream_witness:
  "\<exists>c c' :: bytes Conn. conn_ReadFull 2 [] c = (Inr [4, 5], c') \<and> delivered c' = ([6], Io EOF) \<and>
     fst (conn_ReadFull 2 [] c') = Inl (Io ErrUnexpectedEOF)"
proof -
  let ?c = "(Tls_Server ([] :: bytes) (fst (app_stream tls10 noCipher [4, 5, 6])) None)\<lparr>firstRecord := False\<rparr>"
  have "delivered ?c = ([4, 5, 6], Io EOF)"
    using delivered_app [of ?c "[4, 5, 6]" "[]"] by (simp add: Let_def delivered_end Tls_Server_def)
  from connection_refines_stream [OF this, of 2] obtain c' where
    c': "conn_ReadFull 2 [] ?c = (Inr [4, 5], c')" "delivered c' = ([6], Io EOF)"
    by (auto simp: ReadFull_def)
  with connection_refines_stream [OF c'(2), of 2] show ?thesis by (auto simp: ReadFull_def)
qed

lemma write_data_reliable:
  assumes "reliable wr written"
  shows "\<exists>k c'. write_data wr k0 p c = Inr ((k, None), c')"
proof (induction p arbitrary: k0 c rule: length_induct)
  case (1 p)
  show ?case
  proof (cases "p = []")
    case True
    then show ?thesis by (simp add: write_data.simps)
  next
    case False
    let ?x = "seal (cout c) recordApplicationData (take 16384 p)"
    obtain w where "write_loop wr (net c) (record_bytes recordApplicationData (version c) (fst ?x)) = Inr (None, w)"
      using reliable_write_loop [OF assms] by blast
    then have r: "writeRecord wr recordApplicationData (take 16384 p) c = Inr (None, c\<lparr>cout := snd ?x, net := w\<rparr>)"
      unfolding write_record_iff by blast
    have "length (drop 16384 p) < length p" using False by simp
    then obtain k c' where "write_data wr (k0 + length (take 16384 p)) (drop 16384 p) (c\<lparr>cout := snd ?x, net := w\<rparr>) = Inr ((k, None), c')"
      using "1.IH" by blast
    then show ?thesis using r False by (simp add: write_data_step del: length_take)
  qed
qed

lemma send_all_reliable: "reliable wr written \<Longrightarrow> \<exists>a'. send_all wr ps a = Inr (None, a')"
proof (induction ps arbitrary: a)
  case (Cons p ps)
  obtain k a1 where "write_data wr 0 p a = Inr ((k, None), a1)"
    using write_data_reliable [OF Cons.prems] by blast
  then show ?case using Cons by simp
qed simp

theorem frames_over_tls_witness:
  "\<exists>bs c' P f. handshake slow 5 (Some (\<lambda>_. 3)) (Tls_Server [] (client_bytes demo_config (server_random 5 (\<lambda>_. 3))
        (replicate 48 7) demo_client @ bs) (Some demo_config)) = Inr (Inr (), c') \<and>
     delivered c' = (P, Io EOF) \<and> dec_many dec_frame 1 P = Some ([f], length P) \<and> Command (Header f) = 7"
proof -
  let ?sr = "server_random 5 (\<lambda>_. 3)"
  let ?f = "\<lparr>Header = \<lparr>PayloadSize = 0, Component = 9, Command = 7, Error = 0, MessageType = 0, MessageID = 1\<rparr>,
    Payload = [], TDF = None\<rparr>"
  let ?a = "(Tls_Server [] [] None)\<lparr>cout := snd (seal (client_cipher ?sr (replicate 48 7) demo_client) recordHandshake
      (client_finished demo_config ?sr (replicate 48 7) demo_client))\<rparr>"
  have a: "version ?a = c_version demo_client" by (simp add: demo_client_def)
  have fs: "list_all frame_ok [?f]" by (simp add: frame_ok_def)
  obtain a' where a': "send_all slow (map frame_bytes [?f]) ?a = Inr (None, a')"
    using send_all_reliable [OF slow_laws(1)] by blast
  obtain bs where bs: "net a' = net ?a @ bs" using send_all_delivered [OF slow_laws(2) a'] by blast
  from frames_over_tls [OF slow_laws demo_connects fs _ a a' bs, of 5 "\<lambda>_. 3" "[]"]
  obtain c' P where "handshake slow 5 (Some (\<lambda>_. 3)) (Tls_Server [] (client_bytes demo_config ?sr (replicate 48 7)
      demo_client @ bs) (Some demo_config)) = Inr (Inr (), c')" "delivered c' = (P, Io EOF)"
    "dec_many dec_frame 1 P = Some ([received ?f], length P)" by auto
  moreover have "Command (Header (received ?f)) = 7" by (simp add: received_def sized_def)
  ultimately show ?thesis by blast
qed

section \<open>Sizes\<close>

text \<open>
  Claim C39. The keys have the sizes their ciphers need: both RC4 keys are 16 bytes, so the error of
  \<open>rc4.NewCipher\<close>, which the code ignores, never occurs; the MAC keys have the size of the hash, and
  the master secret has 48 bytes.
\<close>

theorem key_sizes:
  "length (clientKey (derive_keys hello sr premaster)) = 16 \<and> length (serverKey (derive_keys hello sr premaster)) = 16 \<and>
   length (clientMAC (derive_keys hello sr premaster)) = hash_size (key_hash (derive_keys hello sr premaster)) \<and>
   length (serverMAC (derive_keys hello sr premaster)) = hash_size (key_hash (derive_keys hello sr premaster)) \<and>
   length (master (derive_keys hello sr premaster)) = 48"
  by (simp add: derive_keys_def masterSecret_def Let_def)

text \<open>
  A flight of 64 KiB or more, which a long certificate chain makes, goes out as one record whose
  length field has wrapped; and a secret sent without its length is cut when its first two bytes
  happen to look like one.
\<close>

lemma long_record_wraps:
  assumes "2 ^ 16 \<le> length data"
  shows "unat (get_u16 (drop 3 (record_header typ v data @ r))) < length data"
proof -
  have "unat (of_nat (length data) :: u16) < 2 ^ LENGTH(16)" by (rule unsigned_less)
  then show ?thesis unfolding header_fields(4) using assms by simp
qed

lemma raw_secret_misread:
  assumes "unat (get_u16 enc) + 2 = length enc"
  shows "strip_length enc = drop 2 enc"
proof -
  have "2 \<le> length enc" "int (unat (get_u16 enc)) = int (length enc) - 2" using assms by linarith+
  then show ?thesis unfolding strip_length_def by (simp only: simp_thms if_True)
qed

end
