(* ===== verification/Connection_Properties.thy ===== *)
theory Connection_Properties
  imports Connection Request_Properties Tls_Properties "HOL-Library.Sublist"
begin

text \<open>
  The composition of the components: what a client sends over TLS is served as its requests, in order,
  and what a session queues reaches the wire in order.
\<close>

section \<open>Requests over TLS\<close>

text \<open>The specification: the requests one after the other, until one closes the connection.\<close>

fun serve_frames :: "Environment \<Rightarrow> handle \<Rightarrow> nat \<Rightarrow> Frame list \<Rightarrow> Server \<Rightarrow> Server go" where
  "serve_frames env h i [] w = removeSession h (if writer_failed env i then w else others env i w)"
| "serve_frames env h i (f # fs) w =
     (if writer_failed env i then removeSession h w
      else go_bind (serve_request (clock env i) h f (others env i w)) (\<lambda>(goes_on, w').
        if goes_on then serve_frames env h (Suc i) fs w' else removeSession h w'))"

lemma serve_loop_frames:
  assumes "Read rest = Inr (Inl err)"
  shows "delivered c = (concat (map frame_bytes fs) @ rest, e) \<Longrightarrow> list_all frame_ok fs \<Longrightarrow>
    serve_loop env h i c w = serve_frames env h i (map received fs) w"
proof (induction fs arbitrary: c i w)
  case Nil
  then have "reads_as c e (Inr (Inl err))" using conn_Read_refines [of c rest e] assms by simp
  then show ?case by (subst serve_loop.simps) (auto simp: reads_as_def)
next
  case (Cons f fs)
  then have "reads_as c e (Inr (Inr (received f, concat (map frame_bytes fs) @ rest)))"
    using conn_Read_refines [of c "frame_bytes f @ concat (map frame_bytes fs) @ rest" e] by (simp add: Read_frame_bytes)
  then obtain c' where "conn_Read c = Inr (Inr (received f), c')" "delivered c' = (concat (map frame_bytes fs) @ rest, e)"
    by (auto simp: reads_as_def)
  with Cons show ?case
    by (subst serve_loop.simps) (auto simp: go_bind_def split: sum.splits)
qed

text \<open>The flag of a finished handshake does not change what a connection delivers.\<close>

lemma open_once: "open_record typ b (c\<lparr>once := q\<rparr>) =
    (fst (open_record typ b c), (snd (open_record typ b c))\<lparr>once := q\<rparr>)"
  by (cases c) (simp add: open_record_def Let_def split_beta)

lemma readRecord_once: "readRecord (c\<lparr>once := q\<rparr>) = (fst (readRecord c), (snd (readRecord c))\<lparr>once := q\<rparr>)"
proof -
  have "open_record t b (c\<lparr>once := q, firstRecord := f, input := r\<rparr>) =
      (fst (open_record t b (c\<lparr>firstRecord := f, input := r\<rparr>)),
       (snd (open_record t b (c\<lparr>firstRecord := f, input := r\<rparr>)))\<lparr>once := q\<rparr>)" for t b r f
    using open_once [of t b q "c\<lparr>firstRecord := f, input := r\<rparr>"] by (cases c) simp
  then show ?thesis
    by (simp add: readRecord_def Let_def split: sum.splits prod.splits)
qed

lemma delivered_once: "delivered (c\<lparr>once := q\<rparr>) = delivered c"
proof (induction c rule: delivered.induct)
  case (1 c)
  have "delivered (c'\<lparr>once := q, readBuf := d\<rparr>) = delivered (c'\<lparr>readBuf := d\<rparr>)"
    if "readRecord c = (Inr (recordApplicationData, d), c')" for d c'
    using "1.IH" [OF that [symmetric] refl refl refl] by (cases c') simp
  then show ?case
    by (subst (1 2) delivered.simps) (auto simp: readRecord_once split: sum.splits prod.splits)
qed

text \<open>
  Claim C2. Requests are served in order, from end to end: when a client completes the handshake and
  writes the bytes of some frames, cut into calls of \<open>Write\<close> and into records in any way, and perhaps
  the beginning of another, then whatever other connections do meanwhile, its connection runs the
  handlers of exactly these requests, one after the other until one closes the connection or
  the writer fails, and then removes the session.
\<close>

theorem requests_served_in_order:
  fixes a a' :: "'c Conn"
  assumes server: "reliable wr written" and client: "lawful wr' written'" and x: "may_connect cfg x premaster"
    and a: "cout a = snd (seal (client_cipher (server_random now rnd) premaster x) recordHandshake
      (client_finished cfg (server_random now rnd) premaster x))" "version a = c_version x"
    and sent: "send_all wr' ps a = Inr (None, a')" "written' (net a') = written' (net a) @ bs"
    and fs: "list_all frame_ok fs" "concat ps = concat (map frame_bytes fs) @ tail" "Read tail = Inr (Inl err)"
  shows "serveConn wr now (Some rnd) env h remote
      (Tls_Server w (client_bytes cfg (server_random now rnd) premaster x @ bs) (Some cfg)) srv =
    serve_frames env h 0 (map received fs) (upd h (\<lambda>_. newSession remote) srv)"
proof -
  let ?c = "Tls_Server w (client_bytes cfg (server_random now rnd) premaster x @ bs) (Some cfg)"
  obtain c' where hs: "handshake wr now (Some rnd) ?c = Inr (Inr (), c')" and d: "delivered c' = (concat ps, Io EOF)"
    using client_data_delivered [OF server client x a sent] by blast
  have "Handshake wr now (Some rnd) ?c = Inr (None, c'\<lparr>once := Some None\<rparr>)"
    using hs by (simp add: Handshake_def Tls_Server_def)
  moreover have "delivered (c'\<lparr>once := Some None\<rparr>) = (concat (map frame_bytes fs) @ tail, Io EOF)"
    using d fs(2) by (simp add: delivered_once)
  ultimately show ?thesis
    using serve_loop_frames [OF fs(3) _ fs(1)] by (simp add: serveConn_def)
qed

section \<open>Frames reach the wire in order\<close>

text \<open>The contract of \<open>io.Writer\<close>, also where a write fails: the number returned is what was written.\<close>

definition exact :: "'w writer \<Rightarrow> ('w \<Rightarrow> bytes) \<Rightarrow> bool" where
  "exact wr written \<longleftrightarrow> (\<forall>w p n err w'. wr w p = ((n, err), w') \<longrightarrow> n \<le> length p \<and> written w' = written w @ take n p)"

lemma exact_write_loop:
  assumes "exact wr written"
  shows "\<exists>e w' k. write_loop wr w p = Inr (e, w') \<and> k \<le> length p \<and> written w' = written w @ take k p \<and>
    (e = None \<longrightarrow> k = length p)"
proof (induction p arbitrary: w rule: length_induct)
  case (1 p)
  obtain n err w1 where wr: "wr w p = ((n, err), w1)" by (metis surj_pair)
  then have n: "n \<le> length p" "written w1 = written w @ take n p" using assms by (auto simp: exact_def)
  show ?case
  proof (cases "p = [] \<or> err \<noteq> None \<or> n = 0")
    case True
    then show ?thesis
      using wr n by (subst write_loop.simps) (auto split: option.splits intro: exI [of _ 0] exI [of _ n])
  next
    case False
    then have "length (drop n p) < length p" by auto
    then obtain e w' k where "write_loop wr w1 (drop n p) = Inr (e, w')" "k \<le> length (drop n p)"
      "written w' = written w1 @ take k (drop n p)" "e = None \<longrightarrow> k = length (drop n p)"
      using "1.IH" by metis
    then show ?thesis
      using False wr n by (subst write_loop.simps) (auto intro!: exI [of _ "n + k"] simp: take_add)
  qed
qed

lemma exact_Write:
  assumes "exact wr written" and "length (Payload f) \<le> 0xffff"
  shows "\<exists>e w' k. Write wr w f = Inr ((e, w'), sized f) \<and> k \<le> length (frame_bytes f) \<and>
    written w' = written w @ take k (frame_bytes f) \<and> (e = None \<longrightarrow> k = length (frame_bytes f))"
proof -
  obtain e w' k where "write_loop wr w (frame_bytes f) = Inr (e, w')" "k \<le> length (frame_bytes f)"
    "written w' = written w @ take k (frame_bytes f)" "e = None \<longrightarrow> k = length (frame_bytes f)"
    using exact_write_loop [OF assms(1)] by blast
  then show ?thesis
    using assms(2) by (intro exI [of _ e] exI [of _ w'] exI [of _ k]) (simp add: Write_def)
qed

lemma writeLoop_writes:
  assumes "exact wr written"
  shows "list_all (\<lambda>item. length (Payload (frame item)) \<le> 0xffff) items \<Longrightarrow>
    \<exists>reason w' n k. writeLoop wr before waiting i items w = Inr (reason, w') \<and> n \<le> length items \<and>
      written w' = written w @ concat (map (\<lambda>item. frame_bytes (frame item)) (take n items)) @
        (if n < length items then take k (frame_bytes (frame (items ! n))) else []) \<and>
      (reason = Canceled \<longrightarrow> k = 0 \<and> (n = length items \<or> before (i + n) \<or> waiting (i + n)))"
proof (induction items arbitrary: i w)
  case Nil
  show ?case by simp
next
  case (Cons item items)
  let ?f = "frame item"
  have l: "length (Payload ?f) \<le> 0xffff" using Cons.prems by simp
  obtain e w1 k where wr: "Write wr w ?f = Inr ((e, w1), sized ?f)"
    and w1: "written w1 = written w @ take k (frame_bytes ?f)" and e: "e = None \<longrightarrow> k = length (frame_bytes ?f)"
    using exact_Write [OF assms l] by metis
  consider (stopped) "before i \<or> 0 < delay item \<and> waiting i"
    | (failed) err where "\<not> (before i \<or> 0 < delay item \<and> waiting i)" "e = Some err"
    | (sent) "\<not> (before i \<or> 0 < delay item \<and> waiting i)" "e = None" by fastforce
  then show ?case
  proof cases
    case stopped
    show ?thesis
      by (rule exI [of _ Canceled], rule exI [of _ w], rule exI [of _ 0], rule exI [of _ 0]) (use stopped in auto)
  next
    case failed
    show ?thesis
      by (rule exI [of _ "WriteFailed err"], rule exI [of _ w1], rule exI [of _ 0], rule exI [of _ k])
        (use failed wr w1 in auto)
  next
    case sent
    obtain reason w' n k' where ih: "writeLoop wr before waiting (Suc i) items w1 = Inr (reason, w')" "n \<le> length items"
      "written w' = written w1 @ concat (map (\<lambda>item. frame_bytes (frame item)) (take n items)) @
        (if n < length items then take k' (frame_bytes (frame (items ! n))) else [])"
      "reason = Canceled \<longrightarrow> k' = 0 \<and> (n = length items \<or> before (Suc i + n) \<or> waiting (Suc i + n))"
      using Cons by fastforce
    show ?thesis
      by (rule exI [of _ reason], rule exI [of _ w'], rule exI [of _ "Suc n"], rule exI [of _ k'])
        (use ih sent wr w1 e in auto)
  qed
qed

text \<open>
  Claim C18. Queued frames reach the wire in order: over any writer that keeps the contract of
  \<open>io.Writer\<close>, whenever the loop is cancelled, what it writes is the bytes of the first queued frames,
  one behind the other, which a reader takes for exactly those frames, followed, only when a write
  failed, by some bytes of the next; it leaves out the rest only then or when it is cancelled.
\<close>

theorem writer_keeps_order:
  assumes "exact wr written" and ok: "list_all (\<lambda>item. frame_ok (frame item)) items"
  shows "\<exists>reason w' n more. writeLoop wr before waiting i items w = Inr (reason, w') \<and> n \<le> length items \<and>
    written w' = written w @ concat (map (\<lambda>item. frame_bytes (frame item)) (take n items)) @ more \<and>
    (more \<noteq> [] \<longrightarrow> n < length items \<and> prefix more (frame_bytes (frame (items ! n)))) \<and>
    (reason = Canceled \<longrightarrow> more = [] \<and> (n = length items \<or> before (i + n) \<or> waiting (i + n))) \<and>
    dec_many dec_frame n (drop (length (written w)) (written w')) =
      Some (map (\<lambda>item. received (frame item)) (take n items),
        length (concat (map (\<lambda>item. frame_bytes (frame item)) (take n items))))"
proof -
  have "list_all (\<lambda>item. length (Payload (frame item)) \<le> 0xffff) items"
    using ok by (auto simp: frame_ok_def list_all_iff)
  then obtain reason w' n k where w: "writeLoop wr before waiting i items w = Inr (reason, w')" "n \<le> length items"
    "written w' = written w @ concat (map (\<lambda>item. frame_bytes (frame item)) (take n items)) @
        (if n < length items then take k (frame_bytes (frame (items ! n))) else [])" (is "_ = _ @ _ @ ?more")
    "reason = Canceled \<longrightarrow> k = 0 \<and> (n = length items \<or> before (i + n) \<or> waiting (i + n))"
    using writeLoop_writes [OF assms(1)] by blast
  have "list_all frame_ok (map frame (take n items))" using ok by (auto simp: list_all_iff dest: in_set_takeD)
  moreover have l: "length (map frame (take n items)) = n" using w(2) by simp
  ultimately have d: "dec_many dec_frame n (drop (length (written w)) (written w')) = Some
      (map (\<lambda>item. received (frame item)) (take n items), length (concat (map (\<lambda>item. frame_bytes (frame item)) (take n items))))"
    using fire.decode_stream [of "map frame (take n items)" ?more] unfolding l w(3) by (simp add: comp_def)
  show ?thesis
    by (rule exI [of _ reason], rule exI [of _ w'], rule exI [of _ n], rule exI [of _ ?more])
      (use w d in \<open>auto simp: take_is_prefix split: if_splits\<close>)
qed

section \<open>Witnesses\<close>

definition alone :: Environment where
  "alone = \<lparr>clock = (\<lambda>_. 5), others = (\<lambda>_ w. w), writer_failed = (\<lambda>_. False)\<rparr>"

text \<open>A logout request and five bytes of another one, sent over TLS.\<close>

lemma logout_ok: "frame_ok (bare_request c d)"
  by (simp add: frame_ok_def bare_request_def)

lemma logout_served:
  "\<exists>w'. serve_frames alone 2 0 [received (bare_request ComponentAuthentication CommandLogout)]
      (upd 2 (\<lambda>_. newSession OtherAddr) fresh_server) = Inr w' \<and>
    (\<exists>r. outbound (heap w' 2) = Some [r] \<and> MessageType (Header (frame r)) = MessageReply)"
proof -
  let ?r = "received (bare_request ComponentAuthentication CommandLogout)"
  have h: "Component (Header ?r) = ComponentAuthentication" "Command (Header ?r) = CommandLogout"
    by (simp_all add: received_def sized_def bare_request_def)
  have "map_of Handlers (key ComponentAuthentication CommandLogout) = Some acknowledge"
    unfolding Handlers_registered
    by (rule map_of_is_SomeI [OF distinct_keys]) (simp add: registerDefaultHandlers_def)
  then have s: "serve_request now 2 ?r w = Inr (True, upd 2 (\<lambda>_. flushNotifications ((heap w 2)\<lparr>outbound := Some [\<lparr>frame = Reply ?r [], delay = 0\<rparr>]\<rparr>)) w)"
    if "outbound (heap w 2) = Some []" "\<not> closed (heap w 2)" for now w
    using that by (simp add: serve_request_def h acknowledge_def enqueue_def)
  show ?thesis
    by (simp add: s alone_def newSession_def fresh_server_def New_def upd_def flushNotifications_def removeSession_def
        removeSession_locked_def removeQueuedSessionLocked_def member_game_def close_def Let_def Reply_def)
qed

theorem requests_served_in_order_witness:
  "\<exists>bs w' r. serveConn slow 5 (Some (\<lambda>_. 3)) alone 2 OtherAddr
      (Tls_Server [] (client_bytes demo_config (server_random 5 (\<lambda>_. 3)) (replicate 48 7) demo_client @ bs)
        (Some demo_config)) fresh_server = Inr w' \<and>
    outbound (heap w' 2) = Some [r] \<and> MessageType (Header (frame r)) = MessageReply"
proof -
  let ?sr = "server_random 5 (\<lambda>_. 3)"
  let ?f = "bare_request ComponentAuthentication CommandLogout"
  let ?a = "(Tls_Server [] [] None)\<lparr>cout := snd (seal (client_cipher ?sr (replicate 48 7) demo_client) recordHandshake
      (client_finished demo_config ?sr (replicate 48 7) demo_client))\<rparr>"
  let ?ps = "[take 3 (frame_bytes ?f), drop 3 (frame_bytes ?f), [0, 0, 0, 9, 0]]"
  have a: "cout ?a = snd (seal (client_cipher ?sr (replicate 48 7) demo_client) recordHandshake
      (client_finished demo_config ?sr (replicate 48 7) demo_client))" "version ?a = c_version demo_client"
    by (simp, simp add: demo_client_def)
  obtain a' where a': "send_all slow ?ps ?a = Inr (None, a')"
    using send_all_reliable [OF slow_laws(1)] by blast
  obtain bs where bs: "net a' = net ?a @ bs" using send_all_delivered [OF slow_laws(2) a'] by blast
  have p: "concat ?ps = concat (map frame_bytes [?f]) @ [0, 0, 0, 9, 0]" by simp
  have t: "Read [0, 0, 0, 9, 0] = Inr (Inl ErrUnexpectedEOF)"
    by (simp add: Read_def ReadFull_def HeaderSize_def)
  have fs: "list_all frame_ok [?f]" by (simp add: logout_ok)
  have "serveConn slow 5 (Some (\<lambda>_. 3)) alone 2 OtherAddr
      (Tls_Server [] (client_bytes demo_config ?sr (replicate 48 7) demo_client @ bs) (Some demo_config)) fresh_server =
    serve_frames alone 2 0 [received ?f] (upd 2 (\<lambda>_. newSession OtherAddr) fresh_server)"
    using requests_served_in_order [OF slow_laws demo_connects a a' bs fs p t] by (simp only: list.map)
  with logout_served show ?thesis by metis
qed

theorem writer_keeps_order_witness:
  "\<exists>w'. writeLoop slow (\<lambda>_. False) (\<lambda>_. True) 0 (map (\<lambda>d. \<lparr>frame = bare_request 9 d, delay = 0\<rparr>) [7, 2]) [] = Inr (Canceled, w') \<and>
     dec_many dec_frame 2 w' = Some (map (\<lambda>d. received (bare_request 9 d)) [7, 2], length w')"
proof -
  let ?items = "map (\<lambda>d. \<lparr>frame = bare_request 9 d, delay = 0\<rparr>) [7, 2]"
  have e: "exact slow (\<lambda>w. w)" by (auto simp: exact_def slow_def min_def)
  have w: "Write slow w (bare_request 9 d) = Inr ((None, w @ frame_bytes (bare_request 9 d)), sized (bare_request 9 d))" for w d
    using reliable_write_loop [OF slow_laws(1), of w "frame_bytes (bare_request 9 d)"]
    by (auto simp: Write_def bare_request_def)
  then obtain w' where w': "writeLoop slow (\<lambda>_. False) (\<lambda>_. True) 0 ?items [] = Inr (Canceled, w')" "length w' = 24"
    by (auto simp: bare_request_def)
  have "list_all (\<lambda>item. frame_ok (frame item)) ?items" by (simp add: logout_ok)
  then obtain reason w2 n more where t: "writeLoop slow (\<lambda>_. False) (\<lambda>_. True) 0 ?items [] = Inr (reason, w2)"
    "reason = Canceled \<longrightarrow> more = [] \<and> (n = length ?items \<or> False \<or> True)" "n \<le> length ?items"
    "w2 = [] @ concat (map (\<lambda>item. frame_bytes (frame item)) (take n ?items)) @ more"
    "dec_many dec_frame n (drop (length ([] :: bytes)) w2) = Some (map (\<lambda>item. received (frame item)) (take n ?items),
      length (concat (map (\<lambda>item. frame_bytes (frame item)) (take n ?items))))"
    using writer_keeps_order [OF e] by blast
  have r: "reason = Canceled" "w2 = w'" using t(1) w'(1) by (metis Inr_inject prod.inject)+
  then have "n = 2" using t(2-4) w'(2) by (cases n; cases "n - 1") (auto simp: bare_request_def)
  then show ?thesis using w' r t(2,4,5) by (auto simp: numeral_2_eq_2)
qed

end
