(* ===== verification/Lifecycle.thy ===== *)
theory Lifecycle
  imports Connection_Properties
begin

text \<open>
  The life of a connection among others, in the style of rely and guarantee: while what the others do is
  steps of the server that do not end this connection, its own service is steps too, its end
  leaves nothing of it behind, and clean requests are always served to the end.
\<close>

section \<open>What is relied on\<close>

text \<open>The others take steps of the server, and do not end this connection.\<close>

definition peaceful :: "Environment \<Rightarrow> handle \<Rightarrow> bool" where
  "peaceful env h \<longleftrightarrow> (\<forall>i w. \<exists>ms. path lobby_step w ms (others env i w) \<and> Leave h \<notin> set ms)"

text \<open>No counter of the server is at the end of its range when one of its requests is served.\<close>

function room :: "Environment \<Rightarrow> handle \<Rightarrow> nat \<Rightarrow> 'w Conn \<Rightarrow> Server \<Rightarrow> bool" where
  "room env h i c w \<longleftrightarrow>
     (case conn_Read c of
        Inr (Inr request, c') \<Rightarrow> numbers_left (others env i w) \<and>
          (case serve_request (clock env i) h request (others env i w) of
             Inr (True, w') \<Rightarrow> room env h (Suc i) c' w'
           | _ \<Rightarrow> True)
      | _ \<Rightarrow> True)"
  by pat_completeness auto

termination
  by (relation "measure (\<lambda>(_, _, _, c, _). length (fst (delivered c)))") (auto dest: conn_Read_shorter)

declare room.simps [simp del]

section \<open>What is guaranteed\<close>

lemma others_run:
  assumes "peaceful env h" and "run lobby_start lobby_step ls w" and "live w h"
  shows "\<exists>ls'. run lobby_start lobby_step ls' (others env i w)" and "live (others env i w) h"
proof -
  obtain ms where ms: "path lobby_step w ms (others env i w)" "Leave h \<notin> set ms"
    using assms(1) unfolding peaceful_def by blast
  show "\<exists>ls'. run lobby_start lobby_step ls' (others env i w)" using run_path [OF ms(1) assms(2)] by blast
  show "live (others env i w) h"
    using ms(2) by (intro alive.path_stable [OF ms(1) lobby.run_inv [OF assms(2)] assms(3)]) auto
qed

lemma serve_loop_cases:
  assumes "serve_loop env h i c w = Inr w'"
  obtains (failed) "writer_failed env i" "removeSession h w = Inr w'"
    | (ended) e c' where "conn_Read c = Inr (Inl e, c')" "removeSession h (others env i w) = Inr w'"
    | (served) request c' goes_on u where "\<not> writer_failed env i" "conn_Read c = Inr (Inr request, c')"
        "serve_request (clock env i) h request (others env i w) = Inr (goes_on, u)"
        "(if goes_on then serve_loop env h (Suc i) c' u else removeSession h u) = Inr w'"
proof (cases "writer_failed env i")
  case True
  then show ?thesis using assms failed unfolding serve_loop.simps [of env h i c w] by simp
next
  case False
  then obtain r c' where r: "conn_Read c = Inr (r, c')"
    using assms unfolding serve_loop.simps [of env h i c w] by (auto simp: go_bind_Inr_iff)
  show ?thesis
  proof (cases r)
    case (Inl e)
    then show ?thesis using assms False r ended unfolding serve_loop.simps [of env h i c w] by simp
  next
    case (Inr request)
    then obtain goes_on u where "serve_request (clock env i) h request (others env i w) = Inr (goes_on, u)"
      "(if goes_on then serve_loop env h (Suc i) c' u else removeSession h u) = Inr w'"
      using assms False r unfolding serve_loop.simps [of env h i c w] by (auto simp: go_bind_Inr_iff simp del: if_split_asm)
    then show ?thesis using served False r Inr by blast
  qed
qed

lemma serve_loop_run:
  "serve_loop env h i c w = Inr w' \<Longrightarrow> peaceful env h \<Longrightarrow> run lobby_start lobby_step ls w \<Longrightarrow> live w h \<Longrightarrow>
   room env h i c w \<Longrightarrow> \<exists>ls' u. run lobby_start lobby_step ls' u \<and> removeSession h u = Inr w'"
proof (induction "length (fst (delivered c))" arbitrary: i c w ls rule: less_induct)
  case less
  note o = others_run [OF less.prems(2-4), of i]
  from less.prems(1) show ?case
  proof (cases rule: serve_loop_cases)
    case (served request c' goes_on u)
    have left: "numbers_left (others env i w)" and next_room: "goes_on \<Longrightarrow> room env h (Suc i) c' u"
      using less.prems(5) served(2,3) unfolding room.simps [of env h i c w] by auto
    obtain ms where ms: "path lobby_step (others env i w) ms u" "set ms \<subseteq> {Login h, Act h, Deliver}"
      using serve_request_steps [OF o(2) left served(3)] by blast
    obtain ls' where r: "run lobby_start lobby_step ls' (others env i w)" using o(1) by blast
    have u: "run lobby_start lobby_step (ls' @ ms) u" by (rule run_path [OF ms(1) r])
    have "live u h" using ms(2) by (intro alive.path_stable [OF ms(1) lobby.run_inv [OF r] o(2)]) auto
    then show ?thesis
      using u served(4) less.hyps [OF conn_Read_shorter [OF served(2)] _ less.prems(2) u] next_room by (cases goes_on) auto
  qed (use less.prems(3) o in blast)+
qed

text \<open>The deferred \<open>removeSession\<close>: closing, the critical section, and the notifications to the others.\<close>

lemma removeSession_run:
  assumes run: "run lobby_start lobby_step ls u" and r: "removeSession h u = Inr w'"
  shows "(\<exists>ls'. run lobby_start lobby_step ls' w') \<and> \<not> member_of w' h k \<and> \<not> queued w' h q \<and>
    map_of (activePersonas w') p \<noteq> Some h"
proof -
  define v where "v = snd (removeSession_locked h (upd h close u))"
  have "quiet_change u (upd h close u)" by (rule quiet_upd [OF _ quiet_refl]) simp
  then have c: "run lobby_start lobby_step (ls @ [Deliver]) (upd h close u)"
    by (intro run_step [OF run lobby_step.quiet]) (simp_all add: quiet_change_def)
  then have v: "run lobby_start lobby_step ((ls @ [Deliver]) @ [Leave h]) v"
    unfolding v_def by (rule run_step) (rule lobby_step.leave)
  have q: "quiet_change v w'"
    using r unfolding removeSession_def v_def
    by (auto split: prod.splits option.splits intro: quiet_refl quiet_each [OF quiet_notify_removed])
  then have "run lobby_start lobby_step (((ls @ [Deliver]) @ [Leave h]) @ [Deliver]) w'"
    by (intro run_step [OF v lobby_step.quiet]) (simp_all add: quiet_change_def)
  moreover have "member_of w' h k \<longleftrightarrow> member_of v h k" "queued w' h q \<longleftrightarrow> queued v h q" "activePersonas w' = activePersonas v"
    using q by (auto simp: quiet_change_def same_lobby_def member_of_def queued_def)
  ultimately show ?thesis using leave_forgets [OF c, of h k q p] unfolding v_def by auto
qed

text \<open>
  Claim C4. A connection leaves nothing behind: whatever a client sends, honest or not, and however it
  interleaves with the other connections, when it has been served (the handshake failed, the
  stream ended or broke, a request closed it, or the writer failed) the server is in a reachable
  state, and the session is in no game, not queued, and not registered under any persona.
\<close>

theorem connection_leaves_nothing:
  assumes run: "run lobby_start lobby_step ls srv" and new: "heap srv h = newSession remote"
    and env: "peaceful env h" and room: "\<And>c'. Handshake wr now random c = Inr (None, c') \<Longrightarrow> room env h 0 c' srv"
    and served: "serveConn wr now random env h remote c srv = Inr w'"
  shows "(\<exists>ls'. run lobby_start lobby_step ls' w') \<and> \<not> member_of w' h k \<and> \<not> queued w' h q \<and>
    map_of (activePersonas w') p \<noteq> Some h"
proof -
  have same: "upd h (\<lambda>_. newSession remote) srv = srv" by (simp add: upd_def new [symmetric])
  have live: "live srv h" by (simp add: live_def new newSession_def)
  obtain ls' u where "run lobby_start lobby_step ls' u" "removeSession h u = Inr w'"
    using served serve_loop_run [OF _ env run live room] run
    by (auto simp: serveConn_def same go_bind_Inr_iff split: option.splits)
  then show ?thesis by (rule removeSession_run)
qed

section \<open>Clean requests are served to the end\<close>

text \<open>
  Claim C15. A connection with clean requests is served to its end: while the others keep the server clean,
  and as long as what arrives is whole frames with clean payloads, possibly followed by a cut
  one, serving it returns, without a panic, and leaves the server clean.
\<close>

theorem clean_connection_completes:
  assumes d: "delivered c = (concat (map frame_bytes fs) @ tail, e)" and tail: "Read tail = Inr (Inl err)"
    and fs: "list_all frame_ok fs" "list_all (\<lambda>f. clean_request (received f)) fs"
    and others: "\<And>i u. clean_server u \<Longrightarrow> clean_server (others env i u)" and clean: "clean_server w"
  shows "\<exists>w'. serve_loop env h i c w = Inr w' \<and> clean_server w'"
  unfolding serve_loop_frames [OF tail d fs(1)] using fs(2) clean
proof (induction fs arbitrary: i w)
  case Nil
  then show ?case using removeSession_ok others by simp
next
  case (Cons f fs)
  obtain goes_on u where u: "serve_request (clock env i) h (received f) (others env i w) = Inr (goes_on, u)" "clean_server u"
    using never_panics [OF others [OF Cons.prems(2)]] Cons.prems(1) by (metis list.pred_inject(2))
  then show ?case using Cons removeSession_ok by (cases goes_on) (auto simp del: split_paired_All)
qed

section \<open>Witnesses\<close>

lemma room_cut: "delivered c = (tail, e) \<Longrightarrow> Read tail = Inr (Inl err) \<Longrightarrow> room env h i c w"
  using conn_Read_refines [of c tail e] by (subst room.simps) (auto simp: reads_as_def)

lemma room_frame:
  fixes c :: "'w Conn"
  assumes "delivered c = (frame_bytes f @ P, e)" and "frame_ok f" and "numbers_left (others env i w)"
    and "\<And>(c' :: 'w Conn) w'. delivered c' = (P, e) \<Longrightarrow> room env h (Suc i) c' w'"
  shows "room env h i c w"
  using conn_Read_refines [OF assms(1)] assms(3,4) unfolding Read_frame_bytes [OF assms(2)]
  by (subst room.simps) (auto simp: reads_as_def split: sum.splits bool.splits)

lemma demo_logout:
  "\<exists>bs c'. Handshake slow 5 (Some (\<lambda>_. 3)) (Tls_Server [] (client_bytes demo_config (server_random 5 (\<lambda>_. 3))
      (replicate 48 7) demo_client @ bs) (Some demo_config)) = Inr (None, c') \<and>
    delivered c' = (frame_bytes (bare_request ComponentAuthentication CommandLogout), Io EOF)"
proof -
  let ?sr = "server_random 5 (\<lambda>_. 3)"
  let ?a = "(Tls_Server [] [] None)\<lparr>cout := snd (seal (client_cipher ?sr (replicate 48 7) demo_client) recordHandshake
      (client_finished demo_config ?sr (replicate 48 7) demo_client))\<rparr>"
  let ?ps = "[frame_bytes (bare_request ComponentAuthentication CommandLogout)]"
  have a: "cout ?a = snd (seal (client_cipher ?sr (replicate 48 7) demo_client) recordHandshake
      (client_finished demo_config ?sr (replicate 48 7) demo_client))" "version ?a = c_version demo_client"
    by (simp, simp add: demo_client_def)
  obtain a' where a': "send_all slow ?ps ?a = Inr (None, a')" using send_all_reliable [OF slow_laws(1)] by blast
  obtain bs where bs: "net a' = net ?a @ bs" using send_all_delivered [OF slow_laws(2) a'] by blast
  obtain c' where "handshake slow 5 (Some (\<lambda>_. 3)) (Tls_Server [] (client_bytes demo_config ?sr (replicate 48 7) demo_client @ bs)
      (Some demo_config)) = Inr (Inr (), c')" "delivered c' = (concat ?ps, Io EOF)"
    using client_data_delivered [OF slow_laws demo_connects a a' bs] by blast
  then show ?thesis
    by (intro exI [of _ bs] exI [of _ "c'\<lparr>once := Some None\<rparr>"]) (simp add: Handshake_def Tls_Server_def delivered_once)
qed

lemma Read_end: "Read [] = Inr (Inl EOF)"
  by (simp add: Read_def ReadFull_def HeaderSize_def)

theorem connection_leaves_nothing_witness:
  "\<exists>bs w'. serveConn slow 5 (Some (\<lambda>_. 3)) alone 2 OtherAddr (Tls_Server [] (client_bytes demo_config
      (server_random 5 (\<lambda>_. 3)) (replicate 48 7) demo_client @ bs) (Some demo_config)) fresh_server = Inr w' \<and>
    (\<exists>ls. run lobby_start lobby_step ls w') \<and> map_of (activePersonas w') 1 \<noteq> Some 2"
proof -
  let ?f = "bare_request ComponentAuthentication CommandLogout"
  obtain bs c' where hs: "Handshake slow 5 (Some (\<lambda>_. 3)) (Tls_Server [] (client_bytes demo_config (server_random 5 (\<lambda>_. 3))
      (replicate 48 7) demo_client @ bs) (Some demo_config)) = Inr (None, c')" (is "Handshake _ _ _ ?c = _")
    and d: "delivered c' = (frame_bytes ?f, Io EOF)"
    using demo_logout by blast
  have new: "heap fresh_server 2 = newSession OtherAddr" by (simp add: fresh_server_def)
  have env: "peaceful alone 2" by (auto simp: peaceful_def alone_def intro: path_nil)
  have room: "room alone 2 0 c2 fresh_server" if "Handshake slow 5 (Some (\<lambda>_. 3)) ?c = Inr (None, c2)" for c2
  proof -
    have "c2 = c'" using hs that by (metis Inr_inject prod.inject)
    then have "delivered c2 = (frame_bytes ?f @ [], Io EOF)" using d by simp
    then show ?thesis
      by (rule room_frame [OF _ logout_ok]) (use fresh_server_numbers in \<open>simp add: alone_def\<close>, rule room_cut [OF _ Read_end])
  qed
  have same: "upd 2 (\<lambda>_. newSession OtherAddr) fresh_server = fresh_server" by (simp add: upd_def new [symmetric])
  obtain w' where "serve_frames alone 2 0 (map received [?f]) fresh_server = Inr w'"
    using logout_served unfolding same by auto
  then have s: "serveConn slow 5 (Some (\<lambda>_. 3)) alone 2 OtherAddr ?c fresh_server = Inr w'"
    using serve_loop_frames [OF Read_end, of c' "[?f]" "Io EOF"] d hs same by (simp add: serveConn_def logout_ok)
  from connection_leaves_nothing [OF run_start [where start = lobby_start, OF fresh_server_start] new env room s] s show ?thesis by blast
qed

theorem clean_connection_completes_witness:
  "\<exists>w'. serve_loop alone 2 0 ((Tls_Server ([] :: bytes) (fst (app_stream tls10 noCipher
      (frame_bytes (bare_request ComponentAuthentication CommandLogout) @ [0, 0]))) None)\<lparr>firstRecord := False\<rparr>)
      fresh_server = Inr w' \<and> clean_server w'"
proof -
  let ?f = "bare_request ComponentAuthentication CommandLogout"
  let ?c = "(Tls_Server ([] :: bytes) (fst (app_stream tls10 noCipher (frame_bytes ?f @ [0, 0]))) None)\<lparr>firstRecord := False\<rparr>"
  have d: "delivered ?c = (concat (map frame_bytes [?f]) @ [0, 0], Io EOF)"
    using delivered_app [of ?c "frame_bytes ?f @ [0, 0]" "[]"] by (simp add: Let_def delivered_end Tls_Server_def)
  have t: "Read [0, 0] = Inr (Inl ErrUnexpectedEOF)" by (simp add: Read_def ReadFull_def HeaderSize_def)
  have "frame_fields (received ?f) = frame_fields ?f"
    by (simp add: received_def sized_def bare_request_def frame_fields_def)
  then have "clean_request (received ?f)" using bare_request_clean by (simp add: clean_request_def)
  then show ?thesis
    using clean_connection_completes [OF d t, of alone fresh_server 2 0] clean_fresh by (simp add: logout_ok alone_def)
qed

end
