(* ===== verification/Startup.thy ===== *)
theory Startup
  imports Lobby_System Tls_Handshake
begin

text \<open>
  How the server starts (cmd/hpserver/main.go) and where its certificate comes from (legacytls/config.go and
  \<open>GenerateSelfSigned\<close> of conn.go), the TLS listener, and the accept loop \<open>Serve\<close>.  Files, flags, sockets, the
  clock and the packages encoding/pem and crypto/x509 are arguments.
\<close>

section \<open>Loading a certificate and a key\<close>

record pem_block =
  Type :: string
  Bytes :: bytes

datatype private_key = RSA rsa_key | OtherKey

datatype setup_error = ReadFailed | NoCertificates | NoPrivateKey | NotRSA | GenerateFailed | CertificateFailed

text \<open>
  What the code uses of the system and of the standard library: \<open>os.ReadFile\<close>, \<open>pem.Decode\<close> (the first block and
  the bytes behind it), the two key parsers, \<open>rsa.GenerateKey\<close>, \<open>time.Now\<close> in nanoseconds, \<open>AddDate\<close>,
  \<open>x509.CreateCertificate\<close> with the template and the key, and whether \<open>net.Listen\<close> succeeds on an address.
\<close>

datatype signature = SHA1WithRSA

datatype usage = KeyEncipherment | DigitalSignature | ServerAuth

record Template =
  SerialNumber :: int
  CommonName :: string
  Organization :: "string list"
  NotBefore :: int
  NotAfter :: int
  SignatureAlgorithm :: signature
  KeyUsage :: "usage set"
  ExtKeyUsage :: "usage list"
  DNSNames :: "string list"

record World =
  ReadFile :: "string \<Rightarrow> bytes option"
  pem_Decode :: "bytes \<Rightarrow> (pem_block \<times> bytes) option"
  ParsePKCS1PrivateKey :: "bytes \<Rightarrow> rsa_key option"
  ParsePKCS8PrivateKey :: "bytes \<Rightarrow> private_key option"
  GenerateKey :: "rsa_key option"
  Now :: int
  AddDate :: "int \<Rightarrow> nat \<Rightarrow> int"
  CreateCertificate :: "Template \<Rightarrow> rsa_key \<Rightarrow> bytes option"
  Listen :: "string \<Rightarrow> bool"

text \<open>The loop over the blocks of the certificate file; \<open>None\<close> would be a loop that does not end.\<close>

partial_function (option) load_certs :: "World \<Rightarrow> bytes \<Rightarrow> bytes list \<Rightarrow> bytes list option" where
  "load_certs W certPEM certs =
     (if certPEM = [] then Some certs
      else
        (case pem_Decode W certPEM of
           None \<Rightarrow> Some certs
         | Some (b, rest) \<Rightarrow> load_certs W rest (if Type b = ''CERTIFICATE'' then certs @ [Bytes b] else certs)))"

definition parse_key :: "World \<Rightarrow> bytes \<Rightarrow> rsa_key option" where
  "parse_key W b =
     (case ParsePKCS1PrivateKey W b of
        Some k \<Rightarrow> Some k
      | None \<Rightarrow> (case ParsePKCS8PrivateKey W b of Some (RSA k) \<Rightarrow> Some k | _ \<Rightarrow> None))"

definition LoadKeyPair :: "World \<Rightarrow> string \<Rightarrow> string \<Rightarrow> (setup_error + Config) option" where
  "LoadKeyPair W certFile keyFile =
     (case ReadFile W certFile of
        None \<Rightarrow> Some (Inl ReadFailed)
      | Some certPEM \<Rightarrow>
          (case ReadFile W keyFile of
             None \<Rightarrow> Some (Inl ReadFailed)
           | Some keyPEM \<Rightarrow>
               map_option (\<lambda>certs.
                 if certs = [] then Inl NoCertificates
                 else
                   (case pem_Decode W keyPEM of
                      None \<Rightarrow> Inl NoPrivateKey
                    | Some (b, _) \<Rightarrow>
                        (case parse_key W (Bytes b) of
                           None \<Rightarrow> Inl NotRSA
                         | Some pk \<Rightarrow> Inr \<lparr>Certificate = certs, PrivateKey = Some pk\<rparr>)))
                 (load_certs W certPEM [])))"

section \<open>Generating one\<close>

definition hour :: int where "hour = 3600 * 1000000000"

definition certificate_template :: "World \<Rightarrow> string list \<Rightarrow> Template" where
  "certificate_template W hosts =
     \<lparr>SerialNumber = Now W,
      CommonName = (case hosts of host # _ \<Rightarrow> if host \<noteq> '''' then host else ''localhost'' | [] \<Rightarrow> ''localhost''),
      Organization = [''ReOrigin Local Emulator''], NotBefore = Now W - hour, NotAfter = AddDate W (Now W) 10,
      SignatureAlgorithm = SHA1WithRSA, KeyUsage = {KeyEncipherment, DigitalSignature}, ExtKeyUsage = [ServerAuth],
      DNSNames = hosts\<rparr>"

definition GenerateSelfSigned :: "World \<Rightarrow> string list \<Rightarrow> setup_error + Config" where
  "GenerateSelfSigned W hosts =
     (case GenerateKey W of
        None \<Rightarrow> Inl GenerateFailed
      | Some pk \<Rightarrow>
          (case CreateCertificate W (certificate_template W hosts) pk of
             None \<Rightarrow> Inl CertificateFailed
           | Some der \<Rightarrow> Inr \<lparr>Certificate = [der], PrivateKey = Some pk\<rparr>))"

section \<open>Accepting connections\<close>

text \<open>The listener of legacytls: what the inner listener accepts becomes a server connection.\<close>

datatype 'a accept = Accepted 'a | AcceptFailed io_error

definition Accept :: "Config \<Rightarrow> ('w \<times> bytes) accept \<Rightarrow> 'w Conn accept" where
  "Accept cfg r = (case r of Accepted (w, inp) \<Rightarrow> Accepted (Tls_Server w inp (Some cfg)) | AcceptFailed e \<Rightarrow> AcceptFailed e)"

text \<open>
  \<open>Serve\<close> over the results of \<open>Accept\<close> in their order: the connections that get a goroutine, and the error that
  ends the loop, replaced by the error of the context when that is done; without one it still waits.
\<close>

datatype serve_error = ContextDone | ListenerError io_error

fun Serve :: "bool \<Rightarrow> 'c accept list \<Rightarrow> 'c list \<times> serve_error option" where
  "Serve cancelled [] = ([], None)"
| "Serve cancelled (AcceptFailed e # rs) = ([], Some (if cancelled then ContextDone else ListenerError e))"
| "Serve cancelled (Accepted c # rs) = (let (cs, err) = Serve cancelled rs in (c # cs, err))"

section \<open>The command\<close>

record Flags =
  redirector :: string
  blaze :: string
  autolog :: string
  autologURL :: string
  certFile :: string
  keyFile :: string

definition default_flags :: Flags where
  "default_flags = \<lparr>redirector = ''0.0.0.0:42127'', blaze = ''0.0.0.0:10013'', autolog = ''0.0.0.0:18080'',
     autologURL = ''http://autolog1.ea.com:18080'', certFile = '''', keyFile = ''''\<rparr>"

text \<open>Both game listeners of a running server share one TLS configuration and one \<open>Server\<close>.\<close>

record Running =
  tlsConfig :: Config
  server :: Server.Server

datatype startup = Exit nat | Started Running

definition own_hosts :: "string list" where
  "own_hosts = [''gosredirector.ea.com'', ''gosredirector.online.ea.com'', ''nfshp-prd2-mp-app-01.ea.com'',
     ''autolog1.ea.com'', ''localhost'']"

definition tls_setup :: "World \<Rightarrow> Flags \<Rightarrow> (nat + Config) option" where
  "tls_setup W f =
     (let code = map_option (\<lambda>r. case r of Inl _ \<Rightarrow> Inl 1 | Inr cfg \<Rightarrow> Inr cfg) in
      if certFile f \<noteq> '''' \<or> keyFile f \<noteq> ''''
      then if certFile f = '''' \<or> keyFile f = '''' then Some (Inl 2)
           else code (LoadKeyPair W (certFile f) (keyFile f))
      else code (Some (GenerateSelfSigned W own_hosts)))"

definition main :: "World \<Rightarrow> Flags \<Rightarrow> startup option" where
  "main W f =
     map_option (\<lambda>r. case r of
         Inl code \<Rightarrow> Exit code
       | Inr cfg \<Rightarrow>
           if \<not> Listen W (redirector f) then Exit 1
           else if \<not> Listen W (blaze f) then Exit 1
           else if \<not> Listen W (autolog f) then Exit 1
           else Started \<lparr>tlsConfig = cfg, server = New\<lparr>AutologBase := autologURL f\<rparr>\<rparr>)
       (tls_setup W f)"

text \<open>How a started server ends: the first of its three loops to return, and whether it was told to stop.\<close>

definition exit_code :: "'e option \<Rightarrow> bool \<Rightarrow> nat" where
  "exit_code err cancelled = (if err \<noteq> None \<and> \<not> cancelled then 1 else 0)"

section \<open>Loading ends\<close>

text \<open>The documented behaviour of \<open>pem.Decode\<close>: the rest it returns lies behind the block it found.\<close>

definition pem_progress :: "World \<Rightarrow> bool" where
  "pem_progress W \<longleftrightarrow> (\<forall>p b rest. pem_Decode W p = Some (b, rest) \<longrightarrow> length rest < length p)"

text \<open>The blocks of a file, by the same documentation.\<close>

inductive pem_blocks :: "World \<Rightarrow> bytes \<Rightarrow> pem_block list \<Rightarrow> bool" for W where
  no_block: "pem_Decode W p = None \<or> p = [] \<Longrightarrow> pem_blocks W p []"
| block: "p \<noteq> [] \<Longrightarrow> pem_Decode W p = Some (b, rest) \<Longrightarrow> pem_blocks W rest bs \<Longrightarrow> pem_blocks W p (b # bs)"

definition certificates :: "pem_block list \<Rightarrow> bytes list" where
  "certificates bs = map Bytes (filter (\<lambda>b. Type b = ''CERTIFICATE'') bs)"

lemma load_certs_blocks: "pem_blocks W p bs \<Longrightarrow> load_certs W p certs = Some (certs @ certificates bs)"
proof (induction arbitrary: certs rule: pem_blocks.induct)
  case (no_block p)
  then show ?case by (subst load_certs.simps) (auto simp: certificates_def)
next
  case (block p b rest bs)
  then show ?case by (subst load_certs.simps) (auto simp: certificates_def)
qed

lemma pem_blocks_exist: "pem_progress W \<Longrightarrow> \<exists>bs. pem_blocks W p bs"
proof (induction p rule: length_induct)
  case (1 p)
  show ?case
  proof (cases "p = [] \<or> pem_Decode W p = None")
    case True
    then show ?thesis by (auto intro: no_block)
  next
    case False
    then obtain b rest where b: "pem_Decode W p = Some (b, rest)" by fastforce
    then have "length rest < length p" using "1.prems" by (auto simp: pem_progress_def)
    with 1 False b show ?thesis by (auto intro: block)
  qed
qed

lemma LoadKeyPair_blocks:
  assumes "ReadFile W cf = Some cp" and "ReadFile W kf = Some kp" and "pem_blocks W cp bs"
  shows "LoadKeyPair W cf kf = Some
    (if certificates bs = [] then Inl NoCertificates
     else case pem_Decode W kp of
       None \<Rightarrow> Inl NoPrivateKey
     | Some b \<Rightarrow> (case parse_key W (Bytes (fst b)) of
           None \<Rightarrow> Inl NotRSA
         | Some pk \<Rightarrow> Inr \<lparr>Certificate = certificates bs, PrivateKey = Some pk\<rparr>))"
  using assms(1,2) load_certs_blocks [OF assms(3), of "[]"] by (simp add: LoadKeyPair_def split: option.split prod.split)

lemma LoadKeyPair_total:
  assumes "pem_progress W"
  shows "\<exists>r. LoadKeyPair W cf kf = Some r \<and> (\<forall>cfg. r = Inr cfg \<longrightarrow> Certificate cfg \<noteq> [] \<and> PrivateKey cfg \<noteq> None)"
proof (cases "ReadFile W cf"; cases "ReadFile W kf")
  fix cp kp assume f: "ReadFile W cf = Some cp" "ReadFile W kf = Some kp"
  obtain bs where bs: "pem_blocks W cp bs" using pem_blocks_exist [OF assms] by blast
  show ?thesis unfolding LoadKeyPair_blocks [OF f bs] by (auto split: option.splits)
qed (simp_all add: LoadKeyPair_def)

text \<open>
  Claim C26. Loading a key pair always returns, whatever the files hold: it succeeds exactly when both files
  can be read, the certificate file has certificates and the first block of the key file is an RSA
  key, and the configuration then holds the certificates in the order of the file and that key.
\<close>

theorem LoadKeyPair_returns:
  assumes "pem_progress W"
  shows "\<exists>r. LoadKeyPair W cf kf = Some r \<and> (\<forall>cfg. r = Inr cfg \<longleftrightarrow>
    (\<exists>cp kp bs b rest pk. ReadFile W cf = Some cp \<and> ReadFile W kf = Some kp \<and> pem_blocks W cp bs \<and>
       certificates bs \<noteq> [] \<and> pem_Decode W kp = Some (b, rest) \<and> parse_key W (Bytes b) = Some pk \<and>
       cfg = \<lparr>Certificate = certificates bs, PrivateKey = Some pk\<rparr>))"
proof (cases "ReadFile W cf"; cases "ReadFile W kf")
  fix cp kp assume f: "ReadFile W cf = Some cp" "ReadFile W kf = Some kp"
  obtain bs where bs: "pem_blocks W cp bs" using pem_blocks_exist [OF assms] by blast
  have c: "pem_blocks W cp bs' \<Longrightarrow> certificates bs' = certificates bs" for bs'
    using load_certs_blocks [OF bs, of "[]"] load_certs_blocks [of W cp bs' "[]"] by simp
  show ?thesis
  proof (cases "pem_Decode W kp")
    case None
    then show ?thesis unfolding LoadKeyPair_blocks [OF f bs] by (simp add: f)
  next
    case (Some b)
    then show ?thesis
      unfolding LoadKeyPair_blocks [OF f bs] using bs
      by (cases b; cases "parse_key W (Bytes (fst b))") (auto simp: f dest: c)
  qed
qed (simp_all add: LoadKeyPair_def)

section \<open>What runs when the command starts\<close>

text \<open>The TLS configuration the flags ask for: from the two files when both are named, generated when neither is.\<close>

definition asked_config :: "World \<Rightarrow> Flags \<Rightarrow> Config \<Rightarrow> bool" where
  "asked_config W f cfg \<longleftrightarrow>
     (if certFile f = '''' \<and> keyFile f = '''' then GenerateSelfSigned W own_hosts = Inr cfg
      else certFile f \<noteq> '''' \<and> keyFile f \<noteq> '''' \<and> LoadKeyPair W (certFile f) (keyFile f) = Some (Inr cfg))"

text \<open>
  Claim C25. The command starts the server or exits, and which is decided by its flags and the system.  With the
  decoder of PEM making progress, it exits with 2 exactly when only one of certificate and key is given.  It
  starts exactly when the certificate that was asked for can be set up, from its two files or generated, and
  all three addresses can be listened on; what runs then is a new server, which advertises the Autolog address
  of the flags, with that certificate.  In every other case it exits with 1.  A server that
  runs has a certificate and a key for its handshakes and is in a start state of the system, so that all that
  is proved of its runs holds.
\<close>

theorem main_starts:
  assumes "pem_progress W"
  shows "\<exists>r. main W f = Some r \<and> (r = Exit 2 \<longleftrightarrow> (certFile f = '''') \<noteq> (keyFile f = '''')) \<and>
    (\<forall>s. r = Started s \<longleftrightarrow> (\<exists>cfg. asked_config W f cfg \<and> Listen W (redirector f) \<and> Listen W (blaze f) \<and>
       Listen W (autolog f) \<and> s = \<lparr>tlsConfig = cfg, server = New\<lparr>AutologBase := autologURL f\<rparr>\<rparr>)) \<and>
    (case r of
       Exit code \<Rightarrow> code \<in> {1, 2}
     | Started s \<Rightarrow> Certificate (tlsConfig s) \<noteq> [] \<and> PrivateKey (tlsConfig s) \<noteq> None \<and> lobby_start (server s))"
proof -
  have start: "lobby_start (New\<lparr>AutologBase := u\<rparr>)" for u
  proof -
    have "New\<lparr>AutologBase := u\<rparr> = New\<lparr>AutologBase := u, heap := \<lambda>_. newSession OtherAddr\<rparr>" by (simp add: New_def)
    then show ?thesis unfolding lobby_start_def by blast
  qed
  obtain l where l: "LoadKeyPair W (certFile f) (keyFile f) = Some l"
    and usable: "\<And>cfg. l = Inr cfg \<Longrightarrow> Certificate cfg \<noteq> [] \<and> PrivateKey cfg \<noteq> None"
    using LoadKeyPair_total [OF assms] by blast
  have made: "Certificate cfg \<noteq> [] \<and> PrivateKey cfg \<noteq> None" if "GenerateSelfSigned W own_hosts = Inr cfg" for cfg
    using that by (auto simp: GenerateSelfSigned_def split: option.splits)
  show ?thesis
    using l usable made start by (auto simp: main_def tls_setup_def asked_config_def Let_def split: sum.splits)
qed

text \<open>The accept loop hands on every connection up to the first failure, in order.\<close>

lemma Serve_stops:
  "Serve cancelled (map Accepted cs @ AcceptFailed e # rs) = (cs, Some (if cancelled then ContextDone else ListenerError e))"
  by (induction cs) simp_all

section \<open>Witnesses\<close>

text \<open>A world whose blocks are a type byte and a content byte.\<close>

definition demo_world :: World where
  "demo_world =
     \<lparr>ReadFile = (\<lambda>name. if name = ''c.pem'' then Some [1, 48, 2, 9, 1, 49] else if name = ''k.pem'' then Some [3, 7] else None),
      pem_Decode = (\<lambda>p. case p of
          t # b # rest \<Rightarrow> Some (\<lparr>Type = (if t = 1 then ''CERTIFICATE'' else ''OTHER''), Bytes = [b]\<rparr>, rest)
        | _ \<Rightarrow> None),
      ParsePKCS1PrivateKey = (\<lambda>_. None), ParsePKCS8PrivateKey = (\<lambda>_. Some (RSA \<lparr>modulus = 15, exponent = 3\<rparr>)),
      GenerateKey = Some \<lparr>modulus = 15, exponent = 3\<rparr>, Now = 0, AddDate = (\<lambda>t y. t + 31557600000000000 * int y),
      CreateCertificate = (\<lambda>_ _. Some [0x30]), Listen = (\<lambda>_. True)\<rparr>"

lemma demo_progress: "pem_progress demo_world"
  by (auto simp: pem_progress_def demo_world_def split: list.splits)

lemma demo_blocks:
  "pem_blocks demo_world [1, 48, 2, 9, 1, 49]
     [\<lparr>Type = ''CERTIFICATE'', Bytes = [48]\<rparr>, \<lparr>Type = ''OTHER'', Bytes = [9]\<rparr>, \<lparr>Type = ''CERTIFICATE'', Bytes = [49]\<rparr>]"
proof -
  have "pem_blocks demo_world [] []" by (rule no_block) simp
  from block [OF _ _ this, of "[1, 49]"] have "pem_blocks demo_world [1, 49] [\<lparr>Type = ''CERTIFICATE'', Bytes = [49]\<rparr>]"
    by (simp add: demo_world_def)
  from block [OF _ _ this, of "[2, 9, 1, 49]"] have "pem_blocks demo_world [2, 9, 1, 49]
      [\<lparr>Type = ''OTHER'', Bytes = [9]\<rparr>, \<lparr>Type = ''CERTIFICATE'', Bytes = [49]\<rparr>]"
    by (simp add: demo_world_def)
  from block [OF _ _ this, of "[1, 48, 2, 9, 1, 49]"] show ?thesis by (simp add: demo_world_def)
qed

theorem LoadKeyPair_returns_witness:
  "LoadKeyPair demo_world ''c.pem'' ''k.pem'' =
     Some (Inr \<lparr>Certificate = [[48], [49]], PrivateKey = Some \<lparr>modulus = 15, exponent = 3\<rparr>\<rparr>)"
proof -
  obtain r where r: "LoadKeyPair demo_world ''c.pem'' ''k.pem'' = Some r" "\<forall>cfg. r = Inr cfg \<longleftrightarrow>
    (\<exists>cp kp bs b rest pk. ReadFile demo_world ''c.pem'' = Some cp \<and> ReadFile demo_world ''k.pem'' = Some kp \<and>
       pem_blocks demo_world cp bs \<and> certificates bs \<noteq> [] \<and> pem_Decode demo_world kp = Some (b, rest) \<and>
       parse_key demo_world (Bytes b) = Some pk \<and> cfg = \<lparr>Certificate = certificates bs, PrivateKey = Some pk\<rparr>)"
    using LoadKeyPair_returns [OF demo_progress, of "''c.pem''" "''k.pem''"] by blast
  have "r = Inr \<lparr>Certificate = [[48], [49]], PrivateKey = Some \<lparr>modulus = 15, exponent = 3\<rparr>\<rparr>"
    unfolding r(2) [rule_format]
    by (rule exI [of _ "[1, 48, 2, 9, 1, 49]"], rule exI [of _ "[3, 7]"], rule exI, rule exI, rule exI, rule exI,
        intro conjI, simp add: demo_world_def, simp add: demo_world_def, rule demo_blocks)
      (simp_all add: demo_world_def certificates_def parse_key_def)
  with r(1) show ?thesis by simp
qed

theorem main_starts_witness:
  "\<exists>s. main demo_world default_flags = Some (Started s) \<and> lobby_start (server s) \<and>
     AutologBase (server s) = ''http://autolog1.ea.com:18080'' \<and> Certificate (tlsConfig s) \<noteq> []"
proof -
  have "\<exists>s. main demo_world default_flags = Some (Started s)"
    by (simp add: main_def tls_setup_def Let_def default_flags_def demo_world_def GenerateSelfSigned_def)
  then show ?thesis using main_starts [OF demo_progress, of default_flags] by (fastforce simp: default_flags_def)
qed

end
