(* ===== verification/Autolog.thy ===== *)
theory Autolog
  imports Handlers
begin

text \<open>
  The Autolog HTTP service (hpserver/autolog.go): the response as a function of whether the body
  could be read, the path and the raw query.  What the handler uses of the standard library is
  modelled with it: \<open>strings.ToLower\<close> as far as ASCII suffixes can tell, \<open>url.ParseQuery\<close>, and
  \<open>json.Encoder\<close> on the documents built here.  Log lines are left out.
\<close>

section \<open>Strings\<close>

definition HasSuffix :: "string \<Rightarrow> string \<Rightarrow> bool" where
  "HasSuffix s suffix \<longleftrightarrow> length suffix \<le> length s \<and> drop (length s - length suffix) s = suffix"

fun Contains :: "string \<Rightarrow> string \<Rightarrow> bool" where
  "Contains [] p \<longleftrightarrow> p = []"
| "Contains (c # s) p \<longleftrightarrow> take (length p) (c # s) = p \<or> Contains s p"

text \<open>
  \<open>strings.ToLower\<close> maps two characters outside ASCII into ASCII, the dotted capital I (C4 B0) and
  the Kelvin sign (E2 84 AA); every other one stays outside, and is kept as it is here.
\<close>

fun ToLower :: "bytes \<Rightarrow> bytes" where
  "ToLower [] = []"
| "ToLower (b # r) =
     (if b = 0xc4 \<and> take 1 r = [0xb0] then 0x69 # ToLower (drop 1 r)
      else if b = 0xe2 \<and> take 2 r = [0x84, 0xaa] then 0x6b # ToLower (drop 2 r)
      else (if 0x41 \<le> b \<and> b \<le> 0x5a then b + 0x20 else b) # ToLower r)"

section \<open>Queries\<close>

definition Cut :: "char \<Rightarrow> string \<Rightarrow> string \<times> string" where
  "Cut sep s = (takeWhile (\<lambda>c. c \<noteq> sep) s, tl (dropWhile (\<lambda>c. c \<noteq> sep) s))"

fun QueryUnescape :: "string \<Rightarrow> string option" where
  "QueryUnescape [] = Some []"
| "QueryUnescape (c # r) =
     (if c = CHR ''%'' then
        (case r of
           a # b # r' \<Rightarrow>
             (case (hex_digit a, hex_digit b, QueryUnescape r') of
                (Some x, Some y, Some s) \<Rightarrow> Some (char_of_byte (push_bit 4 x OR y) # s)
              | _ \<Rightarrow> None)
         | _ \<Rightarrow> None)
      else map_option ((#) (if c = CHR ''+'' then CHR '' '' else c)) (QueryUnescape r))"

lemma Cut_shorter: "(k, r) = Cut c s \<Longrightarrow> s \<noteq> [] \<Longrightarrow> length r < length s"
  by (cases s) (auto simp: Cut_def less_Suc_eq_le le_diff_conv intro: le_SucI length_dropWhile_le)

function ParseQuery :: "string \<Rightarrow> (string \<times> string) list" where
  "ParseQuery query =
     (if query = [] then []
      else
        let (key, rest) = Cut CHR ''&'' query in
        if CHR '';'' \<in> set key \<or> key = [] then ParseQuery rest
        else
          let (k, v) = Cut CHR ''='' key in
          (case (QueryUnescape k, QueryUnescape v) of
             (Some k', Some v') \<Rightarrow> (k', v') # ParseQuery rest
           | _ \<Rightarrow> ParseQuery rest))"
  by pat_completeness auto

termination
  by (relation "measure length") (auto dest: Cut_shorter)

declare ParseQuery.simps [simp del]

text \<open>\<open>url.Values.Get\<close>: the first value, or the empty string.\<close>

definition Get :: "string \<Rightarrow> (string \<times> string) list \<Rightarrow> string" where
  "Get k values = (case map_of values k of Some v \<Rightarrow> v | None \<Rightarrow> '''')"

section \<open>Documents\<close>

datatype json = JBool bool | JInt int | JStr string | JList "json list" | JObj "(string \<times> json) list"

text \<open>\<open>encoding/json\<close> writes the keys of a Go map in sorted order; the strings here need no escapes.\<close>

definition json_str :: "string \<Rightarrow> string" where
  "json_str s = CHR 0x22 # s @ [CHR 0x22]"

fun commas :: "string list \<Rightarrow> string" where
  "commas [] = []"
| "commas [s] = s"
| "commas (s # ss) = s @ '','' @ commas ss"

function json_text :: "json \<Rightarrow> string" where
  "json_text (JBool b) = (if b then ''true'' else ''false'')"
| "json_text (JInt i) = int_dec i"
| "json_text (JStr s) = json_str s"
| "json_text (JList xs) = ''['' @ commas (map json_text xs) @ '']''"
| "json_text (JObj kvs) =
     CHR 0x7b # commas (map (\<lambda>(k, v). json_str k @ '':'' @ json_text v) (sort_key fst kvs)) @ [CHR 0x7d]"
  by pat_completeness auto

termination
  by (relation "measure size") (auto simp: less_Suc_eq_le intro!: size_list_estimation')

definition json_line :: "json \<Rightarrow> string" where
  "json_line j = json_text j @ [CHR 0x0a]"

section \<open>The handler\<close>

record Response =
  status :: nat
  content_type :: string
  no_store :: bool
  body :: string

definition manifest_document :: json where
  "manifest_document = JObj [(''serverActive'', JBool True),
     (''allow'', JObj [(''accessOnline'', JBool True), (''postPhotos'', JBool False)])]"

definition menu_item :: "string \<Rightarrow> string \<Rightarrow> string \<Rightarrow> int \<Rightarrow> string \<Rightarrow> json" where
  "menu_item item title link needs icon = JObj
     [(''Name'', JStr item), (''Title'', JStr title), (''Link'', JStr link), (''NeedsConnection'', JInt needs),
      (''Icon'', JStr icon), (''Text1'', JStr ''''), (''Text2'', JStr ''''), (''Text3'', JStr '''')]"

definition online_item :: "string \<Rightarrow> string \<Rightarrow> json" where
  "online_item headline action = JObj
     [(''Headline'', JStr headline), (''Subtitle'', JStr ''''), (''Action'', JStr action)]"

text \<open>The switch over \<open>getComponent\<close>.\<close>

definition component_document :: "string \<Rightarrow> json" where
  "component_document component =
     (if component = ''main_menu'' then JObj
        [(''GotoSettings'', JStr ''SETTINGS''),
         (''Items'', JList
           [menu_item ''photos'' ''PHOTOS'' ''photos'' 1 ''PalPhotos'',
            menu_item ''wall'' ''WALL'' ''wall'' 1 ''PalWall'',
            menu_item ''Online'' ''ONLINE'' ''online'' 1 ''PalFriends'',
            menu_item ''Career'' ''CAREER'' ''event_map'' 0 ''PalCareer'',
            menu_item ''AutologRecommends'' ''AUTOLOG RECOMMENDS'' ''al_recommends'' 1 ''PalRecommends'',
            menu_item ''News'' ''NEWS'' ''news'' 1 ''PalNews'',
            menu_item ''Settings'' ''SETTINGS'' ''settings'' 0 ''PalSettings''])]
      else if component = ''autolog_recommends'' then JObj [(''Recommends'', JList [])]
      else if component = ''news_stories'' then JObj [(''NumStories'', JInt 0)]
      else if component = ''online_menu'' then JObj
        [(''Items'', JList
           [online_item ''JOIN FRIENDS'' ''join'', online_item ''QUICK MATCH'' ''find'',
            online_item ''CREATE GAME'' ''create'']),
         (''Icons'', JList [JStr ''!pal:join_friends'', JStr ''!pal:quick_match'', JStr ''!pal:create_game''])]
      else JObj [])"

definition AutologHandler :: "bool \<Rightarrow> string \<Rightarrow> string \<Rightarrow> Response" where
  "AutologHandler readable path query =
     (let lower = bytes_str (ToLower (str_bytes path)) in
      if \<not> readable then
        \<lparr>status = 400, content_type = ''text/plain; charset=utf-8'', no_store = False, body = [CHR 0x0a]\<rparr>
      else if HasSuffix lower ''.manifest'' then
        \<lparr>status = 200, content_type = ''application/json; charset=utf-8'', no_store = True,
         body = json_line manifest_document\<rparr>
      else if HasSuffix lower ''.php'' \<or> Contains lower ''json'' then
        \<lparr>status = 200, content_type = ''application/json'', no_store = True,
         body = json_line (component_document (Get ''getComponent'' (ParseQuery query)))\<rparr>
      else \<lparr>status = 200, content_type = ''application/octet-stream'', no_store = True, body = ''''\<rparr>)"

section \<open>Queries are read back\<close>

text \<open>
  How a client may write a query: a character as itself, a space as a plus, any byte as two hexadecimal digits of
  either case; pairs with or without a value, joined by ampersands, with empty places between them.
\<close>

definition hex_char :: "u8 \<Rightarrow> char" where
  "hex_char n = char_of_byte (if n < 10 then 0x30 + n else 0x57 + n)"

definition hex_CHAR :: "u8 \<Rightarrow> char" where
  "hex_CHAR n = char_of_byte (if n < 10 then 0x30 + n else 0x37 + n)"

inductive escapes :: "string \<Rightarrow> string \<Rightarrow> bool" where
  escapes_nil: "escapes [] []"
| escapes_plain: "c \<notin> {CHR ''%'', CHR ''+'', CHR ''&'', CHR '';'', CHR ''=''} \<Longrightarrow> escapes e s \<Longrightarrow> escapes (c # e) (c # s)"
| escapes_plus: "escapes e s \<Longrightarrow> escapes (CHR ''+'' # e) (CHR '' '' # s)"
| escapes_code: "a \<in> {hex_char (drop_bit 4 (byte_of c)), hex_CHAR (drop_bit 4 (byte_of c))} \<Longrightarrow>
    b \<in> {hex_char (byte_of c AND 0xf), hex_CHAR (byte_of c AND 0xf)} \<Longrightarrow> escapes e s \<Longrightarrow>
    escapes (CHR ''%'' # a # b # e) (c # s)"

definition pair_text :: "string \<Rightarrow> string \<Rightarrow> string \<Rightarrow> bool" where
  "pair_text p k v \<longleftrightarrow> (\<exists>a b. p = a @ ''='' @ b \<and> escapes a k \<and> escapes b v) \<or> (escapes p k \<and> k \<noteq> '''' \<and> v = '''')"

inductive query_of :: "string \<Rightarrow> (string \<times> string) list \<Rightarrow> bool" where
  query_none: "query_of '''' []"
| query_gap: "query_of q kvs \<Longrightarrow> query_of (''&'' @ q) kvs"
| query_last: "pair_text p k v \<Longrightarrow> query_of p [(k, v)]"
| query_more: "pair_text p k v \<Longrightarrow> query_of q kvs \<Longrightarrow> query_of (p @ ''&'' @ q) ((k, v) # kvs)"

lemma nibble: "n < (16 :: u8) \<Longrightarrow> n \<in> {0, 1, 2, 3, 4, 5, 6, 7, 8, 9, 10, 11, 12, 13, 14, 15}"
proof -
  assume "n < 16"
  then have "unat n < 16" by (simp add: word_less_nat_alt)
  then have "unat n \<in> {0, 1, 2, 3, 4, 5, 6, 7, 8, 9, 10, 11, 12, 13, 14, 15}"
    unfolding insert_iff empty_iff by arith
  then show ?thesis by (auto simp: word_unat_eq_iff)
qed

lemma hex_back: "n < 16 \<Longrightarrow> a \<in> {hex_char n, hex_CHAR n} \<Longrightarrow> hex_digit a = Some n"
  using nibble [of n] by (auto simp: hex_char_def hex_CHAR_def hex_digit_def)

lemma hex_not_digit:
  "hex_digit CHR ''&'' = None" "hex_digit CHR ''='' = None" "hex_digit CHR '';'' = None"
  by (simp_all add: hex_digit_def byte_of_def)

lemma nibbles: "drop_bit 4 b < (16 :: u8)" "b AND 0xf < (16 :: u8)" "push_bit 4 (drop_bit 4 b) OR (b AND 0xf) = (b :: u8)"
proof -
  have m: "(0xf :: u8) = mask 4" by (simp add: mask_eq_exp_minus_1)
  have less: "x AND mask 4 < (16 :: u8)" for x
    by (rule le_less_trans [OF word_and_le1]) (simp add: mask_eq_exp_minus_1)
  have "\<not> bit b (4 + n)" if "4 \<le> n" for n using bit_imp_le_length [of b "4 + n"] that by auto
  then have "drop_bit 4 b = drop_bit 4 b AND mask 4" by (auto simp: bit_simps intro!: bit_word_eqI) (meson not_le)
  then show "drop_bit 4 b < (16 :: u8)" using less [of "drop_bit 4 b"] by metis
  show "b AND 0xf < (16 :: u8)" unfolding m by (rule less)
  show "push_bit 4 (drop_bit 4 b) OR (b AND 0xf) = b"
    unfolding m by (auto simp: bit_simps intro!: bit_word_eqI)
qed

lemma escapes_back: "escapes e s \<Longrightarrow> QueryUnescape e = Some s \<and> set e \<inter> {CHR ''&'', CHR '';'', CHR ''=''} = {} \<and> (e = [] \<longleftrightarrow> s = [])"
proof (induction rule: escapes.induct)
  case (escapes_code a c b e s)
  have d: "hex_digit a = Some (drop_bit 4 (byte_of c))" "hex_digit b = Some (byte_of c AND 0xf)"
    using hex_back [OF nibbles(1) escapes_code(1)] hex_back [OF nibbles(2) escapes_code(2)] by simp_all
  then have "{a, b} \<inter> {CHR ''&'', CHR '';'', CHR ''=''} = {}" using hex_not_digit by auto
  then show ?case using d escapes_code.IH nibbles(3) [of "byte_of c"] by simp
qed auto

lemma Cut_at: "c \<notin> set a \<Longrightarrow> Cut c (a @ c # b) = (a, b)"
  by (induction a) (auto simp: Cut_def)

lemma Cut_none: "c \<notin> set a \<Longrightarrow> Cut c a = (a, [])"
  by (induction a) (auto simp: Cut_def)

lemma pair_back:
  assumes "pair_text p k v"
  shows "p \<noteq> []" and "CHR ''&'' \<notin> set p" and "CHR '';'' \<notin> set p"
    and "\<exists>a b. Cut CHR ''='' p = (a, b) \<and> QueryUnescape a = Some k \<and> QueryUnescape b = Some v"
proof -
  from assms consider a b where "p = a @ CHR ''='' # b" "escapes a k" "escapes b v" | "escapes p k" "k \<noteq> []" "v = []"
    by (auto simp: pair_text_def)
  then have "p \<noteq> [] \<and> CHR ''&'' \<notin> set p \<and> CHR '';'' \<notin> set p \<and>
      (\<exists>a b. Cut CHR ''='' p = (a, b) \<and> QueryUnescape a = Some k \<and> QueryUnescape b = Some v)"
  proof cases
    case 1
    then have "Cut CHR ''='' p = (a, b)" using escapes_back [OF 1(2)] by (auto intro: Cut_at)
    then show ?thesis using 1 escapes_back [OF 1(2)] escapes_back [OF 1(3)] by auto
  next
    case 2
    then have "Cut CHR ''='' p = (p, [])" using escapes_back [OF 2(1)] by (auto intro: Cut_none)
    then show ?thesis using 2 escapes_back [OF 2(1)] by auto
  qed
  then show "p \<noteq> []" "CHR ''&'' \<notin> set p" "CHR '';'' \<notin> set p"
    "\<exists>a b. Cut CHR ''='' p = (a, b) \<and> QueryUnescape a = Some k \<and> QueryUnescape b = Some v" by blast+
qed

lemma ParseQuery_back: "query_of q kvs \<Longrightarrow> ParseQuery q = kvs"
proof (induction rule: query_of.induct)
  case query_none
  show ?case by (simp add: ParseQuery.simps)
next
  case (query_gap q kvs)
  have "Cut CHR ''&'' (''&'' @ q) = ([], q)" using Cut_at [of "CHR ''&''" "[]" q] by simp
  then show ?case using query_gap.IH by (subst ParseQuery.simps) simp
next
  case (query_last p k v)
  note b = pair_back [OF query_last]
  obtain a c where "Cut CHR ''='' p = (a, c)" "QueryUnescape a = Some k" "QueryUnescape c = Some v" using b(4) by blast
  with b(1-3) show ?case by (subst ParseQuery.simps) (simp add: Cut_none ParseQuery.simps [of "[]"])
next
  case (query_more p k v q kvs)
  note b = pair_back [OF query_more(1)]
  obtain a c where "Cut CHR ''='' p = (a, c)" "QueryUnescape a = Some k" "QueryUnescape c = Some v" using b(4) by blast
  with b(1-3) show ?case using query_more.IH by (subst ParseQuery.simps) (simp add: Cut_at)
qed

section \<open>Paths\<close>

text \<open>The letters of ASCII in lower case.\<close>

definition ascii_lower :: "char \<Rightarrow> char" where
  "ascii_lower c = (if 0x41 \<le> byte_of c \<and> byte_of c \<le> 0x5a then char_of_byte (byte_of c + 0x20) else c)"

lemma ToLower_append: "q \<noteq> [] \<Longrightarrow> hd q < 0x80 \<Longrightarrow> ToLower (p @ q) = ToLower p @ ToLower q"
proof (induction p rule: ToLower.induct)
  case (2 b r)
  obtain x q' where q0: "q = x # q'" using 2(4) by (cases q) auto
  then have q: "q = x # q'" "x \<noteq> 0xb0" "x \<noteq> 0x84" "x \<noteq> 0xaa" using 2(5) by auto
  have t1: "take 1 (r @ q) = [0xb0] \<longleftrightarrow> take 1 r = [0xb0]" by (cases r) (auto simp: q)
  have t2: "take 2 (r @ q) = [0x84, 0xaa] \<longleftrightarrow> take 2 r = [0x84, 0xaa]"
    by (cases r; cases "tl r") (auto simp: q eval_nat_numeral)
  have d1: "drop 1 (r @ q) = drop 1 r @ q" if "take 1 r = [0xb0]" using that by (cases r) auto
  have d2: "drop 2 (r @ q) = drop 2 r @ q" if "take 2 r = [0x84, 0xaa]"
    using that by (cases r; cases "tl r") (auto simp: eval_nat_numeral)
  show ?case
    using "2.IH" 2(4,5) d1 d2 unfolding append_Cons ToLower.simps t1 t2 by (auto simp del: drop_append)
qed simp

lemma ToLower_ascii: "\<forall>c \<in> set s. byte_of c < 0x80 \<Longrightarrow> ToLower (str_bytes s) = str_bytes (map ascii_lower s)"
  by (induction s) (auto simp: str_bytes_def ascii_lower_def)

lemma ascii_lower_ascii: "byte_of (ascii_lower c) < 0x80 \<Longrightarrow> byte_of c < 0x80"
  by (cases "byte_of c \<le> 0x5a") (auto simp: ascii_lower_def elim: order.strict_trans1)

lemma lower_php:
  assumes "map ascii_lower s = ''.php''"
  shows "bytes_str (ToLower (str_bytes (p @ s))) = bytes_str (ToLower (str_bytes p)) @ ''.php''"
proof -
  have "byte_of (ascii_lower c) < 0x80" if "c \<in> set s" for c
  proof -
    have "ascii_lower c \<in> set ''.php''" using that unfolding assms [symmetric] by simp
    then show ?thesis by (auto simp: byte_of_def)
  qed
  then have a: "\<forall>c \<in> set s. byte_of c < 0x80" using ascii_lower_ascii by blast
  moreover have "s \<noteq> []" using assms by auto
  ultimately have "ToLower (str_bytes (p @ s)) = ToLower (str_bytes p) @ str_bytes ''.php''"
    using ToLower_ascii [OF a] assms by (subst str_bytes_append, subst ToLower_append) (simp_all add: str_bytes_def hd_map)
  then show ?thesis using bytes_str_bytes [of "''.php''"] by (simp add: bytes_str_def)
qed

text \<open>
  Claim C40. The Autolog service answers any script request, a path that ends in ".php" in letters of either
  case, with the document of the component it asks for: however the query escapes, joins and orders its pairs
  and whatever else it holds, the component is the value of the first \<open>getComponent\<close>, and none or an
  unknown one gets the empty document.
\<close>

theorem autolog_serves_component:
  assumes "map ascii_lower s = ''.php''" and "query_of query kvs"
  shows "AutologHandler True (path @ s) query =
     \<lparr>status = 200, content_type = ''application/json'', no_store = True,
      body = json_line (component_document (case map_of kvs ''getComponent'' of Some c \<Rightarrow> c | None \<Rightarrow> ''''))\<rparr>"
proof -
  have n: "\<not> HasSuffix (x @ ''.php'') ''.manifest''" for x
    by (auto simp: HasSuffix_def dest!: arg_cong [where f = last])
  have y: "HasSuffix (x @ ''.php'') ''.php''" for x by (simp add: HasSuffix_def)
  show ?thesis
    unfolding AutologHandler_def lower_php [OF assms(1)] Let_def using n y by (simp add: Get_def ParseQuery_back [OF assms(2)])
qed

theorem autolog_serves_component_witness:
  "AutologHandler True ''/json_portal.ws.php'' ''pName=A+B&&getComponent=online%5Fmenu&getComponent=x'' =
     \<lparr>status = 200, content_type = ''application/json'', no_store = True,
      body = json_line (component_document ''online_menu'')\<rparr>"
proof -
  have plain: "escapes s s" if "set s \<inter> {CHR ''%'', CHR ''+'', CHR ''&'', CHR '';'', CHR ''=''} = {}" for s
    using that by (induction s) (auto intro: escapes_nil escapes_plain)
  have "escapes ''A+B'' ''A B''"
    using escapes_plain [OF _ escapes_plus [OF plain [of "''B''"]], of "CHR ''A''"] by simp
  then have 1: "pair_text ''pName=A+B'' ''pName'' ''A B''"
    unfolding pair_text_def by (intro disjI1 exI [of _ "''pName''"] exI [of _ "''A+B''"]) (simp add: plain)
  have u: "CHR ''5'' = hex_char (drop_bit 4 (byte_of CHR ''_''))" "CHR ''F'' = hex_CHAR (byte_of CHR ''_'' AND 0xf)"
    using char_of_byte_of [of "CHR ''5''"] char_of_byte_of [of "CHR ''F''"]
    by (simp_all add: hex_char_def hex_CHAR_def byte_of_def)
  have "escapes ''%5Fmenu'' ''_menu''"
    using escapes_code [OF _ _ plain [of "''menu''"], of "CHR ''5''" "CHR ''_''" "CHR ''F''"] u by simp
  then have "escapes (''online'' @ ''%5Fmenu'') (''online'' @ ''_menu'')"
    by (simp add: escapes_plain)
  then have 2: "pair_text ''getComponent=online%5Fmenu'' ''getComponent'' ''online_menu''"
    unfolding pair_text_def
    by (intro disjI1 exI [of _ "''getComponent''"] exI [of _ "''online%5Fmenu''"]) (simp add: plain)
  have 3: "pair_text ''getComponent=x'' ''getComponent'' ''x''"
    unfolding pair_text_def by (intro disjI1 exI [of _ "''getComponent''"] exI [of _ "''x''"]) (simp add: plain)
  have q: "query_of ''pName=A+B&&getComponent=online%5Fmenu&getComponent=x''
      [(''pName'', ''A B''), (''getComponent'', ''online_menu''), (''getComponent'', ''x'')]"
    using query_more [OF 1 query_gap [OF query_more [OF 2 query_last [OF 3]]]] by simp
  have p: "map ascii_lower ''.php'' = ''.php''" by (simp add: ascii_lower_def byte_of_def)
  show ?thesis using autolog_serves_component [OF p q, of "''/json_portal.ws''"] by simp
qed

end
