(* ===== verification/Spec2Isabelle.thy ===== *)
theory Spec2Isabelle
  imports Logging Tdf_Canonical Session_Properties Lifecycle Startup Autolog
begin

text \<open>
  A model of the server of Need for Speed: Hot Pursuit (2010) for a local network, and the theorems
  that make it correct.

  THE PROGRAM.  A client opens a connection with the legacy TLS of the game (src/legacytls), sends
  requests as legacy FIRE frames (src/legacyfire), whose payloads are TDF structs (src/Fire2*.go, the
  Blaze SDK codec), and gets replies and notifications.  The server (src/hpserver) keeps registries of
  users, sessions, games and a matchmaking queue behind one mutex; one handler per request reads and
  changes them.  A reading goroutine per connection runs the handlers, a writing one sends what the
  session has queued.  An HTTP service answers the in-game Autolog pages (autolog.go).

  THE THEORIES, from the bottom up.

  HP_Prelude: byte strings, big-endian fields, and \<open>'a go\<close>, the result of code that may end in a Go run-time
  panic.  Codec: the interface of a codec that reads back what it wrote (locale \<open>prefix_codec\<close>) and the
  decoding of a stream of values.  Go_Fmt: integers and \<open>float32\<close> as \<open>fmt\<close> prints them (keys are sorted by
  these texts).

  Varint: packed integers (\<open>EncodeVarsizeInteger\<close>, \<open>DecodeVarsizeInteger\<close>).  Tdf: the dynamic values as one
  datatype, tags, Go's interface equality, map reads (\<open>map_get\<close>: a key is looked up by that equality, so
  nothing is found under a NaN) and the order of keys.  Go_Maps: when two values are the same Go value with the
  entries of their maps listed in other orders.  Tdf_Decode, Tdf_Encode: the decoder
  (\<open>readValue\<close>, \<open>readStruct\<close>, \<open>DecodeTDF\<close>) and the encoder (\<open>encodeValue\<close>, \<open>encodeStruct\<close>, \<open>EncodeTDF\<close>), every
  branch, with panics as values and the structural recursions proved to terminate; \<open>encodes\<close> says what the
  encoder does not panic on.  Tdf_Canonical: the bytes do not depend on the order of map entries.
  Tdf_Roundtrip: what is encoded is decoded, up to the canonical form \<open>norm\<close> and \<open>arrived\<close>, when it is
  \<open>wire_ok\<close> (no NaN among the keys of maps).  Fire2: FIRE2 packets, the tag scan \<open>FindTagInt\<close> and the builder
  \<open>Encoder\<close>, whose maps live in a store, since a struct holds its inner structs by reference from
  \<open>BeginStruct\<close> on.  Logging: the text of payloads
  (\<open>formatPayload\<close>, \<open>writeValue\<close>) and of headers, with the formats of \<open>fmt\<close> it uses.  Legacy_Fire: frames on byte streams, and
  \<open>Write\<close> over writers that take part of what they are given.

  Session, Game, Server, Matchmaking, Handlers: the files session.go, game.go, server.go and handlers.go.
  A \<open>Session\<close> record lives at a handle in the \<open>heap\<close> of the \<open>Server\<close> record, as the code shares pointers;
  maps of the code are association lists.  A function that takes the mutex is one definition per critical
  section (named with \<open>_locked\<close>) and one for what it does outside.  \<open>registerDefaultHandlers\<close> lists the
  handlers with their numbers, \<open>serve_request\<close> is one round of \<open>serveConn\<close>.

  Step_System: runs, paths and two contracts (locales \<open>invariant_system\<close> and \<open>stable_system\<close>).  Lobby: the
  invariant of the registries, \<open>lobby_ok\<close>.  Lobby_Ops, Lobby_Match: every critical section keeps it.
  Lobby_System: the server as a step relation, one step per critical section of any session in any order,
  and the interpretations of the contracts.  Lobby_Handlers: serving a request is a path of steps.
  Clean_Requests: when no request panics.  Lobby_Properties, Match_Properties, Session_Properties,
  Request_Properties: the properties of the server.

  Go_Crypto: MD5, SHA-1, HMAC, RC4 and RSA decryption with its padding, as the standard library computes
  them.  Tls_Record, Tls_Handshake: the record layer and the handshake of conn.go.  Tls_Stream: a
  connection is the byte stream it delivers.  Tls_Client: the records of a client that follows the
  protocol.  Tls_Agreement: the handshake succeeds with exactly such a client.  Tls_Properties: its
  properties.  Connection: \<open>serveConn\<close> and \<open>writeLoop\<close>, from the handshake to the removal of the session.
  Connection_Properties: the composition of all layers.  Lifecycle: a connection among others, by rely and
  guarantee.  Startup: \<open>LoadKeyPair\<close>, \<open>GenerateSelfSigned\<close>, the listener, \<open>Serve\<close> and the command.  Autolog:
  the HTTP handler.

  WHAT IS SHOWN.  Codec: round trips of integers, values, structs, packets and frame streams; the encoding
  and the log text do not depend on the order of Go maps at any depth (for maps whose keys have different
  texts, and for the encoding values of one leaf type); exactly which values and which inputs panic; what the
  builder builds; no
  string of a client breaks the layout of the log.  Server: in every
  reachable state a connection is idle, queued or in one game, games are well formed, personas are unique
  and kept, and no two compatible requests wait beside each other; what a login, a matchmaking request, a
  new game, a removal and the end of a connection do; that handlers are sequences of critical sections, so
  these hold between any two requests; and that clean requests never panic.  TLS: the handshake is total,
  authenticates the exchange, and completes with every client that follows the protocol; data arrives
  unchanged.  Connections: what a client sends is served as its requests, in order, whatever others do
  meanwhile, and queued frames reach the wire in order; whatever a client sends, its connection leaves
  nothing of it in the registries, and clean requests are served to the end.  Startup: loading a key
  pair returns with the certificates and key of the files or an error, and the command exits with the
  code of the failure or runs a server in a start state of the system.

  BOUNDS AND FUEL.  Integers have the width of the code (\<open>i64\<close> is a 64-bit word read as signed).  The identifier
  counters are 64 bits wide; the system steps that take a number carry \<open>numbers_left\<close>, that none has
  reached the end of its range.  \<open>free_slot\<close> has as much fuel as slots are in use and \<open>persona_loop\<close> as much as
  there are registrations: each round passes one of them, so the loops end before (\<open>free_slot_least\<close>,
  \<open>persona_loop_fresh\<close>).  The fuel of \<open>f32_point\<close> and \<open>f32_short\<close> covers all values of \<open>float32\<close>.
  \<open>load_certs\<close> is a partial function whose result is proved to exist (\<open>load_certs_blocks\<close>,
  \<open>pem_blocks_exist\<close>).  Every other loop is a recursion with its termination proof.

  ARGUMENTS OF THE MODEL.  The clock, random bytes, the bytes that arrive, the behaviour of a writer, what
  other connections do while one waits (\<open>Environment\<close>), when a context is cancelled, and, when the server
  starts (\<open>World\<close>), files, listening sockets, \<open>encoding/pem\<close>, \<open>crypto/x509\<close> and key generation; for the log
  (\<open>Printer\<close>), Unicode's printable runes and the key order of \<open>fmt\<close>.  Of these two
  records the theorems assume only that \<open>pem.Decode\<close> returns less than it was given (\<open>pem_progress\<close>) and
  that \<open>fmt\<close> sorts by keys (\<open>key_sorted\<close>).

  NOT MODELLED.  Goroutines as such: interleaving is the step relation of Lobby_System.  Blocking on a full
  outgoing queue.  Deadlines, since the code sets none.  The log lines of the server and the TLS trace.
  Parsing of flags and the delivery of signals.  The manual test program src/test.
\<close>

end
